(* ===== verification/Prelude.thy ===== *)
theory Prelude
  imports Main "HOL-Library.Word" "HOL-Library.Char_ord" "HOL-Library.List_Lexorder"
    "HOL-Library.Monad_Syntax" "HOL-Library.Multiset"
begin

section \<open>Shared vocabulary of the development\<close>

text \<open>
  What the component theories share: the machine integer types of the C++ sources, the standard
  library functions on strings that several programs call (\<^verbatim>\<open>std::getline\<close> with a delimiter,
  \<^verbatim>\<open>std::to_string\<close>), callbacks that may stop an iteration, ordered containers
  (\<^verbatim>\<open>std::set\<close> and \<^verbatim>\<open>std::map\<close> as lists kept in key order), and the lemma collections the
  component proofs use.
\<close>

unbundle bit_operations_syntax

type_synonym u8 = "8 word"
type_synonym u16 = "16 word"
type_synonym u32 = "32 word"
type_synonym u64 = "64 word"

named_theorems no_null \<open>facts that a pointer is not dereferenced when it is null\<close>
named_theorems keeps \<open>preservation of a component's invariant by an operation\<close>

subsection \<open>Options as code that may fail\<close>

lemma bind_eq_Some_conv' [simp]:
  "(Option.bind m f = Some y) \<longleftrightarrow> (\<exists>x. m = Some x \<and> f x = Some y)"
  by (cases m) auto

subsection \<open>Callbacks that may stop an iteration\<close>

text \<open>
  A callback is a state transformer that also answers whether the iteration stops. Every traversal
  of the repository calls such a callback once per visited element.
\<close>

fun run_until :: "('e \<Rightarrow> 's \<Rightarrow> bool \<times> 's) \<Rightarrow> 'e list \<Rightarrow> 's \<Rightarrow> bool \<times> 's" where
  "run_until cb [] s = (False, s)"
| "run_until cb (e # es) s =
     (case cb e s of (stop, s') \<Rightarrow> if stop then (True, s') else run_until cb es s')"

lemma run_until_append:
  "run_until cb (xs @ ys) s =
     (case run_until cb xs s of (stop, s') \<Rightarrow> if stop then (True, s') else run_until cb ys s')"
  by (induction xs arbitrary: s) (auto split: prod.splits)

text \<open>A callback that only records what it is called on never stops and sees everything.\<close>

lemma run_until_record:
  "run_until (\<lambda>e s. (False, s @ [e])) xs s = (False, s @ xs)"
  by (induction xs arbitrary: s) auto

subsection \<open>Decimal numerals: std::to_string\<close>

definition digit_char :: "nat \<Rightarrow> char" where
  "digit_char d = char_of (48 + d)"

fun string_of_nat :: "nat \<Rightarrow> string" where
  "string_of_nat n =
     (if n < 10 then [digit_char n] else string_of_nat (n div 10) @ [digit_char (n mod 10)])"

declare string_of_nat.simps [simp del]

definition string_of_int :: "int \<Rightarrow> string" where
  "string_of_int i = (if i < 0 then CHR ''-'' # string_of_nat (nat (- i)) else string_of_nat (nat i))"

definition digit_value :: "char \<Rightarrow> nat" where
  "digit_value c = of_char c - 48"

definition value_of_digits :: "string \<Rightarrow> nat" where
  "value_of_digits s = foldl (\<lambda>acc c. 10 * acc + digit_value c) 0 s"

definition is_digit :: "char \<Rightarrow> bool" where
  "is_digit c \<longleftrightarrow> 48 \<le> (of_char c :: nat) \<and> (of_char c :: nat) \<le> 57"

lemma of_char_digit: "d < 10 \<Longrightarrow> (of_char (digit_char d) :: nat) = 48 + d"
  by (simp add: digit_char_def)

lemma digit_value_digit_char [simp]: "d < 10 \<Longrightarrow> digit_value (digit_char d) = d"
  by (simp add: digit_value_def of_char_digit)

lemma is_digit_digit_char [simp]: "d < 10 \<Longrightarrow> is_digit (digit_char d)"
  by (simp add: is_digit_def of_char_digit)

lemma value_of_digits_snoc [simp]:
  "value_of_digits (s @ [c]) = 10 * value_of_digits s + digit_value c"
  by (simp add: value_of_digits_def)

lemma value_string_of_nat [simp]: "value_of_digits (string_of_nat n) = n"
proof (induction n rule: string_of_nat.induct)
  case (1 n)
  show ?case
  proof (cases "n < 10")
    case True
    then show ?thesis
      by (subst string_of_nat.simps) (simp add: value_of_digits_def)
  next
    case False
    with 1 have "value_of_digits (string_of_nat (n div 10)) = n div 10" by simp
    with False show ?thesis
      by (subst string_of_nat.simps) simp
  qed
qed

lemma string_of_nat_digits: "\<forall>c \<in> set (string_of_nat n). is_digit c"
proof (induction n rule: string_of_nat.induct)
  case (1 n)
  then show ?case
    by (subst string_of_nat.simps) auto
qed

lemma string_of_nat_inj [simp]: "string_of_nat m = string_of_nat n \<longleftrightarrow> m = n"
  by (metis value_string_of_nat)

lemma string_of_nat_nonempty [simp]: "string_of_nat n \<noteq> []"
  by (subst string_of_nat.simps) simp

lemma digit_not_minus: "is_digit c \<Longrightarrow> c \<noteq> CHR ''-''"
  by (auto simp: is_digit_def)

lemma string_of_nat_not_minus: "string_of_nat n \<noteq> CHR ''-'' # s"
proof
  assume "string_of_nat n = CHR ''-'' # s"
  then have "CHR ''-'' \<in> set (string_of_nat n)" by simp
  then show False using string_of_nat_digits digit_not_minus by blast
qed

lemma string_of_int_inj [simp]: "string_of_int i = string_of_int j \<longleftrightarrow> i = j"
  using string_of_nat_not_minus [symmetric] string_of_nat_not_minus
  by (auto simp: string_of_int_def split: if_splits)

subsection \<open>std::string\<close>

text \<open>
  \<^verbatim>\<open>find\<close>, \<^verbatim>\<open>rfind\<close> and \<^verbatim>\<open>find_first_not_of\<close> with one character; \<^const>\<open>None\<close> is \<^verbatim>\<open>npos\<close>.
\<close>

definition str_find :: "char \<Rightarrow> string \<Rightarrow> nat option" where
  "str_find c s = (if c \<in> set s then Some (length (takeWhile (\<lambda>x. x \<noteq> c) s)) else None)"

definition str_rfind :: "char \<Rightarrow> string \<Rightarrow> nat option" where
  "str_rfind c s =
     (if c \<in> set s then Some (length s - 1 - length (takeWhile (\<lambda>x. x \<noteq> c) (rev s))) else None)"

definition str_find_first_not_of :: "char \<Rightarrow> string \<Rightarrow> nat \<Rightarrow> nat option" where
  "str_find_first_not_of c s pos =
     (let rest = dropWhile (\<lambda>x. x = c) (drop pos s)
      in if rest = [] then None else Some (length s - length rest))"

definition starts_with :: "string \<Rightarrow> string \<Rightarrow> bool" where
  "starts_with str beginning \<longleftrightarrow> take (length beginning) str = beginning"

lemma str_find_at: "c \<notin> set a \<Longrightarrow> str_find c (a @ c # b) = Some (length a)"
  by (induction a) (auto simp: str_find_def)

lemma str_rfind_at: "c \<notin> set b \<Longrightarrow> str_rfind c (a @ c # b) = Some (length a)"
proof -
  assume "c \<notin> set b"
  then have "length (takeWhile (\<lambda>x. x \<noteq> c) (rev b @ [c] @ rev a)) = length b"
    by (subst takeWhile_append2) auto
  then show ?thesis by (simp add: str_rfind_def)
qed

lemma str_find_None: "str_find c s = None \<longleftrightarrow> c \<notin> set s"
  and str_rfind_None: "str_rfind c s = None \<longleftrightarrow> c \<notin> set s"
  by (auto simp: str_find_def str_rfind_def)

definition str_contains :: "string \<Rightarrow> string \<Rightarrow> bool" where
  "str_contains s t \<longleftrightarrow> list_ex (\<lambda>i. starts_with (drop i s) t) [0..<length s + 1]"

text \<open>A C string in a buffer ends at the first null character.\<close>

definition c_string :: "string \<Rightarrow> string" where
  "c_string buf = takeWhile (\<lambda>c. c \<noteq> CHR 0x00) buf"

lemma digit_not_nul: "is_digit c \<Longrightarrow> c \<noteq> CHR 0x00"
  by (auto simp: is_digit_def)

lemma c_string_digits: "\<forall>c \<in> set s. c \<noteq> CHR 0x00 \<Longrightarrow> c_string (s @ CHR 0x00 # r) = s"
  by (simp add: c_string_def takeWhile_append)

lemma string_of_nat_no_nul: "\<forall>c \<in> set (string_of_nat n). c \<noteq> CHR 0x00"
  using string_of_nat_digits digit_not_nul by blast

text \<open>
  \<^verbatim>\<open>strtol\<close> in base 10 for a 64-bit \<^verbatim>\<open>long\<close>: leading white space, a sign, digits as far as they go,
  the bounds of the type beyond them, 0 without digits.
\<close>

definition is_space :: "char \<Rightarrow> bool" where
  "is_space c \<longleftrightarrow> of_char c = (32::nat) \<or> 9 \<le> (of_char c :: nat) \<and> (of_char c :: nat) \<le> 13"

definition strtol10 :: "string \<Rightarrow> int" where
  "strtol10 s =
     (let t = dropWhile is_space s;
          neg = (t \<noteq> [] \<and> hd t = CHR ''-'');
          t' = (if t \<noteq> [] \<and> (hd t = CHR ''-'' \<or> hd t = CHR ''+'') then tl t else t);
          v = int (value_of_digits (takeWhile is_digit t'))
      in if neg then max (- (2 ^ 63)) (- v) else min (2 ^ 63 - 1) v)"

text \<open>\<^verbatim>\<open>strtoul\<close> in base 10 for a 64-bit \<^verbatim>\<open>unsigned long\<close>, with whether it sets \<^verbatim>\<open>errno\<close>, and what it leaves.\<close>

definition strtoul10 :: "string \<Rightarrow> nat \<times> bool" where
  "strtoul10 s =
     (let t = dropWhile is_space s;
          neg = (t \<noteq> [] \<and> hd t = CHR ''-'');
          t' = (if t \<noteq> [] \<and> (hd t = CHR ''-'' \<or> hd t = CHR ''+'') then tl t else t);
          v = value_of_digits (takeWhile is_digit t')
      in if v > 2 ^ 64 - 1 then (2 ^ 64 - 1, True)
         else (if neg \<and> v \<noteq> 0 then 2 ^ 64 - v else v, False))"

definition strtoul10_rest :: "string \<Rightarrow> string" where
  "strtoul10_rest s =
     (let t = dropWhile is_space s;
          t' = (if t \<noteq> [] \<and> (hd t = CHR ''-'' \<or> hd t = CHR ''+'') then tl t else t)
      in if takeWhile is_digit t' = [] then s else dropWhile is_digit t')"

lemma string_of_nat_hd_digit: "is_digit (hd (string_of_nat n))"
  using string_of_nat_digits [of n] string_of_nat_nonempty [of n] hd_in_set by blast

lemma digit_plain: "is_digit c \<Longrightarrow> \<not> is_space c \<and> c \<noteq> CHR ''-'' \<and> c \<noteq> CHR ''+''"
  by (auto simp: is_digit_def is_space_def)

lemma strtoul_string_of_nat: "n < 2 ^ 64 \<Longrightarrow> strtoul10 (string_of_nat n) = (n, False)"
proof -
  assume n: "n < 2 ^ 64"
  obtain c cs where s: "string_of_nat n = c # cs" by (metis list.exhaust string_of_nat_nonempty)
  then have "\<not> is_space c" "c \<noteq> CHR ''-''" "c \<noteq> CHR ''+''"
    using string_of_nat_hd_digit [of n] digit_plain by auto
  moreover have "takeWhile is_digit (string_of_nat n) = string_of_nat n"
    using string_of_nat_digits by (simp add: takeWhile_eq_all_conv)
  then have "value_of_digits (takeWhile is_digit (c # cs)) = n" by (metis s value_string_of_nat)
  ultimately show ?thesis using n by (simp add: strtoul10_def s Let_def)
qed

lemma strtoul_rest_string_of_nat: "strtoul10_rest (string_of_nat n) = []"
proof -
  obtain c cs where s: "string_of_nat n = c # cs" by (metis list.exhaust string_of_nat_nonempty)
  then have c: "is_digit c" "\<not> is_space c" "c \<noteq> CHR ''-''" "c \<noteq> CHR ''+''"
    using string_of_nat_hd_digit [of n] digit_plain by auto
  have "dropWhile is_digit (string_of_nat n) = []" using string_of_nat_digits by (simp add: dropWhile_eq_Nil_conv)
  then show ?thesis using c by (simp add: strtoul10_rest_def s Let_def)
qed

subsection \<open>std::getline with a delimiter\<close>

text \<open>
  The items that \<^verbatim>\<open>while( getline( stream, item, d ) )\<close> yields on a stream holding the string:
  the stretches between delimiters. The last one is not delivered when it is empty, because the
  stream then is at its end before a character is extracted.
\<close>

function getline_items :: "char \<Rightarrow> string \<Rightarrow> string list" where
  "getline_items d s =
     (if s = [] then [] else takeWhile (\<lambda>c. c \<noteq> d) s # getline_items d (tl (dropWhile (\<lambda>c. c \<noteq> d) s)))"
  by pat_completeness auto
termination
proof (relation "measure (\<lambda>(d, s). length s)")
  fix d :: char and s :: string
  assume "s \<noteq> []"
  then have "0 < length s" by simp
  then have "length (tl (dropWhile (\<lambda>c. c \<noteq> d) s)) < length s"
    unfolding length_tl using length_dropWhile_le [of "\<lambda>c. c \<noteq> d" s] by arith
  then show "((d, tl (dropWhile (\<lambda>c. c \<noteq> d) s)), d, s) \<in> measure (\<lambda>(d, s). length s)"
    by simp
qed simp

declare getline_items.simps [simp del]

lemma getline_items_Nil [simp]: "getline_items d [] = []"
  by (simp add: getline_items.simps)

lemma getline_items_no_delim:
  "s \<noteq> [] \<Longrightarrow> d \<notin> set s \<Longrightarrow> getline_items d s = [s]"
proof -
  assume s: "s \<noteq> []" "d \<notin> set s"
  then have "takeWhile (\<lambda>c. c \<noteq> d) s = s" "dropWhile (\<lambda>c. c \<noteq> d) s = []"
    by (auto simp: takeWhile_eq_all_conv dropWhile_eq_Nil_conv)
  then show ?thesis using s(1) by (subst getline_items.simps) (simp only: if_False list.sel getline_items_Nil)
qed

lemma getline_items_delim:
  "d \<notin> set a \<Longrightarrow> getline_items d (a @ d # s) = a # getline_items d s"
proof -
  assume a: "d \<notin> set a"
  then have "takeWhile (\<lambda>c. c \<noteq> d) (a @ d # s) = a" "dropWhile (\<lambda>c. c \<noteq> d) (a @ d # s) = d # s"
    by (induction a) auto
  then show ?thesis by (subst getline_items.simps) simp
qed

text \<open>The loop bodies of the repository skip empty items.\<close>

definition path_items :: "char \<Rightarrow> string \<Rightarrow> string list" where
  "path_items d s = [i \<leftarrow> getline_items d s. i \<noteq> []]"

definition path_string :: "char \<Rightarrow> string list \<Rightarrow> string" where
  "path_string d is = concat (map (\<lambda>i. d # i) is)"

lemma getline_items_join:
  "\<forall>i \<in> set (a # is). i \<noteq> [] \<and> d \<notin> set i \<Longrightarrow> getline_items d (a @ path_string d is) = a # is"
proof (induction "is" arbitrary: a)
  case Nil
  then show ?case by (simp add: path_string_def getline_items_no_delim)
next
  case (Cons x xs)
  then show ?case using getline_items_delim [of d a] by (simp add: path_string_def)
qed

lemma path_items_join:
  "a \<noteq> [] \<Longrightarrow> d \<notin> set a \<Longrightarrow> \<forall>i \<in> set is. i \<noteq> [] \<and> d \<notin> set i \<Longrightarrow>
   path_items d (a @ path_string d is) = a # is"
proof (induction "is" arbitrary: a)
  case Nil
  then show ?case by (simp add: path_items_def path_string_def getline_items_no_delim)
next
  case (Cons b bs)
  have "getline_items d (a @ path_string d (b # bs)) = a # getline_items d (b @ path_string d bs)"
    using Cons.prems by (simp add: path_string_def getline_items_delim)
  with Cons show ?case by (simp add: path_items_def)
qed

lemma path_items_path_string:
  "(\<forall>i \<in> set is. i \<noteq> [] \<and> d \<notin> set i) \<Longrightarrow> path_items d (path_string d is) = is"
proof (cases "is")
  case Nil
  then show ?thesis by (simp add: path_items_def path_string_def)
next
  case (Cons b bs)
  assume good: "\<forall>i \<in> set is. i \<noteq> [] \<and> d \<notin> set i"
  have "getline_items d (path_string d is) = [] # getline_items d (b @ path_string d bs)"
    using getline_items_delim [of d "[]"] Cons by (simp add: path_string_def)
  with Cons good path_items_join [of b d bs] show ?thesis by (simp add: path_items_def)
qed

end
