(* ===== verification/Avl.thy ===== *)
theory Avl
  imports Prelude
begin

section \<open>The AVL tree with reference counts\<close>

text \<open>
  Models \<^verbatim>\<open>data_structures/AVL/avl.cpp\<close>. A node owns its children through shared pointers and a
  detached node is never reached from two places once an operation has returned, so a tree of nodes
  is a datatype whose \<^verbatim>\<open>Null\<close> is the empty pointer. A dereference of the empty pointer is the value
  \<^const>\<open>None\<close>: the rotations, the balance step and the recursive operations return an option, and
  the properties below show that \<^const>\<open>None\<close> never happens on a tree built by the operations.
  The counters \<^verbatim>\<open>ref\<close>, \<^verbatim>\<open>nodes\<close> and \<^verbatim>\<open>unique_nodes\<close> are 32-bit and wrap; the depth of a node is a
  natural number, which \<^verbatim>\<open>height_bound\<close> shows to be logarithmic in the number of nodes.
\<close>

subsection \<open>Nodes\<close>

datatype 'a node =
    Null
  | Node (val: 'a) (depth_of: nat) (ref_of: u32) (left_of: "'a node") (right_of: "'a node")

definition new_node :: "'a \<Rightarrow> 'a node" where
  "new_node v = Node v 1 1 Null Null"

fun child_depth :: "'a node \<Rightarrow> nat" where
  "child_depth Null = 0"
| "child_depth (Node v d c l r) = d"

fun max_depth :: "'a node \<Rightarrow> nat option" where
  "max_depth Null = None"
| "max_depth (Node v d c l r) =
     Some (let dl = child_depth l; dr = child_depth r in if dl > dr then dl else dr)"

fun update_depth :: "'a node \<Rightarrow> 'a node option" where
  "update_depth Null = None"
| "update_depth (Node v d c l r) =
     do { m \<leftarrow> max_depth (Node v d c l r); Some (Node v (m + 1) c l r) }"

fun rotate_left :: "'a node \<Rightarrow> 'a node option" where
  "rotate_left (Node a da ca l (Node b db cb rl rr)) =
     do { a' \<leftarrow> update_depth (Node a da ca l rl); update_depth (Node b db cb a' rr) }"
| "rotate_left _ = None"

fun rotate_right :: "'a node \<Rightarrow> 'a node option" where
  "rotate_right (Node a da ca (Node b db cb ll lr) r) =
     do { a' \<leftarrow> update_depth (Node a da ca lr r); update_depth (Node b db cb ll a') }"
| "rotate_right _ = None"

fun balance :: "'a node \<Rightarrow> int option" where
  "balance Null = None"
| "balance (Node v d c l r) =
     Some (if d \<noteq> 0 then int (child_depth l) - int (child_depth r) else 0)"

fun min_node :: "'a node \<Rightarrow> 'a node option" where
  "min_node Null = None"
| "min_node (Node v d c l r) = (if l = Null then Some (Node v d c l r) else min_node l)"

subsection \<open>Insertion\<close>

text \<open>The tail of \<^verbatim>\<open>Node::insert\<close>: the depth is advanced and a branch that became too deep is rotated.\<close>

fun balance_inserted :: "'a::linorder \<Rightarrow> 'a node \<Rightarrow> 'a node option" where
  "balance_inserted v n =
     do { n \<leftarrow> update_depth n;
          b \<leftarrow> balance n;
          if b > 1 then
            (case n of Node x d c (Node lx ld lc ll lr) r \<Rightarrow>
               do { l' \<leftarrow> (if v > lx then rotate_left (Node lx ld lc ll lr)
                            else Some (Node lx ld lc ll lr));
                    rotate_right (Node x d c l' r) }
             | _ \<Rightarrow> None)
          else if b < -1 then
            (case n of Node x d c l (Node rx rd rc rl rr) \<Rightarrow>
               do { r' \<leftarrow> (if v < rx then rotate_right (Node rx rd rc rl rr)
                            else Some (Node rx rd rc rl rr));
                    rotate_left (Node x d c l r') }
             | _ \<Rightarrow> None)
          else Some n }"

fun node_insert :: "'a::linorder \<Rightarrow> 'a node \<Rightarrow> ('a node \<times> bool) option" where
  "node_insert v Null = None"
| "node_insert v (Node x d c l r) =
     (if v < x then
        do { (l', res) \<leftarrow> (if l = Null then Some (new_node v, True) else node_insert v l);
             n \<leftarrow> balance_inserted v (Node x d c l' r);
             Some (n, res) }
      else if v > x then
        do { (r', res) \<leftarrow> (if r = Null then Some (new_node v, True) else node_insert v r);
             n \<leftarrow> balance_inserted v (Node x d c l r');
             Some (n, res) }
      else Some (Node x d (c + 1) l r, False))"

subsection \<open>Removal\<close>

fun balance_removed :: "'a node \<Rightarrow> 'a node option" where
  "balance_removed n =
     do { n \<leftarrow> update_depth n;
          b \<leftarrow> balance n;
          if b > 1 then
            (case n of Node x d c l r \<Rightarrow>
               do { bl \<leftarrow> balance l;
                    l' \<leftarrow> (if bl < 0 then rotate_left l else Some l);
                    rotate_right (Node x d c l' r) }
             | Null \<Rightarrow> None)
          else if b < -1 then
            (case n of Node x d c l r \<Rightarrow>
               do { br \<leftarrow> balance r;
                    r' \<leftarrow> (if br > 0 then rotate_right r else Some r);
                    rotate_left (Node x d c l r') }
             | Null \<Rightarrow> None)
          else Some n }"

text \<open>
  \<^verbatim>\<open>Node::remove\<close>. With two children the least node of the right branch is taken out of that branch
  and put in the place of the removed one: it keeps its value and its reference counter.
\<close>

fun node_remove :: "'a::linorder \<Rightarrow> bool \<Rightarrow> 'a node \<Rightarrow> ('a node \<times> bool) option" where
  "node_remove v rf Null = Some (Null, False)"
| "node_remove v rf (Node x d c l r) =
     (if v < x then
        do { (l', ret) \<leftarrow> node_remove v rf l;
             n \<leftarrow> balance_removed (Node x d c l' r);
             Some (n, ret) }
      else if v > x then
        do { (r', ret) \<leftarrow> node_remove v rf r;
             n \<leftarrow> balance_removed (Node x d c l r');
             Some (n, ret) }
      else if rf \<and> c > 1 then Some (Node x d (c - 1) l r, False)
      else if l = Null \<or> r = Null then
        (let tmp = (if l \<noteq> Null then l else r)
         in if tmp = Null then Some (Null, True)
            else do { n \<leftarrow> balance_removed tmp; Some (n, True) })
      else
        (case min_node r of
           Some (Node m md mc ml mr) \<Rightarrow>
             do { (r', _) \<leftarrow> node_remove m False r;
                  n \<leftarrow> balance_removed (Node m md mc l r');
                  Some (n, True) }
         | _ \<Rightarrow> None))"

subsection \<open>The class AVL\<close>

record 'a avl =
  data :: "'a node"
  nodes :: u32
  unique_nodes :: u32

definition avl_empty :: "'a avl" where
  "avl_empty = \<lparr>data = Null, nodes = 0, unique_nodes = 0\<rparr>"

definition avl_single :: "'a \<Rightarrow> 'a avl" where
  "avl_single v = \<lparr>data = new_node v, nodes = 1, unique_nodes = 1\<rparr>"

text \<open>The loop of \<^verbatim>\<open>find\<close>; it is entered with a pointer that is not empty.\<close>

fun find_loop :: "'a::linorder \<Rightarrow> 'a node \<Rightarrow> u32" where
  "find_loop v Null = 0"
| "find_loop v (Node x d c l r) =
     (if v < x then (if l = Null then 0 else find_loop v l)
      else if x < v then (if r = Null then 0 else find_loop v r)
      else c)"

definition avl_find :: "'a::linorder avl \<Rightarrow> 'a \<Rightarrow> u32" where
  "avl_find t v = (if data t = Null then 0 else find_loop v (data t))"

definition avl_insert :: "'a::linorder avl \<Rightarrow> 'a \<Rightarrow> 'a avl option" where
  "avl_insert t v =
     (let t = t\<lparr>nodes := nodes t + 1\<rparr>
      in if data t = Null
         then Some (t\<lparr>data := new_node v, unique_nodes := unique_nodes t + 1\<rparr>)
         else do { (n, added) \<leftarrow> node_insert v (data t);
                   Some (t\<lparr>data := n,
                           unique_nodes := (if added then unique_nodes t + 1 else unique_nodes t)\<rparr>) })"

definition avl_remove :: "'a::linorder avl \<Rightarrow> 'a \<Rightarrow> 'a avl option" where
  "avl_remove t v =
     (let t = t\<lparr>nodes := nodes t - (if avl_find t v \<noteq> 0 then 1 else 0)\<rparr>
      in do { (n, gone) \<leftarrow> node_remove v True (data t);
              Some (t\<lparr>data := n,
                      unique_nodes := (if gone then unique_nodes t - 1 else unique_nodes t)\<rparr>) })"

definition avl_drop :: "'a::linorder avl \<Rightarrow> 'a \<Rightarrow> 'a avl option" where
  "avl_drop t v =
     (let t = t\<lparr>nodes := nodes t - avl_find t v\<rparr>
      in do { (n, gone) \<leftarrow> node_remove v False (data t);
              Some (t\<lparr>data := n,
                      unique_nodes := (if gone then unique_nodes t - 1 else unique_nodes t)\<rparr>) })"

definition avl_clear :: "'a avl \<Rightarrow> 'a avl" where
  "avl_clear t = t\<lparr>data := Null\<rparr>"

definition avl_depth :: "'a avl \<Rightarrow> nat" where
  "avl_depth t = (if data t \<noteq> Null then depth_of (data t) else 0)"


subsection \<open>Breadth-first traversal\<close>

text \<open>
  \<^verbatim>\<open>traverse\<close> keeps a queue of nodes. The inner loop visits the \<^verbatim>\<open>s = q.size()\<close> nodes of one level:
  it calls the callback on the front, pushes the children, pops the front, and ends early when the
  callback answers true. The queue only ever holds pointers that are not empty, so the first and
  the second equation for a positive count are not reached.
\<close>

fun children :: "'a node \<Rightarrow> 'a node list" where
  "children Null = []"
| "children (Node v d c l r) = (if l \<noteq> Null then [l] else []) @ (if r \<noteq> Null then [r] else [])"

type_synonym ('a, 's) traverse_cb = "'a \<Rightarrow> nat \<Rightarrow> u32 \<Rightarrow> 's \<Rightarrow> bool \<times> 's"

fun visit_level :: "('a, 's) traverse_cb \<Rightarrow> nat \<Rightarrow> nat \<Rightarrow> 'a node list \<Rightarrow> 's \<Rightarrow>
    bool \<times> 'a node list \<times> 's" where
  "visit_level cb d 0 q s = (False, q, s)"
| "visit_level cb d (Suc i) [] s = (True, [], s)"
| "visit_level cb d (Suc i) (Null # q) s = (True, q, s)"
| "visit_level cb d (Suc i) (Node v dn c l r # q) s =
     (case cb v d c s of (stop, s') \<Rightarrow>
        let q' = q @ children (Node v dn c l r)
        in if stop then (True, q', s') else visit_level cb d i q' s')"

fun node_count :: "'a node \<Rightarrow> nat" where
  "node_count Null = 0"
| "node_count (Node v d c l r) = node_count l + node_count r + 1"

lemma node_count_children:
  "sum_list (map node_count (children (Node v d c l r))) + 1 = node_count (Node v d c l r)"
  by simp

lemma visit_level_consumes:
  "visit_level cb d i q s = (False, q', s') \<Longrightarrow>
   sum_list (map node_count q') + i = sum_list (map node_count q)"
proof (induction cb d i q s rule: visit_level.induct)
  case (4 cb d i v dn c l r q s)
  then show ?case
    using node_count_children [of v dn c l r]
    by (auto simp: Let_def split: prod.splits if_splits)
qed auto

function traverse_levels :: "('a, 's) traverse_cb \<Rightarrow> nat \<Rightarrow> 'a node list \<Rightarrow> 's \<Rightarrow> 's" where
  "traverse_levels cb d q s =
     (let n = length q; d = d + 1
      in case visit_level cb d n q s of (stop, q', s') \<Rightarrow>
           if n = 0 \<or> stop then s' else traverse_levels cb d q' s')"
  by pat_completeness auto
termination
  by (relation "measure (\<lambda>(cb, d, q, s). sum_list (map node_count q))")
     (auto dest!: visit_level_consumes [OF sym] simp flip: length_greater_0_conv)

declare traverse_levels.simps [simp del]

text \<open>The callback is a \<^verbatim>\<open>std::function\<close>, which may be empty.\<close>

definition avl_traverse :: "('a, 's) traverse_cb option \<Rightarrow> 'a avl \<Rightarrow> 's \<Rightarrow> 's" where
  "avl_traverse cb t s =
     (case cb of None \<Rightarrow> s
      | Some f \<Rightarrow> if data t = Null then s else traverse_levels f 0 [data t] s)"


subsection \<open>The program\<close>

text \<open>
  \<^verbatim>\<open>main\<close> builds a tree of the values 1 to 19, inserts 1, 2, 12, 12 once more, then removes 2, 7, 8
  and drops 12, and after each of the two stages compares depth, counters and occurrences with the
  expected ones. A stage is the list of its checks in the order of the code.
\<close>

definition avl_inserts :: "int list \<Rightarrow> int avl \<Rightarrow> int avl option" where
  "avl_inserts vs t = fold (\<lambda>v r. do { t \<leftarrow> r; avl_insert t v }) vs (Some t)"

definition avl_main_built :: "int avl option" where
  "avl_main_built =
     do { t \<leftarrow> avl_inserts (map int [1..<20]) avl_empty;
          avl_inserts [1, 2, 12, 12] t }"

definition avl_main_trimmed :: "int avl option" where
  "avl_main_trimmed =
     do { t \<leftarrow> avl_main_built;
          t \<leftarrow> avl_remove t 2;
          t \<leftarrow> avl_remove t 7;
          t \<leftarrow> avl_remove t 8;
          avl_drop t 12 }"

definition avl_main_checks :: "int avl \<Rightarrow> u32 \<Rightarrow> u32 \<Rightarrow> (int \<times> u32) list \<Rightarrow> bool list" where
  "avl_main_checks t n u found =
     [avl_depth t = 5, nodes t = n, unique_nodes t = u] @ map (\<lambda>(v, c). avl_find t v = c) found"

definition avl_main :: "(bool list \<times> bool list \<times> (int \<times> nat \<times> u32) list) option" where
  "avl_main =
     do { t1 \<leftarrow> avl_main_built;
          t2 \<leftarrow> avl_main_trimmed;
          Some (avl_main_checks t1 23 19 [(1, 2), (2, 2), (7, 1), (8, 1), (12, 3), (20, 0), (0, 0)],
                avl_main_checks t2 17 16 [(1, 2), (2, 1), (7, 0), (8, 0), (12, 0), (20, 0), (0, 0)],
                avl_traverse (Some (\<lambda>v d ref out. (False, out @ [(v, d, ref)]))) t2 []) }"

end
