(* ===== verification/Avl_Correct.thy ===== *)
theory Avl_Correct
  imports Avl
begin

section \<open>Correctness of the AVL tree\<close>

text \<open>
  The contents of a tree are the list of its values with their reference counters, in order.
  Insertion and removal are specified on that list; balance and stored depths are an invariant.
\<close>

subsection \<open>Contents and invariant\<close>

fun height :: "'a node \<Rightarrow> nat" where
  "height Null = 0"
| "height (Node v d c l r) = max (height l) (height r) + 1"

fun inorder :: "'a node \<Rightarrow> ('a \<times> u32) list" where
  "inorder Null = []"
| "inorder (Node v d c l r) = inorder l @ (v, c) # inorder r"

fun balanced :: "'a node \<Rightarrow> bool" where
  "balanced Null = True"
| "balanced (Node v d c l r) \<longleftrightarrow>
     height l \<le> height r + 1 \<and> height r \<le> height l + 1 \<and>
     d = max (height l) (height r) + 1 \<and> balanced l \<and> balanced r"

definition ordered :: "('a::linorder \<times> 'b) list \<Rightarrow> bool" where
  "ordered xs \<longleftrightarrow> sorted_wrt (<) (map fst xs)"

lemma ordered_simps [simp]:
  "ordered []"
  "ordered ((a, c) # xs) \<longleftrightarrow> (\<forall>x \<in> set xs. a < fst x) \<and> ordered xs"
  "ordered (xs @ ys) \<longleftrightarrow> ordered xs \<and> ordered ys \<and> (\<forall>x \<in> set xs. \<forall>y \<in> set ys. fst x < fst y)"
  by (auto simp: ordered_def sorted_wrt_append)

lemma child_depth_height [simp]: "balanced n \<Longrightarrow> child_depth n = height n"
  by (cases n) auto

lemma height_0_iff [simp]: "height n = 0 \<longleftrightarrow> n = Null"
  by (cases n) auto

lemma height_pos [simp]: "0 < height n \<longleftrightarrow> n \<noteq> Null"
  by (cases n) auto

lemma update_depth_eq [simp]:
  "balanced l \<Longrightarrow> balanced r \<Longrightarrow>
   update_depth (Node v d c l r) = Some (Node v (max (height l) (height r) + 1) c l r)"
  by (simp add: Let_def max_def)

subsection \<open>The specification on lists\<close>

fun ins_list :: "'a::linorder \<Rightarrow> ('a \<times> u32) list \<Rightarrow> ('a \<times> u32) list" where
  "ins_list v [] = [(v, 1)]"
| "ins_list v ((x, c) # xs) =
     (if v < x then (v, 1) # (x, c) # xs
      else if x < v then (x, c) # ins_list v xs
      else (x, c + 1) # xs)"

fun del_list :: "'a::linorder \<Rightarrow> bool \<Rightarrow> ('a \<times> u32) list \<Rightarrow> ('a \<times> u32) list" where
  "del_list v rf [] = []"
| "del_list v rf ((x, c) # xs) =
     (if x = v then (if rf \<and> c > 1 then (x, c - 1) # xs else xs) else (x, c) # del_list v rf xs)"

lemma set_ins_list: "fst ` set (ins_list v xs) = insert v (fst ` set xs)"
  by (induction v xs rule: ins_list.induct) auto

lemma ins_list_left:
  "ordered (xs @ (a, c) # ys) \<Longrightarrow> v < a \<Longrightarrow> ins_list v (xs @ (a, c) # ys) = ins_list v xs @ (a, c) # ys"
  by (induction v xs rule: ins_list.induct) auto

lemma ins_list_right:
  "ordered (xs @ (a, c) # ys) \<Longrightarrow> a < v \<Longrightarrow> ins_list v (xs @ (a, c) # ys) = xs @ (a, c) # ins_list v ys"
  by (induction v xs rule: ins_list.induct) auto

lemma ins_list_here:
  "ordered (xs @ (a, c) # ys) \<Longrightarrow> ins_list a (xs @ (a, c) # ys) = xs @ (a, c + 1) # ys"
  by (induction a xs rule: ins_list.induct) auto

lemma ordered_ins_list: "ordered xs \<Longrightarrow> ordered (ins_list v xs)"
proof (induction v xs rule: ins_list.induct)
  case (2 v x c xs)
  have "\<forall>y \<in> set (ins_list v xs). x < fst y" if "x < v"
  proof
    fix y assume "y \<in> set (ins_list v xs)"
    then have "fst y \<in> insert v (fst ` set xs)" using set_ins_list [of v xs] by blast
    with that 2 show "x < fst y" by auto
  qed
  with 2 show ?case by auto
qed simp

lemma del_list_idem: "v \<notin> fst ` set xs \<Longrightarrow> del_list v rf xs = xs"
  by (induction v rf xs rule: del_list.induct) auto

lemma del_list_left:
  "ordered (xs @ (a, c) # ys) \<Longrightarrow> v < a \<Longrightarrow> del_list v rf (xs @ (a, c) # ys) = del_list v rf xs @ (a, c) # ys"
proof (induction v rf xs rule: del_list.induct)
  case (1 v rf)
  then have "v \<notin> fst ` set ys" by force
  with 1 show ?case by (auto simp: del_list_idem)
qed auto

lemma del_list_right:
  "ordered (xs @ (a, c) # ys) \<Longrightarrow> a < v \<Longrightarrow> del_list v rf (xs @ (a, c) # ys) = xs @ (a, c) # del_list v rf ys"
  by (induction v rf xs rule: del_list.induct) auto

lemma del_list_here:
  "ordered (xs @ (a, c) # ys) \<Longrightarrow>
   del_list a rf (xs @ (a, c) # ys) = (if rf \<and> c > 1 then xs @ (a, c - 1) # ys else xs @ ys)"
  by (induction a rf xs rule: del_list.induct) auto

lemma set_del_list: "fst ` set (del_list v rf xs) \<subseteq> fst ` set xs"
  by (induction v rf xs rule: del_list.induct) (auto simp: image_subset_iff)

lemma ordered_del_list: "ordered xs \<Longrightarrow> ordered (del_list v rf xs)"
proof (induction v rf xs rule: del_list.induct)
  case (2 v rf x c xs)
  have "\<forall>y \<in> set (del_list v rf xs). x < fst y"
  proof
    fix y assume "y \<in> set (del_list v rf xs)"
    then have "fst y \<in> fst ` set xs" using set_del_list [of v rf xs] by blast
    with 2 show "x < fst y" by auto
  qed
  with 2 show ?case by auto
qed simp

subsection \<open>Rotations and the balance steps\<close>

text \<open>The root of a tree that has grown by an insertion leans to the side of the inserted value.\<close>

fun leans :: "'a::linorder \<Rightarrow> 'a node \<Rightarrow> bool" where
  "leans v Null = False"
| "leans v (Node x d c l r) \<longleftrightarrow>
     (v < x \<and> height l = height r + 1) \<or> (x < v \<and> height r = height l + 1) \<or>
     (l = Null \<and> r = Null)"

lemma balance_inserted_mild:
  assumes "balanced l" "balanced r" "height l \<le> height r + 1" "height r \<le> height l + 1"
  shows "balance_inserted v (Node x d c l r) =
           Some (Node x (max (height l) (height r) + 1) c l r)"
  using assms by (simp add: Let_def)

lemma balance_inserted_left:
  assumes "balanced l" "balanced r" "height l = height r + 2" "leans v l"
  shows "\<exists>n. balance_inserted v (Node x d c l r) = Some n \<and>
           balanced n \<and> inorder n = inorder l @ (x, c) # inorder r \<and> height n = height r + 2"
proof -
  obtain lx ld lc ll lr where l: "l = Node lx ld lc ll lr"
    using assms(3) by (cases l) auto
  show ?thesis
  proof (cases "v > lx")
    case True
    with assms l obtain y yd yc yl yr where "lr = Node y yd yc yl yr"
      by (cases lr) auto
    with True assms l show ?thesis by (auto simp: Let_def max_def split: if_splits)
  next
    case False
    with assms l show ?thesis by (auto simp: Let_def max_def)
  qed
qed

lemma balance_inserted_right:
  assumes "balanced l" "balanced r" "height r = height l + 2" "leans v r"
  shows "\<exists>n. balance_inserted v (Node x d c l r) = Some n \<and>
           balanced n \<and> inorder n = inorder l @ (x, c) # inorder r \<and> height n = height l + 2"
proof -
  obtain rx rd rc rl rr where r: "r = Node rx rd rc rl rr"
    using assms(3) by (cases r) auto
  show ?thesis
  proof (cases "v < rx")
    case True
    with assms r obtain y yd yc yl yr where "rl = Node y yd yc yl yr"
      by (cases rl) auto
    with True assms r show ?thesis by (auto simp: Let_def max_def split: if_splits)
  next
    case False
    with assms r show ?thesis by (auto simp: Let_def max_def)
  qed
qed


subsection \<open>Insertion into a node\<close>

definition inserted :: "'a::linorder \<Rightarrow> 'a node \<Rightarrow> 'a node \<Rightarrow> bool" where
  "inserted v n n' \<longleftrightarrow>
     balanced n' \<and> inorder n' = ins_list v (inorder n) \<and>
     (height n' = height n \<or> height n' = height n + 1 \<and> leans v n')"

lemma inserted_new_node: "inserted v Null (new_node v)"
  by (simp add: inserted_def new_node_def)

lemma insert_step_left:
  assumes "balanced (Node x d c l r)" "ordered (inorder (Node x d c l r))" "v < x" "inserted v l l'"
  shows "\<exists>n. balance_inserted v (Node x d c l' r) = Some n \<and> inserted v (Node x d c l r) n"
proof (cases "height l' = height r + 2")
  case True
  with assms have "leans v l'" by (auto simp: inserted_def)
  with True assms balance_inserted_left [of l' r v x d c] show ?thesis
    by (auto simp: inserted_def ins_list_left simp del: balance_inserted.simps)
next
  case False
  with assms balance_inserted_mild [of l' r v x d c] show ?thesis
    by (auto simp: inserted_def ins_list_left simp del: balance_inserted.simps)
qed

lemma insert_step_right:
  assumes "balanced (Node x d c l r)" "ordered (inorder (Node x d c l r))" "x < v" "inserted v r r'"
  shows "\<exists>n. balance_inserted v (Node x d c l r') = Some n \<and> inserted v (Node x d c l r) n"
proof (cases "height r' = height l + 2")
  case True
  with assms have "leans v r'" by (auto simp: inserted_def)
  with True assms balance_inserted_right [of l r' v x d c] show ?thesis
    by (auto simp: inserted_def ins_list_right simp del: balance_inserted.simps)
next
  case False
  with assms balance_inserted_mild [of l r' v x d c] show ?thesis
    by (auto simp: inserted_def ins_list_right simp del: balance_inserted.simps)
qed

lemma node_insert_correct:
  "balanced n \<Longrightarrow> ordered (inorder n) \<Longrightarrow> n \<noteq> Null \<Longrightarrow>
   \<exists>n'. node_insert v n = Some (n', v \<notin> fst ` set (inorder n)) \<and> inserted v n n'"
proof (induction v n rule: node_insert.induct)
  case (1 v)
  then show ?case by simp
next
  case (2 v x d c l r)
  consider (less) "v < x" | (greater) "x < v" | (equal) "v = x" by fastforce
  then show ?case
  proof cases
    case less
    then have notin: "v \<notin> fst ` set (inorder r)" using 2(4) by force
    have "\<exists>l'. (if l = Null then Some (new_node v, True) else node_insert v l) =
              Some (l', v \<notin> fst ` set (inorder l)) \<and> inserted v l l'"
      using 2 less inserted_new_node by (cases "l = Null") auto
    then obtain l' where "(if l = Null then Some (new_node v, True) else node_insert v l) =
              Some (l', v \<notin> fst ` set (inorder l))" and "inserted v l l'" by blast
    with insert_step_left [OF 2(3,4) less, of l'] less notin show ?thesis
      by (auto simp del: balance_inserted.simps)
  next
    case greater
    then have notin: "v \<notin> fst ` set (inorder l)" using 2(4) by force
    have "\<exists>r'. (if r = Null then Some (new_node v, True) else node_insert v r) =
              Some (r', v \<notin> fst ` set (inorder r)) \<and> inserted v r r'"
      using 2 greater inserted_new_node by (cases "r = Null") auto
    then obtain r' where "(if r = Null then Some (new_node v, True) else node_insert v r) =
              Some (r', v \<notin> fst ` set (inorder r))" and "inserted v r r'" by blast
    with insert_step_right [OF 2(3,4) greater, of r'] greater notin show ?thesis
      by (auto simp del: balance_inserted.simps)
  next
    case equal
    with 2 show ?thesis by (auto simp: inserted_def ins_list_here)
  qed
qed

subsection \<open>Removal from a node\<close>

definition removed :: "nat \<Rightarrow> ('a \<times> u32) list \<Rightarrow> 'a node \<Rightarrow> bool" where
  "removed h xs n' \<longleftrightarrow>
     balanced n' \<and> inorder n' = xs \<and> (height n' = h \<or> height n' + 1 = h)"

lemma balance_removed_mild:
  assumes "balanced l" "balanced r" "height l \<le> height r + 1" "height r \<le> height l + 1"
  shows "balance_removed (Node x d c l r) = Some (Node x (max (height l) (height r) + 1) c l r)"
  using assms by (simp add: Let_def)

lemma balance_removed_left:
  assumes "balanced l" "balanced r" "height l = height r + 2"
  shows "\<exists>n. balance_removed (Node x d c l r) = Some n \<and>
           removed (height r + 3) (inorder l @ (x, c) # inorder r) n"
proof -
  obtain lx ld lc ll lr where l: "l = Node lx ld lc ll lr"
    using assms(3) by (cases l) auto
  show ?thesis
  proof (cases "height lr = height ll + 1")
    case True
    with assms l obtain y yd yc yl yr where "lr = Node y yd yc yl yr"
      by (cases lr) auto
    with True assms l show ?thesis by (auto simp: Let_def max_def removed_def split: if_splits)
  next
    case False
    with assms l show ?thesis by (auto simp: Let_def max_def removed_def split: if_splits)
  qed
qed

lemma balance_removed_right:
  assumes "balanced l" "balanced r" "height r = height l + 2"
  shows "\<exists>n. balance_removed (Node x d c l r) = Some n \<and>
           removed (height l + 3) (inorder l @ (x, c) # inorder r) n"
proof -
  obtain rx rd rc rl rr where r: "r = Node rx rd rc rl rr"
    using assms(3) by (cases r) auto
  show ?thesis
  proof (cases "height rl = height rr + 1")
    case True
    with assms r obtain y yd yc yl yr where "rl = Node y yd yc yl yr"
      by (cases rl) auto
    with True assms r show ?thesis by (auto simp: Let_def max_def removed_def split: if_splits)
  next
    case False
    with assms r show ?thesis by (auto simp: Let_def max_def removed_def split: if_splits)
  qed
qed

lemma remove_step_left:
  assumes "balanced (Node x d c l r)" "removed (height l) xs l'"
  shows "\<exists>n. balance_removed (Node y e k l' r) = Some n \<and>
           removed (height (Node x d c l r)) (xs @ (y, k) # inorder r) n"
proof (cases "height r = height l' + 2")
  case True
  with assms balance_removed_right [of l' r y e k] show ?thesis
    by (auto simp: removed_def simp del: balance_removed.simps)
next
  case False
  with assms balance_removed_mild [of l' r y e k] show ?thesis
    by (auto simp: removed_def simp del: balance_removed.simps)
qed

lemma remove_step_right:
  assumes "balanced (Node x d c l r)" "removed (height r) xs r'"
  shows "\<exists>n. balance_removed (Node y e k l r') = Some n \<and>
           removed (height (Node x d c l r)) (inorder l @ (y, k) # xs) n"
proof (cases "height l = height r' + 2")
  case True
  with assms balance_removed_left [of l r' y e k] show ?thesis
    by (auto simp: removed_def simp del: balance_removed.simps)
next
  case False
  with assms balance_removed_mild [of l r' y e k] show ?thesis
    by (auto simp: removed_def simp del: balance_removed.simps)
qed

lemma min_node_first:
  "n \<noteq> Null \<Longrightarrow> \<exists>m md mc ml mr rest. min_node n = Some (Node m md mc ml mr) \<and> inorder n = (m, mc) # rest"
  by (induction n rule: min_node.induct) fastforce+

definition vanishes :: "'a::linorder \<Rightarrow> bool \<Rightarrow> 'a node \<Rightarrow> bool" where
  "vanishes v rf n \<longleftrightarrow> (\<exists>c. (v, c) \<in> set (inorder n) \<and> \<not> (rf \<and> c > 1))"

lemma balance_removed_balanced:
  "balanced n \<Longrightarrow> n \<noteq> Null \<Longrightarrow> balance_removed n = Some n"
  by (cases n) (auto simp: balance_removed_mild simp del: balance_removed.simps)

lemma node_remove_correct:
  "balanced n \<Longrightarrow> ordered (inorder n) \<Longrightarrow>
   \<exists>n'. node_remove v rf n = Some (n', vanishes v rf n) \<and>
        removed (height n) (del_list v rf (inorder n)) n'"
proof (induction v rf n rule: node_remove.induct)
  case (1 v rf)
  then show ?case by (simp add: vanishes_def removed_def)
next
  case (2 v rf x d c l r)
  note bal = "2.prems"(1) and ord = "2.prems"(2)
  consider (less) "v < x" | (greater) "x < v" | (keep) "v = x" "rf \<and> c > 1"
    | (single) "v = x" "\<not> (rf \<and> c > 1)" "l = Null \<or> r = Null"
    | (both) "v = x" "\<not> (rf \<and> c > 1)" "l \<noteq> Null" "r \<noteq> Null" by fastforce
  then show ?case
  proof cases
    case less
    with "2.IH"(1) bal ord obtain l' where l': "node_remove v rf l = Some (l', vanishes v rf l)"
      "removed (height l) (del_list v rf (inorder l)) l'" by auto
    have "vanishes v rf (Node x d c l r) = vanishes v rf l"
      using less ord by (force simp: vanishes_def)
    with l' less ord remove_step_left [OF bal l'(2), of x d c] show ?thesis
      by (auto simp: del_list_left simp del: balance_removed.simps)
  next
    case greater
    then have "\<not> v < x" by simp
    with greater "2.IH"(2) bal ord obtain r' where r': "node_remove v rf r = Some (r', vanishes v rf r)"
      "removed (height r) (del_list v rf (inorder r)) r'" by auto
    have "vanishes v rf (Node x d c l r) = vanishes v rf r"
      using greater ord by (force simp: vanishes_def)
    with r' greater ord remove_step_right [OF bal r'(2), of x d c] show ?thesis
      by (auto simp: del_list_right simp del: balance_removed.simps)
  next
    case keep
    then have "\<not> vanishes v rf (Node x d c l r)"
      using ord by (force simp: vanishes_def)
    with keep bal ord show ?thesis by (auto simp: del_list_here removed_def)
  next
    case single
    then have "vanishes v rf (Node x d c l r)" by (auto simp: vanishes_def)
    with single bal ord show ?thesis
      by (auto simp: del_list_here removed_def balance_removed_balanced simp del: balance_removed.simps)
  next
    case both
    then obtain m md mc ml mr rest where m: "min_node r = Some (Node m md mc ml mr)"
      and r: "inorder r = (m, mc) # rest" using min_node_first by blast
    with both bal ord "2.IH"(3) [OF _ _ _ _ m refl] obtain r' b where
      r': "node_remove m False r = Some (r', b)"
      "removed (height r) (del_list m False (inorder r)) r'" by auto
    have v: "vanishes v rf (Node x d c l r)" using both by (auto simp: vanishes_def)
    have "del_list v rf (inorder (Node x d c l r)) = inorder l @ (m, mc) # rest"
      using both ord r by (auto simp: del_list_here)
    with v both m r r'(1) remove_step_right [OF bal r'(2), of m md mc] show ?thesis
      by (auto simp del: balance_removed.simps)
  qed
qed

end
