(* ===== verification/Avl_Bag.thy ===== *)
theory Avl_Bag
  imports Avl_Correct
begin

section \<open>The AVL tree as a bag\<close>

text \<open>
  The promise of the class: it is a multiset of values. The interface is a locale; its laws are
  discharged for the code's model, and what a client sees after any sequence of operations is proved
  once inside the locale.
\<close>

subsection \<open>The interface\<close>

datatype 'a bag_op = Ins 'a | Rem 'a | Drop 'a

fun bag_step :: "'a bag_op \<Rightarrow> 'a multiset \<Rightarrow> 'a multiset" where
  "bag_step (Ins v) b = add_mset v b"
| "bag_step (Rem v) b = b - {#v#}"
| "bag_step (Drop v) b = {# x \<in># b. x \<noteq> v #}"

fun run_bag :: "('a \<Rightarrow> 't \<Rightarrow> 't option) \<Rightarrow> ('a \<Rightarrow> 't \<Rightarrow> 't option) \<Rightarrow> ('a \<Rightarrow> 't \<Rightarrow> 't option) \<Rightarrow>
    'a bag_op list \<Rightarrow> 't \<Rightarrow> 't option" where
  "run_bag ins rem drp [] t = Some t"
| "run_bag ins rem drp (Ins v # ops) t = do { t \<leftarrow> ins v t; run_bag ins rem drp ops t }"
| "run_bag ins rem drp (Rem v # ops) t = do { t \<leftarrow> rem v t; run_bag ins rem drp ops t }"
| "run_bag ins rem drp (Drop v # ops) t = do { t \<leftarrow> drp v t; run_bag ins rem drp ops t }"

locale counted_bag =
  fixes ins rem drp :: "'a \<Rightarrow> 't \<Rightarrow> 't option"
    and find :: "'t \<Rightarrow> 'a \<Rightarrow> u32"
    and bag :: "'t \<Rightarrow> 'a multiset"
    and inv :: "'t \<Rightarrow> bool"
  assumes ins_law: "inv t \<Longrightarrow> \<exists>t'. ins v t = Some t' \<and> inv t' \<and>
                      (count (bag t) v < 2 ^ 32 - 1 \<longrightarrow> bag t' = add_mset v (bag t))"
    and rem_law: "inv t \<Longrightarrow> \<exists>t'. rem v t = Some t' \<and> inv t' \<and> bag t' = bag t - {#v#}"
    and drop_law: "inv t \<Longrightarrow> \<exists>t'. drp v t = Some t' \<and> inv t' \<and> bag t' = {# x \<in># bag t. x \<noteq> v #}"
    and find_law: "inv t \<Longrightarrow> unat (find t v) = count (bag t) v"
begin

lemma run_total: "inv t \<Longrightarrow> \<exists>t'. run_bag ins rem drp ops t = Some t' \<and> inv t'"
proof (induction ops arbitrary: t)
  case (Cons p ops)
  then show ?case
    using ins_law [OF Cons.prems] rem_law [OF Cons.prems] drop_law [OF Cons.prems]
    by (cases p) fastforce+
qed simp

lemma size_bag_step: "size (bag_step p b) \<le> size b + 1"
proof (cases p)
  case (Rem v)
  then show ?thesis using diff_size_le_size_Diff by (simp add: size_Diff_submset le_SucI size_mset_mono)
next
  case (Drop v)
  then show ?thesis by (simp add: le_SucI size_filter_mset_lesseq)
qed simp

lemma run_refines:
  "inv t \<Longrightarrow> size (bag t) + length ops < 2 ^ 32 \<Longrightarrow>
   \<exists>t'. run_bag ins rem drp ops t = Some t' \<and> inv t' \<and> bag t' = fold bag_step ops (bag t)"
proof (induction ops arbitrary: t)
  case Nil
  then show ?case by simp
next
  case (Cons p ops)
  have le: "count (bag t) v \<le> size (bag t)" for v
    by (metis count_le_replicate_mset_subset_eq order_refl size_mset_mono size_replicate_mset)
  have "\<exists>t1. run_bag ins rem drp (p # ops) t = run_bag ins rem drp ops t1 \<and> inv t1 \<and>
          bag t1 = bag_step p (bag t)"
  proof (cases p)
    case (Ins v)
    with Cons.prems le [of v] have "count (bag t) v < 2 ^ 32 - 1" by simp
    with Ins ins_law [OF Cons.prems(1), of v] show ?thesis by auto
  next
    case (Rem v)
    with rem_law [OF Cons.prems(1), of v] show ?thesis by auto
  next
    case (Drop v)
    with drop_law [OF Cons.prems(1), of v] show ?thesis by auto
  qed
  then obtain t1 where t1: "run_bag ins rem drp (p # ops) t = run_bag ins rem drp ops t1"
    "inv t1" "bag t1 = bag_step p (bag t)" by blast
  with size_bag_step [of p "bag t"] Cons.prems have "size (bag t1) + length ops < 2 ^ 32" by simp
  with Cons.IH [OF t1(2)] t1 show ?case by auto
qed

lemma find_after_run:
  assumes "inv t" "size (bag t) + length ops < 2 ^ 32" "run_bag ins rem drp ops t = Some t'"
  shows "unat (find t' v) = count (fold bag_step ops (bag t)) v"
  using run_refines [OF assms(1,2)] assms(3) find_law by auto

end

subsection \<open>The contents of a tree as a bag\<close>

fun bag_of :: "('a \<times> u32) list \<Rightarrow> 'a multiset" where
  "bag_of [] = {#}"
| "bag_of ((x, c) # xs) = replicate_mset (unat c) x + bag_of xs"

definition avl_bag :: "'a avl \<Rightarrow> 'a multiset" where
  "avl_bag t = bag_of (inorder (data t))"

definition total_refs :: "('a \<times> u32) list \<Rightarrow> u32" where
  "total_refs xs = sum_list (map snd xs)"

definition avl_ok :: "'a::linorder avl \<Rightarrow> bool" where
  "avl_ok t \<longleftrightarrow> balanced (data t) \<and> ordered (inorder (data t)) \<and>
     nodes t = total_refs (inorder (data t)) \<and>
     unique_nodes t = of_nat (length (inorder (data t)))"

definition refs_at :: "('a \<times> u32) list \<Rightarrow> 'a \<Rightarrow> u32" where
  "refs_at xs v = (case map_of xs v of None \<Rightarrow> 0 | Some c \<Rightarrow> c)"

lemma count_bag_of_absent: "v \<notin> fst ` set xs \<Longrightarrow> count (bag_of xs) v = 0"
  by (induction xs rule: bag_of.induct) auto

lemma count_bag_of: "ordered xs \<Longrightarrow> count (bag_of xs) v = unat (refs_at xs v)"
proof (induction xs rule: bag_of.induct)
  case (2 x c xs)
  then have "x \<notin> fst ` set xs" by force
  with 2 show ?case by (auto simp: refs_at_def count_bag_of_absent)
qed (simp add: refs_at_def)

lemma map_of_append_right:
  "ordered (xs @ ys) \<Longrightarrow> v \<notin> fst ` set xs \<Longrightarrow> map_of (xs @ ys) v = map_of ys v"
  by (induction xs) auto

lemma find_loop_refs:
  "ordered (inorder n) \<Longrightarrow> find_loop v n = refs_at (inorder n) v"
proof (induction v n rule: find_loop.induct)
  case (2 v x d c l r)
  consider (less) "v < x" | (greater) "x < v" | (equal) "v = x" by fastforce
  then show ?case
  proof cases
    case less
    with 2(3) have "v \<notin> fst ` set ((x, c) # inorder r)" by force
    then have "map_of ((x, c) # inorder r) v = None" by (simp only: map_of_eq_None_iff not_False_eq_True)
    with less 2 show ?thesis by (auto simp: refs_at_def map_add_def split: option.splits)
  next
    case greater
    with 2(3) have "v \<notin> fst ` set (inorder l)" by force
    then have "map_of (inorder l) v = None" by (simp only: map_of_eq_None_iff not_False_eq_True)
    with greater 2 show ?thesis by (auto simp: refs_at_def map_add_def split: option.splits)
  next
    case equal
    with 2(3) have "v \<notin> fst ` set (inorder l)" "v \<notin> fst ` set (inorder r)" by force+
    then have "map_of (inorder l) v = None" "map_of (inorder r) v = None"
      by (simp_all only: map_of_eq_None_iff not_False_eq_True)
    with equal show ?thesis by (simp add: refs_at_def map_add_def)
  qed
qed (simp add: refs_at_def)

lemma avl_find_refs: "ordered (inorder (data t)) \<Longrightarrow> avl_find t v = refs_at (inorder (data t)) v"
  by (auto simp: avl_find_def find_loop_refs refs_at_def)


subsection \<open>The list operations on the bag and on the counters\<close>

lemma length_ins_list:
  "ordered xs \<Longrightarrow> length (ins_list v xs) = (if v \<in> fst ` set xs then length xs else length xs + 1)"
  by (induction v xs rule: ins_list.induct) force+

lemma total_refs_ins_list: "total_refs (ins_list v xs) = total_refs xs + 1"
  by (induction v xs rule: ins_list.induct) (auto simp: total_refs_def)

lemma bag_of_ins_list:
  "ordered xs \<Longrightarrow> unat (refs_at xs v) < 2 ^ 32 - 1 \<Longrightarrow> bag_of (ins_list v xs) = add_mset v (bag_of xs)"
proof (induction v xs rule: ins_list.induct)
  case (2 v x c xs)
  show ?case
  proof (cases "v = x")
    case True
    with 2(3) have "unat (c + 1) = unat c + 1"
      by (simp add: refs_at_def unat_word_ariths)
    with True show ?thesis by simp
  next
    case False
    with 2 have "\<not> v < x \<Longrightarrow> bag_of (ins_list v xs) = add_mset v (bag_of xs)"
      by (auto simp: refs_at_def)
    with False show ?thesis by auto
  qed
qed simp

lemma ordered_head: "ordered ((x, c) # xs) \<Longrightarrow> x \<notin> fst ` set xs"
  by force

lemma ordered_tail: "ordered ((x, c) # xs) \<Longrightarrow> ordered xs"
  by simp

lemma head_not_in_bag: "ordered ((x, c) # xs) \<Longrightarrow> x \<notin># bag_of xs"
  using count_bag_of_absent [OF ordered_head] by (simp add: not_in_iff)

lemma refs_at_Cons: "refs_at ((x, c) # xs) v = (if v = x then c else refs_at xs v)"
  by (simp add: refs_at_def)

lemma not_gt_1_word: "\<not> 1 < (c :: u32) \<longleftrightarrow> c = 0 \<or> c = 1"
proof -
  have "c = 0 \<or> c = 1 \<longleftrightarrow> unat c = 0 \<or> unat c = 1"
    by (metis unat_0 unat_1 word_unat_eq_iff)
  then show ?thesis by (simp add: word_less_nat_alt) arith
qed

lemma length_del_list:
  "ordered xs \<Longrightarrow> length (del_list v rf xs) =
     (if v \<in> fst ` set xs \<and> \<not> (rf \<and> refs_at xs v > 1) then length xs - 1 else length xs)"
proof (induction v rf xs rule: del_list.induct)
  case (2 v rf x c xs)
  show ?case
  proof (cases "x = v")
    case False
    with 2 show ?thesis by (cases xs) (auto simp: refs_at_Cons)
  qed (simp add: refs_at_Cons)
qed simp

lemma total_refs_del_list:
  "ordered xs \<Longrightarrow> total_refs (del_list v rf xs) =
     total_refs xs - (if rf then (if refs_at xs v \<noteq> 0 then 1 else 0) else refs_at xs v)"
proof (induction v rf xs rule: del_list.induct)
  case (2 v rf x c xs)
  show ?case
  proof (cases "x = v")
    case True
    then show ?thesis using not_gt_1_word [of c] by (auto simp: total_refs_def refs_at_Cons)
  next
    case False
    with 2 show ?thesis by (simp add: total_refs_def refs_at_Cons)
  qed
qed (simp add: total_refs_def refs_at_def)

lemma bag_of_remove: "ordered xs \<Longrightarrow> bag_of (del_list v True xs) = bag_of xs - {#v#}"
proof (induction xs)
  case (Cons p xs)
  obtain x c where p: "p = (x, c)" by force
  show ?case
  proof (cases "x = v")
    case True
    consider "1 < c" | "c = 0" | "c = 1" using not_gt_1_word by blast
    then show ?thesis
    proof cases
      case 1
      then have "c \<noteq> 0" using not_gt_1_word by blast
      with 1 have "unat c = Suc (unat (c - 1))"
        by (simp add: unat_minus_one) (simp add: word_less_nat_alt)
      with 1 True p show ?thesis by simp
    next
      case 2
      with True p head_not_in_bag [of x c xs] Cons.prems show ?thesis
        by (simp add: diff_single_trivial)
    qed (use True p in simp)
  next
    case False
    with Cons p have "bag_of (del_list v True xs) = bag_of xs - {#v#}" by simp
    with False p show ?thesis by (intro multiset_eqI) auto
  qed
qed simp

lemma bag_of_drop: "ordered xs \<Longrightarrow> bag_of (del_list v False xs) = {# x \<in># bag_of xs. x \<noteq> v #}"
proof (induction xs)
  case (Cons p xs)
  obtain x c where p: "p = (x, c)" by force
  then have out: "count (bag_of xs) x = 0"
    using head_not_in_bag [of x c xs] Cons.prems by (simp add: not_in_iff)
  have "bag_of (del_list v False xs) = {# x \<in># bag_of xs. x \<noteq> v #}"
    using Cons.IH Cons.prems by (cases p) (simp add: ordered_tail)
  with p out show ?case by (intro multiset_eqI) auto
qed simp

subsection \<open>The laws of the interface hold for the code\<close>

lemma length_ordered_nonempty: "v \<in> fst ` set xs \<Longrightarrow> 0 < length xs"
  by auto

lemma avl_insert_law:
  assumes "avl_ok t"
  shows "\<exists>t'. avl_insert t v = Some t' \<and> avl_ok t' \<and>
           inorder (data t') = ins_list v (inorder (data t))"
proof (cases "data t = Null")
  case True
  with assms show ?thesis
    by (simp add: avl_insert_def avl_ok_def new_node_def total_refs_def)
next
  case False
  with assms obtain n where "node_insert v (data t) = Some (n, v \<notin> fst ` set (inorder (data t)))"
    "inserted v (data t) n"
    using node_insert_correct [of "data t" v] by (auto simp: avl_ok_def)
  with False assms show ?thesis
    by (auto simp: avl_insert_def avl_ok_def inserted_def Let_def ordered_ins_list
        length_ins_list total_refs_ins_list)
qed

lemma node_remove_list:
  assumes "avl_ok t"
  obtains n where
    "node_remove v rf (data t) =
       Some (n, v \<in> fst ` set (inorder (data t)) \<and> \<not> (rf \<and> refs_at (inorder (data t)) v > 1))"
    "balanced n" "inorder n = del_list v rf (inorder (data t))"
proof -
  let ?xs = "inorder (data t)"
  have ord: "ordered ?xs" and bal: "balanced (data t)" using assms by (auto simp: avl_ok_def)
  have dist: "distinct (map fst ?xs)" using ord
    by (simp add: ordered_def strict_sorted_iff)
  have "vanishes v rf (data t) \<longleftrightarrow> v \<in> fst ` set ?xs \<and> \<not> (rf \<and> refs_at ?xs v > 1)"
  proof -
    have "(v, c) \<in> set ?xs \<longleftrightarrow> map_of ?xs v = Some c" for c
      using map_of_eq_Some_iff [OF dist] by simp
    moreover have "v \<in> fst ` set ?xs \<longleftrightarrow> map_of ?xs v \<noteq> None"
      by (simp only: map_of_eq_None_iff not_not simp_thms)
    ultimately show ?thesis by (auto simp: vanishes_def refs_at_def)
  qed
  with node_remove_correct [OF bal ord, of v rf] that show thesis
    by (auto simp: removed_def)
qed

lemma minus_one_count:
  "(v, c) \<in> set xs \<Longrightarrow> of_nat (length xs) - (1 :: u32) = of_nat (length xs - Suc 0)"
  by (cases xs) auto

lemma avl_remove_law:
  assumes "avl_ok t"
  shows "\<exists>t'. avl_remove t v = Some t' \<and> avl_ok t' \<and>
           inorder (data t') = del_list v True (inorder (data t))"
proof -
  have ord: "ordered (inorder (data t))" using assms by (simp add: avl_ok_def)
  from node_remove_list [OF assms, of v True] obtain n where
    "node_remove v True (data t) =
       Some (n, v \<in> fst ` set (inorder (data t)) \<and> \<not> (True \<and> refs_at (inorder (data t)) v > 1))"
    "balanced n" "inorder n = del_list v True (inorder (data t))" .
  with assms ord show ?thesis
    by (auto simp: avl_remove_def avl_ok_def Let_def ordered_del_list length_del_list
        total_refs_del_list avl_find_refs minus_one_count)
qed

lemma avl_drop_law:
  assumes "avl_ok t"
  shows "\<exists>t'. avl_drop t v = Some t' \<and> avl_ok t' \<and>
           inorder (data t') = del_list v False (inorder (data t))"
proof -
  have ord: "ordered (inorder (data t))" using assms by (simp add: avl_ok_def)
  from node_remove_list [OF assms, of v False] obtain n where
    "node_remove v False (data t) =
       Some (n, v \<in> fst ` set (inorder (data t)) \<and> \<not> (False \<and> refs_at (inorder (data t)) v > 1))"
    "balanced n" "inorder n = del_list v False (inorder (data t))" .
  with assms ord show ?thesis
    by (auto simp: avl_drop_def avl_ok_def Let_def ordered_del_list length_del_list
        total_refs_del_list avl_find_refs minus_one_count)
qed

interpretation avl_set: counted_bag "\<lambda>v t. avl_insert t v" "\<lambda>v t. avl_remove t v"
  "\<lambda>v t. avl_drop t v" avl_find avl_bag avl_ok
proof
  fix t :: "'a avl" and v :: 'a
  assume ok: "avl_ok t"
  then have ord: "ordered (inorder (data t))" by (simp add: avl_ok_def)
  show "unat (avl_find t v) = count (avl_bag t) v"
    by (simp add: avl_find_refs ord avl_bag_def count_bag_of)
  show "\<exists>t'. avl_insert t v = Some t' \<and> avl_ok t' \<and>
          (count (avl_bag t) v < 2 ^ 32 - 1 \<longrightarrow> avl_bag t' = add_mset v (avl_bag t))"
    using avl_insert_law [OF ok, of v] ord by (auto simp: avl_bag_def bag_of_ins_list count_bag_of)
  show "\<exists>t'. avl_remove t v = Some t' \<and> avl_ok t' \<and> avl_bag t' = avl_bag t - {#v#}"
    using avl_remove_law [OF ok, of v] ord by (auto simp: avl_bag_def bag_of_remove)
  show "\<exists>t'. avl_drop t v = Some t' \<and> avl_ok t' \<and> avl_bag t' = {# x \<in># avl_bag t. x \<noteq> v #}"
    using avl_drop_law [OF ok, of v] ord by (auto simp: avl_bag_def bag_of_drop)
qed

end
