(* ===== verification/Avl_Traverse.thy ===== *)
theory Avl_Traverse
  imports Avl_Bag
begin

section \<open>The order of the breadth-first traversal\<close>

text \<open>
  The traversal is specified by the list of the tree's values level by level. The loop of the code
  calls its callback along that list until the callback stops it.
\<close>

fun at_level :: "nat \<Rightarrow> 'a node \<Rightarrow> ('a \<times> u32) list" where
  "at_level k Null = []"
| "at_level 0 (Node v d c l r) = [(v, c)]"
| "at_level (Suc k) (Node v d c l r) = at_level k l @ at_level k r"

definition level_order :: "'a node \<Rightarrow> ('a \<times> nat \<times> u32) list" where
  "level_order n = concat (map (\<lambda>k. map (\<lambda>(v, c). (v, k + 1, c)) (at_level k n)) [0..<height n])"

abbreviation visit_of :: "('a, 's) traverse_cb \<Rightarrow> 'a \<times> nat \<times> u32 \<Rightarrow> 's \<Rightarrow> bool \<times> 's" where
  "visit_of cb \<equiv> (\<lambda>(v, d, c). cb v d c)"

fun levels :: "nat \<Rightarrow> nat \<Rightarrow> 'a node list \<Rightarrow> ('a \<times> nat \<times> u32) list" where
  "levels 0 d q = []"
| "levels (Suc h) d q =
     map (\<lambda>n. (val n, d + 1, ref_of n)) q @ levels h (d + 1) (concat (map children q))"

lemma visit_level_runs:
  "Null \<notin> set q1 \<Longrightarrow>
   (case visit_level cb d (length q1) (q1 @ q2) s of (stop, q', s') \<Rightarrow> (stop, s')) =
      run_until (visit_of cb) (map (\<lambda>n. (val n, d, ref_of n)) q1) s \<and>
   (\<forall>q' s'. visit_level cb d (length q1) (q1 @ q2) s = (False, q', s') \<longrightarrow>
      q' = q2 @ concat (map children q1))"
proof (induction q1 arbitrary: q2 s)
  case Nil
  then show ?case by simp
next
  case (Cons n q1)
  then obtain v dn c l r where n: "n = Node v dn c l r" by (cases n) auto
  show ?case
  proof (cases "cb v d c s")
    case (Pair stop s')
    with n Cons.prems Cons.IH [of "q2 @ children n" s'] show ?thesis
      by (cases stop) (auto simp: Let_def)
  qed
qed

lemma null_not_child: "Null \<notin> set (concat (map children q))"
proof
  assume "Null \<in> set (concat (map children q))"
  then obtain n where "n \<in> set q" "Null \<in> set (children n)" unfolding set_concat set_map by blast
  from this(2) show False by (cases n) (auto split: if_splits)
qed

definition max_height :: "'a node list \<Rightarrow> nat" where
  "max_height q = foldr (\<lambda>n m. max (height n) m) q 0"

lemma max_height_simps [simp]:
  "max_height [] = 0"
  "max_height (n # q) = max (height n) (max_height q)"
  by (simp_all add: max_height_def)

lemma max_height_append [simp]: "max_height (p @ q) = max (max_height p) (max_height q)"
  by (induction p) auto

lemma max_height_children: "max_height (children n) = height n - 1"
  by (cases n) auto

lemma max_height_concat: "max_height (concat (map children q)) = max_height q - 1"
  by (induction q) (auto simp: max_height_children)

lemma max_height_pos: "Null \<notin> set q \<Longrightarrow> q \<noteq> [] \<Longrightarrow> 0 < max_height q"
  by (cases q) (auto simp: less_max_iff_disj)

lemma traverse_levels_runs:
  "Null \<notin> set q \<Longrightarrow>
   traverse_levels cb d q s = snd (run_until (visit_of cb) (levels (max_height q) d q) s)"
proof (induction cb d q s rule: traverse_levels.induct)
  case (1 cb d q s)
  show ?case
  proof (cases "q = []")
    case True
    then show ?thesis by (simp add: traverse_levels.simps)
  next
    case False
    with 1(2) have pos: "0 < max_height q" by (intro max_height_pos) auto
    obtain stop q' s' where v: "visit_level cb (d + 1) (length q) q s = (stop, q', s')"
      by (metis prod_cases3)
    from visit_level_runs [OF 1(2), of cb "d + 1" "[]" s] v
    have run: "run_until (visit_of cb) (map (\<lambda>n. (val n, d + 1, ref_of n)) q) s = (stop, s')"
      and q': "\<not> stop \<Longrightarrow> q' = concat (map children q)" by auto
    have lev: "levels (max_height q) d q =
        map (\<lambda>n. (val n, d + 1, ref_of n)) q @
        levels (max_height (concat (map children q))) (d + 1) (concat (map children q))"
      using pos by (cases "max_height q") (simp_all add: max_height_concat)
    show ?thesis
    proof (cases stop)
      case True
      with v run lev False show ?thesis
        by (subst traverse_levels.simps) (simp add: Let_def run_until_append)
    next
      case go: False
      have "traverse_levels cb (d + 1) q' s' =
          snd (run_until (visit_of cb) (levels (max_height q') (d + 1) q') s')"
        using 1(1) [OF refl refl v [symmetric] refl] go False null_not_child [of q] q' v by simp
      with v run lev go False q' show ?thesis
        by (subst traverse_levels.simps) (simp add: Let_def run_until_append)
    qed
  qed
qed

lemma concat_map_shift:
  "concat (map f [0..<Suc h]) = f 0 @ concat (map (\<lambda>k. f (Suc k)) [0..<h])"
  by (simp add: upt_conv_Cons map_Suc_upt [symmetric] o_def del: upt_Suc)

lemma at_level_children: "concat (map (at_level k) (children n)) = at_level (Suc k) n"
  by (cases n) auto

lemma at_level_children_list:
  "concat (map (at_level k) (concat (map children q))) = concat (map (at_level (Suc k)) q)"
  by (induction q) (auto simp: at_level_children)

lemma levels_at_level:
  "Null \<notin> set q \<Longrightarrow> levels h d q =
   concat (map (\<lambda>k. map (\<lambda>(v, c). (v, d + 1 + k, c)) (concat (map (at_level k) q))) [0..<h])"
proof (induction h arbitrary: d q)
  case (Suc h)
  have "map (\<lambda>n. (val n, d + 1, ref_of n)) q =
      map (\<lambda>(v, c). (v, d + 1, c)) (concat (map (at_level 0) q))"
    using Suc.prems
  proof (induction q)
    case (Cons n q)
    then show ?case by (cases n) auto
  qed simp
  with Suc.IH [OF null_not_child, of "d + 1" q] show ?case
    by (simp add: concat_map_shift at_level_children_list del: upt_Suc)
qed simp

lemma levels_level_order: "n \<noteq> Null \<Longrightarrow> levels (height n) 0 [n] = level_order n"
  by (simp add: levels_at_level level_order_def)

end
