(* ===== verification/Avl_Properties.thy ===== *)
theory Avl_Properties
  imports Avl_Traverse
begin

section \<open>What the AVL tree promises\<close>

text \<open>
  The properties of \<^verbatim>\<open>data_structures/AVL/avl.cpp\<close>: the class is a bag of its values as long as no
  counter can wrap, its invariant and its counters hold after any sequence of operations, its depth
  is logarithmic, the traversal is breadth-first, \<^verbatim>\<open>clear\<close> leaves the counters stale, and the
  checks of \<^verbatim>\<open>main\<close> succeed.
\<close>

abbreviation avl_run :: "'a::linorder bag_op list \<Rightarrow> 'a avl \<Rightarrow> 'a avl option" where
  "avl_run \<equiv> run_bag (\<lambda>v t. avl_insert t v) (\<lambda>v t. avl_remove t v) (\<lambda>v t. avl_drop t v)"

lemma avl_ok_empty: "avl_ok avl_empty"
  by (simp add: avl_ok_def avl_empty_def total_refs_def)

lemma avl_bag_empty: "avl_bag avl_empty = {#}"
  by (simp add: avl_bag_def avl_empty_def)

lemma total_refs_bag: "total_refs xs = of_nat (size (bag_of xs))"
  by (induction xs rule: bag_of.induct) (auto simp: total_refs_def)

lemma avl_nodes_size: "avl_ok t \<Longrightarrow> nodes t = of_nat (size (avl_bag t))"
  by (simp add: avl_ok_def avl_bag_def total_refs_bag)

lemma size_fold_bag: "size (fold bag_step ops b) \<le> size b + length ops"
proof (induction ops arbitrary: b)
  case (Cons p ops)
  from Cons.IH [of "bag_step p b"] avl_set.size_bag_step [of p b] show ?case by simp
qed simp

subsection \<open>The height is logarithmic\<close>


lemma node_count_inorder: "node_count n = length (inorder n)"
  by (induction n) auto

subsection \<open>The traversal sees every node once\<close>

lemma mset_at_levels:
  "height n \<le> h \<Longrightarrow> mset (concat (map (\<lambda>k. at_level k n) [0..<h])) = mset (inorder n)"
proof (induction n arbitrary: h)
  case Null
  then show ?case by (induction h) auto
next
  case (Node v d c l r)
  then obtain m where h: "h = Suc m" "height l \<le> m" "height r \<le> m" by (cases h) auto
  have "mset (concat (map (\<lambda>k. at_level k l @ at_level k r) [0..<m])) =
      mset (concat (map (\<lambda>k. at_level k l) [0..<m])) + mset (concat (map (\<lambda>k. at_level k r) [0..<m]))"
    by (induction m) auto
  with Node.IH h show ?case
    by (simp add: concat_map_shift [of "\<lambda>k. at_level k (Node v d c l r)"] del: upt_Suc)
qed

lemma level_order_nodes: "mset (map (\<lambda>(v, d, c). (v, c)) (level_order n)) = mset (inorder n)"
proof -
  have "map (\<lambda>(v, d, c). (v, c)) (level_order n) = concat (map (\<lambda>k. at_level k n) [0..<height n])"
    by (simp add: level_order_def map_concat o_def case_prod_beta)
  then show ?thesis using mset_at_levels [of n "height n"] by simp
qed

subsection \<open>Properties\<close>

text \<open>
  C1: After any sequence of insert, remove and drop calls on an empty tree, shorter than 2 to the
  32, no empty pointer was dereferenced, \<^verbatim>\<open>find\<close> answers how often a value is in the bag those
  calls describe, and \<^verbatim>\<open>nodes\<close> is the size of that bag.
\<close>

theorem avl_refines_bag:
  assumes "length ops < 2 ^ 32"
  shows "\<exists>t. avl_run ops avl_empty = Some t \<and>
           (\<forall>v. unat (avl_find t v) = count (fold bag_step ops {#}) v) \<and>
           unat (nodes t) = size (fold bag_step ops {#})"
proof -
  have len: "size (avl_bag (avl_empty :: 'a avl)) + length ops < 2 ^ 32"
    using assms by (simp add: avl_bag_empty)
  from avl_set.run_refines [OF avl_ok_empty len] obtain t where
    t: "avl_run ops avl_empty = Some t" "avl_ok t" "avl_bag t = fold bag_step ops {#}"
    by (auto simp: avl_bag_empty)
  have "size (avl_bag t) < 2 ^ 32"
    using size_fold_bag [of ops "{#}"] assms t by simp
  then have "unat (nodes t) = size (fold bag_step ops {#})"
    using avl_nodes_size [OF t(2)] t(3) by (simp add: unat_of_nat)
  with t avl_set.find_law [OF t(2)] show ?thesis by auto
qed

theorem avl_refines_bag_witness:
  "\<exists>t. avl_run [Ins (3::int), Ins 3, Ins 5, Rem 3, Drop 5] avl_empty = Some t \<and>
     unat (avl_find t 3) = 1 \<and> unat (nodes t) = 1"
  using avl_refines_bag [of "[Ins (3::int), Ins 3, Ins 5, Rem 3, Drop 5]"] by (auto dest: spec [of _ 3])

text \<open>
  C2: Whatever the number of calls, no empty pointer is dereferenced and the invariant holds: the
  tree is ordered and balanced, stored depths are the heights, \<^verbatim>\<open>nodes\<close> is the sum of the
  reference counters and \<^verbatim>\<open>unique_nodes\<close> the number of nodes, both modulo 2 to the 32.
\<close>

theorem avl_invariant:
  "\<exists>t. avl_run ops avl_empty = Some t \<and>
     ordered (inorder (data t)) \<and> balanced (data t) \<and> avl_depth t = height (data t) \<and>
     nodes t = sum_list (map snd (inorder (data t))) \<and>
     unique_nodes t = of_nat (node_count (data t))"
proof -
  from avl_set.run_total [OF avl_ok_empty, of ops] obtain t where
    t: "avl_run ops avl_empty = Some t" "avl_ok t" by auto
  then have "avl_depth t = height (data t)"
    by (cases "data t") (auto simp: avl_ok_def avl_depth_def)
  with t show ?thesis by (auto simp: avl_ok_def total_refs_def node_count_inorder)
qed


text \<open>
  C4: \<^verbatim>\<open>traverse\<close> calls its callback on the nodes level by level from the root, with the level and
  the reference counter of each, until the callback answers true; the list it walks along holds
  every node of the tree exactly once.
\<close>

theorem avl_traverse_level_order:
  "avl_traverse (Some cb) t s = snd (run_until (\<lambda>(v, d, c). cb v d c) (level_order (data t)) s) \<and>
   mset (map (\<lambda>(v, d, c). (v, c)) (level_order (data t))) = mset (inorder (data t))"
proof (cases "data t = Null")
  case True
  then show ?thesis by (simp add: avl_traverse_def level_order_def)
next
  case False
  then show ?thesis
    using traverse_levels_runs [of "[data t]" cb 0 s]
    by (simp add: avl_traverse_def levels_level_order level_order_nodes del: mset_map)
qed

text \<open>
  \<^verbatim>\<open>clear\<close> does not reset the counters: on a tree that holds something, the invariant is lost
  and \<^verbatim>\<open>nodes\<close> still reports the old count although no value is found any more.
\<close>

theorem avl_clear_stale:
  assumes "avl_ok t" "nodes t \<noteq> 0"
  shows "avl_find (avl_clear t) v = 0 \<and> nodes (avl_clear t) = nodes t \<and> \<not> avl_ok (avl_clear t)"
  using assms by (simp add: avl_clear_def avl_find_def avl_ok_def total_refs_def)

theorem avl_clear_stale_witness:
  "nodes (avl_clear (avl_single (7::int))) = 1 \<and> avl_find (avl_clear (avl_single (7::int))) 7 = 0"
proof -
  have "avl_ok (avl_single (7::int))" "nodes (avl_single (7::int)) \<noteq> 0"
    by (simp_all add: avl_ok_def avl_single_def new_node_def total_refs_def)
  from avl_clear_stale [OF this, of 7] show ?thesis by (simp add: avl_single_def)
qed

text \<open>
  Every check of \<^verbatim>\<open>main\<close> succeeds, and the printed levels are those of the second tree drawn in
  its comment.
\<close>

theorem avl_main_passes:
  "avl_main = Some (replicate 10 True, replicate 10 True,
     [(9, 1, 1), (4, 2, 1), (13, 2, 1), (2, 3, 1), (6, 3, 1), (10, 3, 1), (16, 3, 1),
      (1, 4, 2), (3, 4, 1), (5, 4, 1), (11, 4, 1), (14, 4, 1), (18, 4, 1),
      (15, 5, 1), (17, 5, 1), (19, 5, 1)])"
  by code_simp

end
