(* ===== verification/Ordered_Set.thy ===== *)
theory Ordered_Set
  imports Prelude
begin

section \<open>Ordered containers of the standard library\<close>

text \<open>
  \<^verbatim>\<open>std::set\<close> and \<^verbatim>\<open>std::map\<close> iterate over their elements in the order of the comparison and hold no
  two equivalent ones. The model is the list in iteration order. The standard requires the
  comparison to be a strict weak ordering; the locale is that contract, and what emplace, find and
  erase promise under it is proved once inside it.
\<close>

fun sorted_emplace :: "('a \<Rightarrow> 'a \<Rightarrow> bool) \<Rightarrow> 'a \<Rightarrow> 'a list \<Rightarrow> 'a list \<times> 'a \<times> bool" where
  "sorted_emplace lt x [] = ([x], x, True)"
| "sorted_emplace lt x (y # ys) =
     (if lt x y then (x # y # ys, x, True)
      else if lt y x then
        (case sorted_emplace lt x ys of (ys', it, inserted) \<Rightarrow> (y # ys', it, inserted))
      else (y # ys, y, False))"

definition equivalent :: "('a \<Rightarrow> 'a \<Rightarrow> bool) \<Rightarrow> 'a \<Rightarrow> 'a \<Rightarrow> bool" where
  "equivalent lt x y \<longleftrightarrow> \<not> lt x y \<and> \<not> lt y x"

definition sorted_find :: "('a \<Rightarrow> 'a \<Rightarrow> bool) \<Rightarrow> 'a \<Rightarrow> 'a list \<Rightarrow> 'a option" where
  "sorted_find lt x ys = find (equivalent lt x) ys"

definition sorted_erase :: "('a \<Rightarrow> 'a \<Rightarrow> bool) \<Rightarrow> 'a \<Rightarrow> 'a list \<Rightarrow> 'a list" where
  "sorted_erase lt x ys = filter (\<lambda>y. \<not> equivalent lt x y) ys"

text \<open>Whether a comparison is a strict weak ordering of the elements at hand.\<close>

definition strict_weak_on :: "('a \<Rightarrow> 'a \<Rightarrow> bool) \<Rightarrow> 'a list \<Rightarrow> bool" where
  "strict_weak_on lt xs \<longleftrightarrow>
     (\<forall>x \<in> set xs. \<not> lt x x) \<and>
     (\<forall>x \<in> set xs. \<forall>y \<in> set xs. \<forall>z \<in> set xs. lt x y \<longrightarrow> lt y z \<longrightarrow> lt x z) \<and>
     (\<forall>x \<in> set xs. \<forall>y \<in> set xs. \<forall>z \<in> set xs.
        equivalent lt x y \<longrightarrow> equivalent lt y z \<longrightarrow> equivalent lt x z)"

locale strict_weak =
  fixes lt :: "'a \<Rightarrow> 'a \<Rightarrow> bool"
  assumes irrefl: "\<not> lt x x"
    and less_trans: "lt x y \<Longrightarrow> lt y z \<Longrightarrow> lt x z"
    and equiv_trans: "equivalent lt x y \<Longrightarrow> equivalent lt y z \<Longrightarrow> equivalent lt x z"
begin

lemma asym: "lt x y \<Longrightarrow> \<not> lt y x"
  using irrefl less_trans by blast

lemma equiv_refl: "equivalent lt x x"
  by (simp add: equivalent_def irrefl)

lemma equiv_sym: "equivalent lt x y \<longleftrightarrow> equivalent lt y x"
  by (auto simp: equivalent_def)

lemma less_equiv: "lt x y \<Longrightarrow> equivalent lt y z \<Longrightarrow> lt x z"
  by (metis equiv_sym equiv_trans equivalent_def less_trans)

lemma strict_weak_on_all: "strict_weak_on lt xs"
  using irrefl less_trans equiv_trans unfolding strict_weak_on_def by blast

lemma emplace_inserts:
  "sorted_wrt lt ys \<Longrightarrow> sorted_emplace lt x ys = (zs, it, True) \<Longrightarrow>
   it = x \<and> sorted_wrt lt zs \<and> set zs = insert x (set ys) \<and> length zs = length ys + 1 \<and>
   (\<forall>y \<in> set ys. \<not> equivalent lt x y)"
proof (induction ys arbitrary: zs)
  case Nil
  then show ?case by auto
next
  case (Cons y ys)
  show ?case
  proof (cases "lt x y")
    case True
    have "lt x z" if "z \<in> set ys" for z
      using True less_trans Cons.prems(1) that by (meson sorted_wrt.simps(2))
    with True Cons.prems show ?thesis by (auto simp: equivalent_def)
  next
    case False
    with Cons.prems have "lt y x" by (auto split: if_splits)
    moreover obtain ws where "sorted_emplace lt x ys = (ws, it, True)" "zs = y # ws"
      using Cons.prems False \<open>lt y x\<close> by (auto split: prod.splits)
    ultimately show ?thesis using Cons.IH [of ws] Cons.prems by (auto simp: equivalent_def)
  qed
qed

lemma emplace_finds:
  "sorted_emplace lt x ys = (zs, it, False) \<Longrightarrow>
   zs = ys \<and> it \<in> set ys \<and> equivalent lt x it"
  by (induction ys arbitrary: zs) (auto simp: equivalent_def split: if_splits prod.splits)

lemma emplace_member: "sorted_emplace lt x ys = (zs, it, b) \<Longrightarrow> it \<in> set zs"
  by (induction ys arbitrary: zs) (auto split: if_splits prod.splits)

lemma equivalent_unique:
  "sorted_wrt lt ys \<Longrightarrow> a \<in> set ys \<Longrightarrow> b \<in> set ys \<Longrightarrow> equivalent lt a b \<Longrightarrow> a = b"
  by (induction ys) (auto simp: equivalent_def)

lemma sorted_distinct: "sorted_wrt lt ys \<Longrightarrow> distinct ys"
  by (induction ys) (auto simp: irrefl)

lemma find_eq:
  "sorted_wrt lt ys \<Longrightarrow> y \<in> set ys \<Longrightarrow> equivalent lt x y \<Longrightarrow> sorted_find lt x ys = Some y"
proof (induction ys)
  case (Cons w ys)
  show ?case
  proof (cases "equivalent lt x w")
    case True
    with Cons.prems have "equivalent lt w y" using equiv_sym equiv_trans by blast
    with Cons.prems equivalent_unique [of "w # ys" w y] True show ?thesis
      by (simp add: sorted_find_def)
  next
    case False
    with Cons show ?thesis by (auto simp: sorted_find_def)
  qed
qed simp

lemma find_None: "sorted_find lt x ys = None \<longleftrightarrow> (\<forall>y \<in> set ys. \<not> equivalent lt x y)"
  by (auto simp: sorted_find_def find_None_iff)

lemma find_Some: "sorted_find lt x ys = Some y \<Longrightarrow> y \<in> set ys \<and> equivalent lt x y"
  by (auto simp: sorted_find_def find_Some_iff)

lemma sorted_erase_sorted: "sorted_wrt lt ys \<Longrightarrow> sorted_wrt lt (sorted_erase lt x ys)"
  by (simp add: sorted_erase_def sorted_wrt_filter)

lemma find_after_emplace:
  assumes "sorted_wrt lt ys" "sorted_emplace lt x ys = (zs, it, b)"
  shows "sorted_find lt x zs = Some it"
proof (cases b)
  case True
  with emplace_inserts [OF assms(1), of x zs it] assms(2)
  have "it = x" "sorted_wrt lt zs" "x \<in> set zs" by auto
  then show ?thesis by (auto intro: find_eq equiv_refl)
next
  case False
  with emplace_finds assms show ?thesis by (intro find_eq) auto
qed

lemma find_after_erase: "sorted_find lt x (sorted_erase lt x ys) = None"
  by (auto simp: find_None sorted_erase_def)

end

lemma strict_weak_key:
  fixes key :: "'a \<Rightarrow> 'k::linorder"
  shows "strict_weak (\<lambda>a b. key a < key b)"
  by unfold_locales (auto simp: equivalent_def)

end
