(* ===== verification/Element_Tree.thy ===== *)
theory Element_Tree
  imports Ordered_Set
begin

section \<open>The tree of named elements\<close>

text \<open>
  Models \<^verbatim>\<open>struct Element\<close> of \<^verbatim>\<open>data_structures/tree/tree.cpp\<close>. An element is known by its address:
  references to it are handed out, its children keep a back link to it, and \<^verbatim>\<open>std::set\<close> never moves
  its elements. The store is the list of all elements in the order of their construction and an
  address is a position in it; elements are never erased. The children are the addresses in the
  order the set iterates over them. The back link is the raw pointer, \<^const>\<open>None\<close> for \<^verbatim>\<open>nullptr\<close>.
\<close>

record element =
  name :: string
  kids :: "nat list"
  backlink :: "nat option"

type_synonym store = "element list"

definition root_element :: "string \<Rightarrow> element" where
  "root_element n = \<lparr>name = n, kids = [], backlink = None\<rparr>"

definition child_element :: "string \<Rightarrow> nat \<Rightarrow> element" where
  "child_element n p = \<lparr>name = n, kids = [], backlink = Some p\<rparr>"

definition element_less :: "element \<Rightarrow> element \<Rightarrow> bool" where
  "element_less e e' \<longleftrightarrow> name e < name e'"

definition child_less :: "store \<Rightarrow> nat \<Rightarrow> nat \<Rightarrow> bool" where
  "child_less st a b = element_less (st ! a) (st ! b)"

text \<open>
  \<^verbatim>\<open>children.emplace( name, this )\<close> constructs the new element, here at the end of the store, and
  links it into the \<^verbatim>\<open>std::set\<close> unless an equivalent one is there, in which case the new one is
  destroyed again. The answer is the element the iterator points to.
\<close>

definition elem_add :: "store \<Rightarrow> nat \<Rightarrow> string \<Rightarrow> store \<times> nat" where
  "elem_add st this n =
     (let st1 = st @ [child_element n this]
      in case sorted_emplace (child_less st1) (length st) (kids (st ! this)) of
           (ks, item, inserted) \<Rightarrow>
             (if inserted then st1[this := (st1 ! this)\<lparr>kids := ks\<rparr>] else st, item))"

fun elem_add_items :: "store \<Rightarrow> nat \<Rightarrow> string list \<Rightarrow> store \<times> nat" where
  "elem_add_items st this [] = (st, this)"
| "elem_add_items st this (i # is) = elem_add_items (fst (elem_add st this i)) this is"

text \<open>\<^verbatim>\<open>parent()\<close> dereferences the back link; \<^const>\<open>None\<close> is the dereference of \<^verbatim>\<open>nullptr\<close>.\<close>

definition elem_parent :: "store \<Rightarrow> nat \<Rightarrow> nat option" where
  "elem_parent st this = backlink (st ! this)"

fun get_items :: "store \<Rightarrow> nat \<Rightarrow> string list \<Rightarrow> nat option" where
  "get_items st ptr [] = Some ptr"
| "get_items st ptr (item # is) =
     (if item = [] then get_items st ptr is
      else case find (\<lambda>c. item = name (st ! c)) (kids (st ! ptr)) of
             None \<Rightarrow> None
           | Some c \<Rightarrow> get_items st c is)"

definition elem_get :: "store \<Rightarrow> nat \<Rightarrow> string \<Rightarrow> nat option" where
  "elem_get st this path = get_items st this (getline_items CHR ''/'' path)"

text \<open>The loops over pointers may run forever on a malformed store: \<^const>\<open>None\<close> is then their value.\<close>

partial_function (option) path_loop :: "store \<Rightarrow> nat \<Rightarrow> string list \<Rightarrow> string list option" where
  "path_loop st ptr path =
     (case backlink (st ! ptr) of
        None \<Rightarrow> Some path
      | Some p \<Rightarrow> path_loop st p (name (st ! ptr) # path))"

definition elem_path :: "store \<Rightarrow> nat \<Rightarrow> string list option" where
  "elem_path st this = path_loop st this []"

subsection \<open>Traversals\<close>

text \<open>
  The callback answers whether to go on. The stack and the queue hold pointers and a separator,
  \<^const>\<open>None\<close>, which marks where the depth changes. The depth is a 32-bit counter.
\<close>

type_synonym 's elem_cb = "nat \<Rightarrow> u32 \<Rightarrow> 's \<Rightarrow> bool \<times> 's"

partial_function (option) dfs_loop ::
    "'s elem_cb \<Rightarrow> store \<Rightarrow> nat option list \<Rightarrow> u32 \<Rightarrow> 's \<Rightarrow> 's option" where
  "dfs_loop cb st stack depth s =
     (case stack of
        [] \<Rightarrow> Some s
      | None # stack' \<Rightarrow> dfs_loop cb st stack' (depth - 1) s
      | Some ptr # stack' \<Rightarrow>
          (case cb ptr depth s of (go, s') \<Rightarrow>
             if \<not> go then Some s'
             else if kids (st ! ptr) \<noteq> [] then
               dfs_loop cb st (map Some (kids (st ! ptr)) @ None # stack') (depth + 1) s'
             else dfs_loop cb st stack' depth s'))"

definition elem_dfs :: "'s elem_cb \<Rightarrow> store \<Rightarrow> nat \<Rightarrow> 's \<Rightarrow> 's option" where
  "elem_dfs cb st this s =
     (let stack = map Some (kids (st ! this)) @ [None]
      in if name (st ! this) \<noteq> [] then
           (case cb this 0 s of (go, s') \<Rightarrow>
              if \<not> go then Some s' else dfs_loop cb st stack 1 s')
         else dfs_loop cb st stack 0 s)"

partial_function (option) bfs_loop ::
    "'s elem_cb \<Rightarrow> store \<Rightarrow> nat option list \<Rightarrow> u32 \<Rightarrow> 's \<Rightarrow> 's option" where
  "bfs_loop cb st queue depth s =
     (case queue of
        [] \<Rightarrow> None
      | None # queue' \<Rightarrow>
          if queue' = [] then Some s
          else bfs_loop cb st (queue' @ [None]) (depth + 1) s
      | Some ptr # queue' \<Rightarrow>
          (case cb ptr depth s of (go, s') \<Rightarrow>
             if \<not> go then Some s'
             else bfs_loop cb st (queue' @ map Some (kids (st ! ptr))) depth s'))"

definition elem_bfs :: "'s elem_cb \<Rightarrow> store \<Rightarrow> nat \<Rightarrow> 's \<Rightarrow> 's option" where
  "elem_bfs cb st this s =
     (let queue = map Some (kids (st ! this)) @ [None]
      in if name (st ! this) \<noteq> [] then
           (case cb this 0 s of (go, s') \<Rightarrow>
              if \<not> go then Some s' else bfs_loop cb st queue 1 s')
         else bfs_loop cb st queue 0 s)"

declare path_loop.simps [code] dfs_loop.simps [code] bfs_loop.simps [code]

subsection \<open>The program\<close>

text \<open>
  \<^verbatim>\<open>main\<close> builds the tree of its sample commands. A chain of calls threads the store and the element
  the last call returned; \<^const>\<open>None\<close> is a null pointer that is dereferenced.
\<close>

definition get_add :: "string \<Rightarrow> string list \<Rightarrow> store \<Rightarrow> store option" where
  "get_add path items st = do { e \<leftarrow> elem_get st 0 path; Some (fst (elem_add_items st e items)) }"

definition add_value_type :: "string \<Rightarrow> store \<times> nat \<Rightarrow> (store \<times> nat) option" where
  "add_value_type n = (\<lambda>(st, e).
     do { (st, x) \<leftarrow> Some (elem_add st e n);
          (st, v) \<leftarrow> Some (elem_add st x ''value'');
          x \<leftarrow> elem_parent st v;
          (st, t) \<leftarrow> Some (elem_add st x ''type'');
          x \<leftarrow> elem_parent st t;
          e \<leftarrow> elem_parent st x;
          Some (st, e) })"

definition sample_tree :: "store option" where
  "sample_tree =
     do { st \<leftarrow> Some (fst (elem_add_items [root_element []] 0 [''say'', ''show'', ''get'', ''work'']));
          st \<leftarrow> get_add ''show'' [''usage'', ''time'', ''dir''] st;
          st \<leftarrow> get_add ''show/dir'' [''binary'', ''working''] st;
          e \<leftarrow> elem_get st 0 ''get'';
          (st, e) \<leftarrow> add_value_type ''x'' (st, e);
          (st, e) \<leftarrow> add_value_type ''y'' (st, e);
          (st, e) \<leftarrow> add_value_type ''z'' (st, e);
          Some st }"

text \<open>What \<^verbatim>\<open>main\<close> prints for an element: its level, its name and its path.\<close>

definition show_element :: "store \<Rightarrow> (u32 \<times> string \<times> string list option) list elem_cb" where
  "show_element st e l out = (True, out @ [(l, name (st ! e), elem_path st e)])"

definition tree_main :: "((u32 \<times> string \<times> string list option) list) list option" where
  "tree_main =
     do { st \<leftarrow> sample_tree;
          all_dfs \<leftarrow> elem_dfs (show_element st) st 0 [];
          show \<leftarrow> elem_get st 0 ''show'';
          branch_dfs \<leftarrow> elem_dfs (show_element st) st show [];
          all_bfs \<leftarrow> elem_bfs (show_element st) st 0 [];
          branch_bfs \<leftarrow> elem_bfs (show_element st) st show [];
          Some [all_dfs, branch_dfs, all_bfs, branch_bfs] }"

end
