(* ===== verification/Element_Tree_Correct.thy ===== *)
theory Element_Tree_Correct
  imports Element_Tree
begin

section \<open>Correctness of the tree of named elements\<close>

text \<open>
  The invariant of the store, its preservation by \<^verbatim>\<open>add\<close>, lookup by path and its inverse \<^verbatim>\<open>path\<close>,
  and the two traversals as runs of the callback over the preorder and over the levels.
\<close>

interpretation child_order: strict_weak "child_less st" for st
  by unfold_locales (auto simp: child_less_def element_less_def equivalent_def)

lemma child_less_name: "child_less st a b \<longleftrightarrow> name (st ! a) < name (st ! b)"
  by (simp add: child_less_def element_less_def)

definition elem_ok :: "store \<Rightarrow> bool" where
  "elem_ok st \<longleftrightarrow> st \<noteq> [] \<and>
     (\<forall>a < length st.
        sorted_wrt (child_less st) (kids (st ! a)) \<and>
        (\<forall>c \<in> set (kids (st ! a)). a < c \<and> c < length st \<and> backlink (st ! c) = Some a) \<and>
        (case backlink (st ! a) of None \<Rightarrow> a = 0 | Some p \<Rightarrow> p < a \<and> a \<in> set (kids (st ! p))))"

lemma elem_okD:
  assumes "elem_ok st" "a < length st"
  shows "sorted_wrt (child_less st) (kids (st ! a))"
    and "c \<in> set (kids (st ! a)) \<Longrightarrow> a < c \<and> c < length st \<and> backlink (st ! c) = Some a"
    and "backlink (st ! a) = Some p \<Longrightarrow> p < a \<and> a \<in> set (kids (st ! p))"
    and "backlink (st ! a) = None \<Longrightarrow> a = 0"
proof -
  from assms have *: "sorted_wrt (child_less st) (kids (st ! a)) \<and>
    (\<forall>c \<in> set (kids (st ! a)). a < c \<and> c < length st \<and> backlink (st ! c) = Some a) \<and>
    (case backlink (st ! a) of None \<Rightarrow> a = 0 | Some p \<Rightarrow> p < a \<and> a \<in> set (kids (st ! p)))"
    unfolding elem_ok_def by blast
  show "sorted_wrt (child_less st) (kids (st ! a))" using * by blast
  show "c \<in> set (kids (st ! a)) \<Longrightarrow> a < c \<and> c < length st \<and> backlink (st ! c) = Some a"
    using * by blast
  show "backlink (st ! a) = Some p \<Longrightarrow> p < a \<and> a \<in> set (kids (st ! p))" using * by simp
  show "backlink (st ! a) = None \<Longrightarrow> a = 0" using * by simp
qed

lemma elem_ok_root [keeps]: "elem_ok [root_element n]"
  by (simp add: elem_ok_def root_element_def)

subsection \<open>add\<close>

lemma elem_add_cases:
  assumes ok: "elem_ok st" and a: "a < length st" and add: "elem_add st a n = (st', i)"
  obtains (old) "st' = st" "i \<in> set (kids (st ! a))" "name (st ! i) = n"
  | (new) ks where "i = length st" "\<forall>c \<in> set (kids (st ! a)). name (st ! c) \<noteq> n"
      "st' = (st @ [child_element n a])[a := (st ! a)\<lparr>kids := ks\<rparr>]"
      "set ks = insert i (set (kids (st ! a)))"
      "sorted_wrt (child_less st') ks"
proof -
  let ?st = "st @ [child_element n a]"
  let ?lt = "child_less ?st"
  note kids_lt = elem_okD(2) [OF ok a]
  obtain ks b where emp: "sorted_emplace ?lt (length st) (kids (st ! a)) = (ks, i, b)"
    using add by (auto simp: elem_add_def Let_def split: prod.splits)
  have same: "name (?st ! c) = name (st ! c)" if "c \<in> set (kids (st ! a))" for c
    using kids_lt [OF that] by (simp add: nth_append)
  have srt: "sorted_wrt ?lt (kids (st ! a))"
    using elem_okD(1) [OF ok a] kids_lt
    by (auto simp: child_less_name nth_append intro: sorted_wrt_mono_rel [rotated])
  show thesis
  proof (cases b)
    case False
    with emp have "i \<in> set (kids (st ! a))" "equivalent ?lt (length st) i"
      using child_order.emplace_finds [of ?st "length st" "kids (st ! a)" ks i] by auto
    with same have "name (st ! i) = n"
      by (auto simp: equivalent_def child_less_name child_element_def)
    with \<open>i \<in> _\<close> add emp False show thesis
      by (intro old) (auto simp: elem_add_def Let_def)
  next
    case True
    with emp child_order.emplace_inserts [OF srt, of "length st" ks i]
    have *: "i = length st" "sorted_wrt ?lt ks" "set ks = insert (length st) (set (kids (st ! a)))"
      "\<forall>c \<in> set (kids (st ! a)). \<not> equivalent ?lt (length st) c" by auto
    let ?new = "?st[a := (st ! a)\<lparr>kids := ks\<rparr>]"
    have names: "name (?new ! c) = name (?st ! c)" for c
      using a by (cases "c = a") (auto simp: nth_append)
    have st': "st' = ?new" using add emp True a by (auto simp: elem_add_def Let_def nth_append)
    show thesis
    proof (rule new)
      show "\<forall>c \<in> set (kids (st ! a)). name (st ! c) \<noteq> n"
        using *(4) same by (auto simp: equivalent_def child_less_name child_element_def)
      show "sorted_wrt (child_less st') ks"
        using *(2) by (rule sorted_wrt_mono_rel [rotated]) (simp only: st' child_less_name names)
    qed (use * st' in auto)
  qed
qed

lemma elem_add_new_nth:
  assumes "a < length st" "st' = (st @ [child_element n a])[a := (st ! a)\<lparr>kids := ks\<rparr>]" "b < length st + 1"
  shows "st' ! b = (if b = a then (st ! a)\<lparr>kids := ks\<rparr> else if b < length st then st ! b
     else child_element n a)"
  using assms by (auto simp: nth_append nth_list_update)

lemma elem_add_new_ok:
  assumes ok: "elem_ok st" and a: "a < length st"
    and st': "st' = (st @ [child_element n a])[a := (st ! a)\<lparr>kids := ks\<rparr>]"
    and ks: "set ks = insert (length st) (set (kids (st ! a)))" "sorted_wrt (child_less st') ks"
  shows "elem_ok st'"
proof -
  note nth = elem_add_new_nth [OF a st']
  have len: "length st' = length st + 1" by (simp add: st')
  have names: "name (st' ! c) = name (st ! c)" if "c < length st" for c
    using that nth [of c] by auto
  show ?thesis
    unfolding elem_ok_def
  proof (intro conjI allI impI)
    fix b assume b: "b < length st'"
    show "sorted_wrt (child_less st') (kids (st' ! b))"
    proof (cases "b < length st \<and> b \<noteq> a")
      case True
      then have "kids (st' ! b) = kids (st ! b)" using nth [of b] by simp
      moreover have "sorted_wrt (child_less st') (kids (st ! b))"
        using elem_okD(1) [OF ok, of b] elem_okD(2) [OF ok, of b] names True
        by (auto simp: child_less_name intro: sorted_wrt_mono_rel [rotated])
      ultimately show ?thesis by simp
    next
      case False
      then show ?thesis using ks nth [of b] b len by (auto simp: child_element_def)
    qed
    show "\<forall>c \<in> set (kids (st' ! b)). b < c \<and> c < length st' \<and> backlink (st' ! c) = Some b"
    proof
      fix c assume c: "c \<in> set (kids (st' ! b))"
      have "b < c \<and> (c < length st \<and> backlink (st ! c) = Some b \<or> c = length st \<and> b = a)"
        using c nth [of b] b len elem_okD(2) [OF ok, of b c] ks(1) a
        by (auto simp: child_element_def split: if_splits)
      then show "b < c \<and> c < length st' \<and> backlink (st' ! c) = Some b"
        using nth [of c] len a by (auto simp: child_element_def)
    qed
    show "case backlink (st' ! b) of None \<Rightarrow> b = 0 | Some p \<Rightarrow> p < b \<and> b \<in> set (kids (st' ! p))"
    proof (cases "b < length st")
      case True
      then have "backlink (st' ! b) = backlink (st ! b)" using nth [of b] by simp
      moreover have "p < b \<and> b \<in> set (kids (st' ! p))" if "backlink (st ! b) = Some p" for p
        using elem_okD(3) [OF ok True that] nth [of p] ks(1) True by auto
      ultimately show ?thesis using elem_okD(4) [OF ok True] by (auto split: option.splits)
    next
      case False
      then show ?thesis using nth [of b] nth [of a] b len a ks(1)
        by (auto simp: child_element_def)
    qed
  qed (use len in auto)
qed

definition extends_store :: "store \<Rightarrow> store \<Rightarrow> bool" where
  "extends_store st st' \<longleftrightarrow> length st \<le> length st' \<and>
     (\<forall>b < length st. name (st' ! b) = name (st ! b) \<and> backlink (st' ! b) = backlink (st ! b) \<and>
        set (kids (st ! b)) \<subseteq> set (kids (st' ! b)))"

lemma extends_store_refl: "extends_store st st"
  by (simp add: extends_store_def)

lemma extends_store_trans: "extends_store a b \<Longrightarrow> extends_store b c \<Longrightarrow> extends_store a c"
  unfolding extends_store_def by (fastforce simp: subset_iff)

lemma elem_add_ok:
  assumes ok: "elem_ok st" and a: "a < length st" and add: "elem_add st a n = (st', i)"
  shows elem_add_keeps [keeps]: "elem_ok st'"
    and elem_add_extends: "extends_store st st'"
    and elem_add_child: "i \<in> set (kids (st' ! a))" "name (st' ! i) = n"
proof -
  have "elem_ok st' \<and> extends_store st st' \<and> i \<in> set (kids (st' ! a)) \<and> name (st' ! i) = n"
    using ok a add
  proof (cases rule: elem_add_cases)
    case old
    then show ?thesis using ok by (simp add: extends_store_refl)
  next
    case (new ks)
    note nth = elem_add_new_nth [OF a new(3)]
    have "elem_ok st'" using elem_add_new_ok [OF ok a new(3)] new by simp
    moreover have "extends_store st st'"
      using nth new(3,4) by (auto simp: extends_store_def)
    moreover have "i \<in> set (kids (st' ! a)) \<and> name (st' ! i) = n"
      using nth [of a] nth [of i] a new(1,4) by (auto simp: child_element_def)
    ultimately show ?thesis by blast
  qed
  then show "elem_ok st'" "extends_store st st'" "i \<in> set (kids (st' ! a))" "name (st' ! i) = n"
    by simp_all
qed

lemma elem_add_items_ok [keeps]:
  "elem_ok st \<Longrightarrow> a < length st \<Longrightarrow> elem_add_items st a is = (st', b) \<Longrightarrow>
   elem_ok st' \<and> extends_store st st' \<and> b = a"
proof (induction st a "is" rule: elem_add_items.induct)
  case (2 st this i "is")
  obtain st1 c where add: "elem_add st this i = (st1, c)" by fastforce
  from elem_add_ok [OF 2(2,3) add] 2(3) have "elem_ok st1" "extends_store st st1" "this < length st1"
    by (auto simp: extends_store_def)
  with 2 add show ?case using extends_store_trans by fastforce
qed (auto simp: extends_store_refl)

subsection \<open>get and path\<close>

lemma get_items_filter: "get_items st a is = get_items st a [i \<leftarrow> is. i \<noteq> []]"
  by (induction st a "is" rule: get_items.induct) (auto split: option.splits)

lemma elem_get_path_string:
  "(\<forall>i \<in> set is. i \<noteq> [] \<and> CHR ''/'' \<notin> set i) \<Longrightarrow>
   elem_get st a (path_string CHR ''/'' is) = get_items st a is"
  using path_items_path_string [of "is" "CHR ''/''"]
  by (simp add: elem_get_def get_items_filter [of st a "getline_items _ _"] path_items_def)

lemma get_items_append:
  "get_items st a (is @ js) = Option.bind (get_items st a is) (\<lambda>b. get_items st b js)"
  by (induction st a "is" rule: get_items.induct) (auto split: option.splits)

lemma kid_names_unique:
  "elem_ok st \<Longrightarrow> a < length st \<Longrightarrow> c \<in> set (kids (st ! a)) \<Longrightarrow> d \<in> set (kids (st ! a)) \<Longrightarrow>
   name (st ! c) = name (st ! d) \<Longrightarrow> c = d"
  using child_order.equivalent_unique [of st "kids (st ! a)" c d] elem_okD(1) [of st a]
  by (auto simp: equivalent_def child_less_name)

lemma find_kid:
  assumes "elem_ok st" "a < length st" "c \<in> set (kids (st ! a))"
  shows "find (\<lambda>d. name (st ! c) = name (st ! d)) (kids (st ! a)) = Some c"
proof -
  have "find (\<lambda>d. name (st ! c) = name (st ! d)) (kids (st ! a)) \<noteq> None"
    using assms by (auto simp: find_None_iff)
  then obtain d where d: "find (\<lambda>d. name (st ! c) = name (st ! d)) (kids (st ! a)) = Some d" by auto
  then have "d \<in> set (kids (st ! a))" "name (st ! c) = name (st ! d)"
    by (auto simp: find_Some_iff)
  with d kid_names_unique [OF assms] show ?thesis by auto
qed

lemma get_items_bound:
  "elem_ok st \<Longrightarrow> a < length st \<Longrightarrow> get_items st a is = Some b \<Longrightarrow> b < length st"
proof (induction st a "is" rule: get_items.induct)
  case (2 st a i "is")
  show ?case
  proof (cases "i = []")
    case False
    with 2(5) obtain c where c: "find (\<lambda>c. i = name (st ! c)) (kids (st ! a)) = Some c"
      "get_items st c is = Some b" by (auto split: option.splits)
    then have "c \<in> set (kids (st ! a))" by (auto simp: find_Some_iff)
    with 2(2) [OF False c(1)] c elem_okD(2) [OF 2(3,4)] 2(3) show ?thesis by blast
  qed (use 2 in auto)
qed simp

text \<open>What can be found stays where it is when elements are added.\<close>

lemma get_items_extends:
  "elem_ok st \<Longrightarrow> elem_ok st' \<Longrightarrow> extends_store st st' \<Longrightarrow> a < length st \<Longrightarrow>
   get_items st a is = Some b \<Longrightarrow> get_items st' a is = Some b"
proof (induction st a "is" rule: get_items.induct)
  case (2 st a i "is")
  note ok = 2(3) and ok' = 2(4) and ext = 2(5) and a = 2(6) and get = 2(7)
  show ?case
  proof (cases "i = []")
    case False
    with get obtain c where c: "find (\<lambda>c. i = name (st ! c)) (kids (st ! a)) = Some c"
      "get_items st c is = Some b" by (auto split: option.splits)
    then have kid: "c \<in> set (kids (st ! a))" "i = name (st ! c)" by (auto simp: find_Some_iff)
    then have cl: "c < length st" using elem_okD(2) [OF ok a] by blast
    have a': "a < length st'" using a ext by (auto simp: extends_store_def)
    have "name (st' ! c) = name (st ! c)" "c \<in> set (kids (st' ! a))"
      using ext cl a kid by (auto simp: extends_store_def)
    then have "find (\<lambda>d. i = name (st' ! d)) (kids (st' ! a)) = Some c"
      using find_kid [OF ok' a', of c] kid by simp
    with 2(2) [OF False c(1) ok ok' ext cl c(2)] False show ?thesis by simp
  qed (use 2 in auto)
qed simp

text \<open>The path of an element, as the names from the root down to it.\<close>

function names_to :: "store \<Rightarrow> nat \<Rightarrow> string list" where
  "names_to st a =
     (case backlink (st ! a) of
        None \<Rightarrow> []
      | Some p \<Rightarrow> if p < a then names_to st p @ [name (st ! a)] else [])"
  by pat_completeness auto
termination by (relation "measure snd") auto

declare names_to.simps [simp del]

lemma path_loop_names:
  "elem_ok st \<Longrightarrow> a < length st \<Longrightarrow> path_loop st a acc = Some (names_to st a @ acc)"
proof (induction a arbitrary: acc rule: less_induct)
  case (less a)
  show ?case
  proof (cases "backlink (st ! a)")
    case None
    then show ?thesis by (simp add: path_loop.simps names_to.simps)
  next
    case (Some p)
    with elem_okD(3) [OF less(2,3)] have "p < a" by simp
    with less Some show ?thesis
      by (subst path_loop.simps, subst names_to.simps) auto
  qed
qed

lemma elem_path_names: "elem_ok st \<Longrightarrow> a < length st \<Longrightarrow> elem_path st a = Some (names_to st a)"
  by (simp add: elem_path_def path_loop_names)

lemma names_to_set:
  "a < length st \<Longrightarrow> set (names_to st a) \<subseteq> name ` (\<lambda>b. st ! b) ` {1..<length st}"
proof (induction a rule: less_induct)
  case (less a)
  show ?case
  proof (cases "\<exists>p<a. backlink (st ! a) = Some p")
    case True
    then obtain p where p: "p < a" "backlink (st ! a) = Some p" by blast
    with less have "set (names_to st p) \<subseteq> name ` (\<lambda>b. st ! b) ` {1..<length st}" by simp
    moreover have "a \<in> {1..<length st}" using p less(2) by auto
    ultimately show ?thesis using p by (subst names_to.simps) auto
  next
    case False
    then have "names_to st a = []" by (subst names_to.simps) (auto split: option.splits)
    then show ?thesis by simp
  qed
qed

lemma get_items_names:
  "elem_ok st \<Longrightarrow> a < length st \<Longrightarrow> \<forall>b \<in> {1..<length st}. name (st ! b) \<noteq> [] \<Longrightarrow>
   get_items st 0 (names_to st a) = Some a"
proof (induction a rule: less_induct)
  case (less a)
  show ?case
  proof (cases "backlink (st ! a)")
    case None
    with elem_okD(4) [OF less(2,3)] show ?thesis by (simp add: names_to.simps)
  next
    case (Some p)
    with elem_okD(3) [OF less(2,3)] have p: "p < a" "a \<in> set (kids (st ! p))" by auto
    with less have "get_items st 0 (names_to st p) = Some p" by simp
    moreover have "name (st ! a) \<noteq> []" using less p by auto
    moreover have "find (\<lambda>d. name (st ! a) = name (st ! d)) (kids (st ! p)) = Some a"
      using find_kid less(2,3) p by simp
    ultimately show ?thesis using Some p
      by (subst names_to.simps) (simp add: get_items_append)
  qed
qed

end
