(* ===== verification/Element_Traverse.thy ===== *)
theory Element_Traverse
  imports Element_Tree_Correct
begin

section \<open>The traversals of the tree of named elements\<close>

text \<open>
  \<^verbatim>\<open>dfs\<close> runs its callback over the preorder and \<^verbatim>\<open>bfs\<close> over the levels. Both orders hold every
  element below the start once, with the same depth.
\<close>

definition elem_visit :: "'s elem_cb \<Rightarrow> nat \<times> u32 \<Rightarrow> 's \<Rightarrow> bool \<times> 's" where
  "elem_visit cb = (\<lambda>(a, d) s. case cb a d s of (go, s') \<Rightarrow> (\<not> go, s'))"

lemma elem_visit_pair: "elem_visit cb (a, d) s = (\<not> fst (cb a d s), snd (cb a d s))"
  by (simp add: elem_visit_def split: prod.splits)

function preorder :: "store \<Rightarrow> u32 \<Rightarrow> nat \<Rightarrow> (nat \<times> u32) list" where
  "preorder st d a =
     (a, d) # concat (map (preorder st (d + 1)) [c \<leftarrow> kids (st ! a). a < c \<and> c < length st])"
  by pat_completeness auto
termination by (relation "measure (\<lambda>(st, d, a). length st - a)") auto

declare preorder.simps [simp del]

lemma preorder_ok:
  "elem_ok st \<Longrightarrow> a < length st \<Longrightarrow>
   preorder st d a = (a, d) # concat (map (preorder st (d + 1)) (kids (st ! a)))"
proof -
  assume "elem_ok st" "a < length st"
  then have "[c \<leftarrow> kids (st ! a). a < c \<and> c < length st] = kids (st ! a)"
    unfolding filter_id_conv using elem_okD(2) by blast
  then show ?thesis by (subst preorder.simps) simp
qed

text \<open>One pointer on the stack is handled by visiting its whole subtree.\<close>

lemma dfs_loop_node:
  "elem_ok st \<Longrightarrow> a < length st \<Longrightarrow>
   dfs_loop cb st (Some a # rest) d s =
     (case run_until (elem_visit cb) (preorder st d a) s of (stop, s') \<Rightarrow>
        if stop then Some s' else dfs_loop cb st rest d s')"
proof (induction "length st - a" arbitrary: a d rest s rule: less_induct)
  case less
  note ok = less(2) and a = less(3)
  have kids: "dfs_loop cb st (map Some xs @ rest) d s =
     (case run_until (elem_visit cb) (concat (map (preorder st d) xs)) s of (stop, s') \<Rightarrow>
        if stop then Some s' else dfs_loop cb st rest d s')"
    if "set xs \<subseteq> set (kids (st ! a))" for xs d rest s
    using that
  proof (induction xs arbitrary: s)
    case (Cons x xs)
    have "a < x" "x < length st" using Cons.prems elem_okD(2) [OF ok a] by auto
    then have "dfs_loop cb st (Some x # map Some xs @ rest) d s =
     (case run_until (elem_visit cb) (preorder st d x) s of (stop, s') \<Rightarrow>
        if stop then Some s' else dfs_loop cb st (map Some xs @ rest) d s')"
      using less(1) [of x] ok a by simp
    with Cons show ?case by (auto simp: run_until_append split: prod.splits)
  qed simp
  obtain go s1 where cb: "cb a d s = (go, s1)" by fastforce
  have sep: "dfs_loop cb st (None # rest) (d + 1) s = dfs_loop cb st rest d s" for s
    by (subst dfs_loop.simps) simp
  show ?case
    using kids [of "kids (st ! a)" "None # rest" "d + 1" s1] cb
    by (subst dfs_loop.simps)
      (auto simp: preorder_ok [OF ok a] elem_visit_def sep split: prod.splits)
qed

lemma dfs_loop_nodes:
  "elem_ok st \<Longrightarrow> set xs \<subseteq> {..<length st} \<Longrightarrow>
   dfs_loop cb st (map Some xs @ rest) d s =
     (case run_until (elem_visit cb) (concat (map (preorder st d) xs)) s of (stop, s') \<Rightarrow>
        if stop then Some s' else dfs_loop cb st rest d s')"
  by (induction xs arbitrary: s) (auto simp: dfs_loop_node run_until_append split: prod.splits)

text \<open>
  The elements the two traversals visit: all below the start, and the start itself unless it has no
  name.
\<close>

definition dfs_order :: "store \<Rightarrow> nat \<Rightarrow> (nat \<times> u32) list" where
  "dfs_order st a =
     (if name (st ! a) \<noteq> [] then preorder st 0 a
      else concat (map (preorder st 0) (kids (st ! a))))"

lemma dfs_loop_end: "dfs_loop cb st [None] d s = Some s" "dfs_loop cb st [] d s = Some s"
  by (simp_all add: dfs_loop.simps)

lemma elem_dfs_run:
  assumes ok: "elem_ok st" and a: "a < length st"
  shows "elem_dfs cb st a s = Some (snd (run_until (elem_visit cb) (dfs_order st a) s))"
proof -
  have sub: "set (kids (st ! a)) \<subseteq> {..<length st}" using elem_okD(2) [OF ok a] by auto
  have "preorder st 0 a = (a, 0) # concat (map (preorder st 1) (kids (st ! a)))"
    using preorder_ok [OF ok a, of 0] by simp
  then show ?thesis
    unfolding elem_dfs_def dfs_order_def Let_def dfs_loop_nodes [OF ok sub]
    by (auto simp: elem_visit_def dfs_loop_end split: prod.splits)
qed

subsection \<open>Levels\<close>

fun at_depth :: "store \<Rightarrow> nat \<Rightarrow> nat \<Rightarrow> nat list" where
  "at_depth st 0 a = [a]"
| "at_depth st (Suc k) a = concat (map (at_depth st k) (kids (st ! a)))"

definition next_level :: "store \<Rightarrow> nat list \<Rightarrow> nat list" where
  "next_level st xs = concat (map (\<lambda>a. kids (st ! a)) xs)"

lemma at_depth_0: "concat (map (at_depth st 0) xs) = xs"
  by (induction xs) auto

lemma next_level_Nil: "next_level st [] = []"
  by (simp add: next_level_def)

lemma next_level_Cons: "next_level st (x # xs) = kids (st ! x) @ next_level st xs"
  by (simp add: next_level_def)

lemma next_level_append: "next_level st (xs @ ys) = next_level st xs @ next_level st ys"
  by (simp add: next_level_def)

lemma next_level_concat: "next_level st (concat xss) = concat (map (next_level st) xss)"
  by (induction xss) (auto simp: next_level_def)

lemma next_at_depth: "next_level st (at_depth st k a) = at_depth st (Suc k) a"
proof (induction k arbitrary: a)
  case 0
  then show ?case by (simp add: next_level_def at_depth_0)
next
  case (Suc k)
  have "next_level st (at_depth st (Suc k) a) =
    concat (map (\<lambda>c. next_level st (at_depth st k c)) (kids (st ! a)))"
    by (simp add: next_level_concat comp_def)
  also have "\<dots> = concat (map (at_depth st (Suc k)) (kids (st ! a)))"
    by (simp only: Suc)
  finally show ?case by (simp only: at_depth.simps(2))
qed

lemma at_depth_bound:
  "elem_ok st \<Longrightarrow> a < length st \<Longrightarrow> c \<in> set (at_depth st k a) \<Longrightarrow> a + k \<le> c \<and> c < length st"
proof (induction k arbitrary: a)
  case (Suc k)
  then obtain b where "b \<in> set (kids (st ! a))" "c \<in> set (at_depth st k b)" by auto
  with Suc.IH [OF Suc.prems(1), of b] elem_okD(2) [OF Suc.prems(1,2), of b] show ?case by auto
qed simp

fun levels_from :: "store \<Rightarrow> nat \<Rightarrow> u32 \<Rightarrow> nat list \<Rightarrow> (nat \<times> u32) list" where
  "levels_from st 0 d xs = []"
| "levels_from st (Suc n) d xs =
     map (\<lambda>a. (a, d)) xs @ levels_from st n (d + 1) (next_level st xs)"

lemma levels_from_at_depth:
  "levels_from st n d (at_depth st j a) =
   concat (map (\<lambda>k. map (\<lambda>b. (b, d + of_nat k)) (at_depth st (j + k) a)) [0..<n])"
proof (induction n arbitrary: d j)
  case (Suc n)
  have "[0..<Suc n] = 0 # map Suc [0..<n]" by (simp add: upt_conv_Cons map_Suc_upt)
  then show ?case
    unfolding levels_from.simps next_at_depth Suc.IH
    by (simp add: comp_def add.assoc)
qed simp

lemma levels_from_Nil: "levels_from st n d [] = []"
  by (induction n arbitrary: d) (auto simp: next_level_def)

text \<open>The queue holds the rest of a level, a separator, and the next level as far as it is known.\<close>

lemma bfs_loop_level:
  "bfs_loop cb st (map Some xs @ None # map Some ys) d s =
     (case run_until (elem_visit cb) (map (\<lambda>a. (a, d)) xs) s of (stop, s') \<Rightarrow>
        if stop then Some s'
        else if ys @ next_level st xs = [] then Some s'
        else bfs_loop cb st (map Some (ys @ next_level st xs) @ [None]) (d + 1) s')"
proof (induction xs arbitrary: ys s)
  case Nil
  then show ?case by (subst bfs_loop.simps) (simp add: next_level_def)
next
  case (Cons x xs)
  obtain go s1 where cb: "cb x d s = (go, s1)" by fastforce
  have "bfs_loop cb st (map Some (x # xs) @ None # map Some ys) d s =
    (if \<not> go then Some s1
     else bfs_loop cb st (map Some xs @ None # map Some (ys @ kids (st ! x))) d s1)"
    by (subst bfs_loop.simps) (simp add: cb)
  then show ?case
      unfolding Cons
    by (cases "run_until (elem_visit cb) (map (\<lambda>a. (a, d)) xs) s1")
      (auto simp: cb elem_visit_pair next_level_Cons)
qed

lemma bfs_loop_levels:
  assumes ok: "elem_ok st" and a: "a < length st"
  shows "bfs_loop cb st (map Some (at_depth st j a) @ [None]) d s =
    Some (snd (run_until (elem_visit cb) (levels_from st (length st - (a + j)) d (at_depth st j a)) s))"
proof (induction "length st - (a + j)" arbitrary: j d s)
  case 0
  then have "at_depth st j a = []"
    using at_depth_bound [OF ok a, of _ j] by (cases "at_depth st j a") force+
  then show ?case using 0 bfs_loop_level [of cb st "[]" "[]"] by (simp add: next_level_def)
next
  case (Suc n)
  then have n: "n = length st - (a + Suc j)" by simp
  note lvl = bfs_loop_level [of cb st "at_depth st j a" "[]" d s]
  note IH = Suc(1) [OF n, of "d + 1"]
  show ?case
    unfolding Suc(2) [symmetric] levels_from.simps next_at_depth
    using lvl IH
    by (auto simp: next_at_depth run_until_append levels_from_Nil n simp del: at_depth.simps split: prod.splits)
qed

definition bfs_order :: "store \<Rightarrow> nat \<Rightarrow> (nat \<times> u32) list" where
  "bfs_order st a =
     (if name (st ! a) \<noteq> []
      then concat (map (\<lambda>k. map (\<lambda>b. (b, of_nat k)) (at_depth st k a)) [0..<length st - a])
      else concat (map (\<lambda>k. map (\<lambda>b. (b, of_nat k)) (at_depth st (Suc k) a)) [0..<length st - Suc a]))"

lemma elem_bfs_run:
  assumes ok: "elem_ok st" and a: "a < length st"
  shows "elem_bfs cb st a s = Some (snd (run_until (elem_visit cb) (bfs_order st a) s))"
proof -
  have kids: "kids (st ! a) = at_depth st (Suc 0) a"
    by (simp add: at_depth_0)
  have named: "concat (map (\<lambda>k. map (\<lambda>b. (b, of_nat k)) (at_depth st k a)) [0..<length st - a]) =
    (a, 0) # levels_from st (length st - Suc a) 1 (at_depth st (Suc 0) a)"
    using levels_from_at_depth [of st "length st - a" 0 0 a] a
    by (simp add: Suc_diff_Suc [symmetric] next_at_depth [of st 0, simplified])
  have unnamed: "concat (map (\<lambda>k. map (\<lambda>b. (b, of_nat k)) (at_depth st (Suc k) a)) [0..<length st - Suc a]) =
    levels_from st (length st - Suc a) 0 (at_depth st (Suc 0) a)"
    by (simp add: levels_from_at_depth del: at_depth.simps)
  show ?thesis
    unfolding elem_bfs_def bfs_order_def named unnamed Let_def kids
    using bfs_loop_levels [OF ok a, of cb "Suc 0"]
    by (auto simp: elem_visit_def simp del: at_depth.simps split: prod.splits)
qed


subsection \<open>Every element is visited once\<close>

lemma at_depth_backlink:
  "elem_ok st \<Longrightarrow> a < length st \<Longrightarrow> c \<in> set (at_depth st (Suc k) a) \<Longrightarrow>
   \<exists>b. b \<in> set (at_depth st k a) \<and> backlink (st ! c) = Some b \<and> c \<in> set (kids (st ! b))"
proof -
  assume ok: "elem_ok st" and a: "a < length st" and "c \<in> set (at_depth st (Suc k) a)"
  then have "c \<in> set (next_level st (at_depth st k a))" by (simp only: next_at_depth)
  then obtain b where b: "b \<in> set (at_depth st k a)" "c \<in> set (kids (st ! b))"
    by (auto simp: next_level_def)
  with elem_okD(2) [OF ok, of b c] at_depth_bound [OF ok a b(1)] show ?thesis by auto
qed

lemma at_depth_unique:
  "elem_ok st \<Longrightarrow> a < length st \<Longrightarrow> c \<in> set (at_depth st j a) \<Longrightarrow> c \<in> set (at_depth st k a) \<Longrightarrow> j = k"
proof (induction j arbitrary: c k)
  case 0
  then show ?case using at_depth_bound [of st a c k] by auto
next
  case (Suc j)
  show ?case
  proof (cases k)
    case 0
    with Suc.prems show ?thesis using at_depth_bound [of st a c "Suc j"] by auto
  next
    case (Suc i)
    with Suc.prems obtain b where "b \<in> set (at_depth st j a)" "b \<in> set (at_depth st i a)"
      by (metis at_depth_backlink option.inject)
    with Suc.IH Suc.prems Suc show ?thesis by blast
  qed
qed

lemma kids_distinct: "elem_ok st \<Longrightarrow> a < length st \<Longrightarrow> distinct (kids (st ! a))"
  using child_order.sorted_distinct elem_okD(1) by blast

lemma next_level_distinct:
  assumes ok: "elem_ok st"
  shows "distinct xs \<Longrightarrow> set xs \<subseteq> {..<length st} \<Longrightarrow> distinct (next_level st xs)"
proof (induction xs)
  case (Cons x xs)
  have "set (kids (st ! x)) \<inter> set (next_level st xs) = {}"
  proof (rule equals0I)
    fix c assume "c \<in> set (kids (st ! x)) \<inter> set (next_level st xs)"
    then obtain y where y: "y \<in> set xs" "c \<in> set (kids (st ! y))" "c \<in> set (kids (st ! x))"
      by (auto simp: next_level_def)
    with elem_okD(2) [OF ok, of x c] elem_okD(2) [OF ok, of y c] Cons.prems have "x = y" by auto
    with y Cons.prems show False by auto
  qed
  with Cons kids_distinct [OF ok, of x] show ?case by (simp add: next_level_Cons)
qed (simp add: next_level_Nil)

lemma at_depth_distinct:
  assumes ok: "elem_ok st" and a: "a < length st"
  shows "distinct (at_depth st k a)"
proof (induction k)
  case (Suc k)
  have "set (at_depth st k a) \<subseteq> {..<length st}" using at_depth_bound [OF ok a] by auto
  with next_level_distinct [OF ok Suc] show ?case unfolding next_at_depth .
qed simp

definition levels_of :: "store \<Rightarrow> nat \<Rightarrow> nat list" where
  "levels_of st a = concat (map (\<lambda>k. at_depth st k a) [0..<length st - a])"

lemma levels_of_distinct:
  assumes ok: "elem_ok st" and a: "a < length st"
  shows "distinct (levels_of st a)"
proof -
  have "distinct (concat (map (\<lambda>k. at_depth st k a) ks))" if "distinct ks" for ks
    using that
  proof (induction ks)
    case (Cons k ks)
    then show ?case
      using at_depth_distinct [OF ok a, of k] at_depth_unique [OF ok a] by auto
  qed simp
  then show ?thesis by (simp add: levels_of_def)
qed

lemma levels_of_all:
  assumes ok: "elem_ok st"
  shows "set (levels_of st 0) = {..<length st}"
proof
  have nonempty: "0 < length st" using ok by (auto simp: elem_ok_def)
  show "set (levels_of st 0) \<subseteq> {..<length st}"
    using at_depth_bound [OF ok nonempty] by (auto simp: levels_of_def)
  have reach: "\<exists>k. c \<in> set (at_depth st k 0)" if "c < length st" for c
    using that
  proof (induction c rule: less_induct)
    case (less c)
    show ?case
    proof (cases "backlink (st ! c)")
      case None
      with elem_okD(4) [OF ok less(2)] have "c \<in> set (at_depth st 0 0)" by simp
      then show ?thesis ..
    next
      case (Some p)
      with elem_okD(3) [OF ok less(2)] have p: "p < c" "c \<in> set (kids (st ! p))" by auto
      with less obtain k where "p \<in> set (at_depth st k 0)" by fastforce
      with p have "c \<in> set (next_level st (at_depth st k 0))" by (auto simp: next_level_def)
      then have "c \<in> set (at_depth st (Suc k) 0)" by (simp only: next_at_depth)
      then show ?thesis ..
    qed
  qed
  show "{..<length st} \<subseteq> set (levels_of st 0)"
  proof
    fix c assume "c \<in> {..<length st}"
    then obtain k where k: "c \<in> set (at_depth st k 0)" using reach by auto
    with at_depth_bound [OF ok nonempty k] show "c \<in> set (levels_of st 0)"
      by (auto simp: levels_of_def)
  qed
qed

text \<open>Preorder and levels hold the same elements, each with the same depth.\<close>

lemma mset_concat_map: "mset (concat (map f xs)) = (\<Sum>x\<leftarrow>xs. mset (f x))"
  by (induction xs) auto

lemma sum_list_swap: "(\<Sum>x\<leftarrow>xs. \<Sum>k<n. f x k) = (\<Sum>k<(n::nat). \<Sum>x\<leftarrow>xs. f x k :: 'b multiset)"
  by (induction xs) (auto simp: sum.distrib)

lemma preorder_levels:
  assumes ok: "elem_ok st"
  shows "a < length st \<Longrightarrow> length st - a \<le> h \<Longrightarrow>
   mset (preorder st d a) = (\<Sum>k<h. mset (map (\<lambda>b. (b, d + of_nat k)) (at_depth st k a)))"
proof (induction h arbitrary: a d)
  case (Suc h)
  let ?f = "\<lambda>c k. mset (map (\<lambda>b. (b, d + 1 + of_nat k)) (at_depth st k c))"
  have kid: "mset (preorder st (d + 1) c) = (\<Sum>k<h. ?f c k)" if "c \<in> set (kids (st ! a))" for c
  proof -
    have "a < c" "c < length st" using that elem_okD(2) [OF ok Suc.prems(1)] by auto
    with Suc.IH [of c] Suc.prems(2) show ?thesis by simp
  qed
  have "mset (preorder st d a) = {#(a, d)#} + (\<Sum>c\<leftarrow>kids (st ! a). mset (preorder st (d + 1) c))"
    by (simp add: preorder_ok [OF ok Suc.prems(1), of d] mset_concat_map del: mset_concat)
  also have "(\<Sum>c\<leftarrow>kids (st ! a). mset (preorder st (d + 1) c)) = (\<Sum>c\<leftarrow>kids (st ! a). \<Sum>k<h. ?f c k)"
    using kid by (simp cong: map_cong)
  also have "\<dots> = (\<Sum>k<h. \<Sum>c\<leftarrow>kids (st ! a). ?f c k)"
    by (rule sum_list_swap)
  also have "\<dots> = (\<Sum>k<h. mset (map (\<lambda>b. (b, d + of_nat (Suc k))) (at_depth st (Suc k) a)))"
    by (intro sum.cong) (simp_all add: map_concat mset_concat_map comp_def add.assoc del: mset_concat mset_map)
  finally show ?case
    unfolding sum.lessThan_Suc_shift by simp
qed simp

end
