(* ===== verification/Element_Properties.thy ===== *)
theory Element_Properties
  imports Element_Traverse
begin

section \<open>What the tree of named elements promises\<close>

text \<open>
  The properties of \<^verbatim>\<open>struct Element\<close>: \<^verbatim>\<open>add\<close> keeps the links consistent and makes the element
  reachable, \<^verbatim>\<open>path\<close> and \<^verbatim>\<open>get\<close> are inverse, and the two traversals visit every element once with its
  depth, in preorder and level by level.
\<close>

definition say_store :: store where
  "say_store = fst (elem_add [root_element []] 0 ''say'')"

lemma say_store_add: "elem_add [root_element []] 0 ''say'' = (say_store, 1)"
  by (simp add: say_store_def elem_add_def root_element_def)

lemma say_store_eq:
  "say_store =
    [\<lparr>name = [], kids = [1], backlink = None\<rparr>, \<lparr>name = ''say'', kids = [], backlink = Some 0\<rparr>]"
  by (simp add: say_store_def elem_add_def root_element_def child_element_def)

lemma say_store_ok: "elem_ok say_store"
  by (rule elem_add_keeps [OF elem_ok_root _ say_store_add]) simp

lemma elem_get_single:
  assumes ok: "elem_ok st" and a: "a < length st" and c: "c \<in> set (kids (st ! a))"
    and n: "name (st ! c) = n" "n \<noteq> []" "CHR ''/'' \<notin> set n"
  shows "elem_get st a n = Some c"
  using find_kid [OF ok a c] n by (simp add: elem_get_def getline_items_no_delim)

lemma elem_get_extends:
  "elem_ok st \<Longrightarrow> elem_ok st' \<Longrightarrow> extends_store st st' \<Longrightarrow> a < length st \<Longrightarrow>
   elem_get st a p = Some b \<Longrightarrow> elem_get st' a p = Some b"
  unfolding elem_get_def by (rule get_items_extends)

text \<open>
  C5: Adding a child keeps the invariant of the tree (children sorted by name without duplicates,
  every child linked back to its parent), the child is found by its name, \<^verbatim>\<open>parent\<close> leads back, and
  every element found by some path before is found by it after.
\<close>

theorem tree_add_get:
  assumes "elem_ok st" "a < length st" "n \<noteq> []" "CHR ''/'' \<notin> set n"
    and "elem_add st a n = (st', i)"
  shows "elem_ok st' \<and> name (st' ! i) = n \<and> elem_get st' a n = Some i \<and> elem_parent st' i = Some a \<and>
    (\<forall>b p c. b < length st \<longrightarrow> elem_get st b p = Some c \<longrightarrow> elem_get st' b p = Some c)"
proof -
  note add = elem_add_ok [OF assms(1,2,5)]
  have a': "a < length st'" using add(2) assms(2) by (simp add: extends_store_def)
  have "elem_get st' a n = Some i" using elem_get_single [OF add(1) a' add(3,4) assms(3,4)] .
  moreover have "elem_parent st' i = Some a"
    using elem_okD(2) [OF add(1) a' add(3)] by (simp add: elem_parent_def)
  ultimately show ?thesis
    using add elem_get_extends [OF assms(1) add(1,2)] by blast
qed

theorem tree_add_get_witness: "elem_get say_store 0 ''say'' = Some 1 \<and> elem_parent say_store 1 = Some 0"
  using tree_add_get [OF elem_ok_root _ _ _ say_store_add] by simp

text \<open>
  C6: When no element below the root has an empty name or one with a slash, \<^verbatim>\<open>path\<close> returns for every
  element (its loop over the parents ends), and \<^verbatim>\<open>get\<close> of that path from the root is the element.
\<close>

theorem tree_path_get:
  assumes "elem_ok st" "a < length st"
    and "\<forall>b \<in> {1..<length st}. name (st ! b) \<noteq> [] \<and> CHR ''/'' \<notin> set (name (st ! b))"
  shows "\<exists>names. elem_path st a = Some names \<and> elem_get st 0 (path_string CHR ''/'' names) = Some a"
proof -
  have "\<forall>n \<in> set (names_to st a). n \<noteq> [] \<and> CHR ''/'' \<notin> set n"
    using names_to_set [OF assms(2)] assms(3) by fastforce
  with get_items_names [OF assms(1,2)] assms(3)
  have "elem_get st 0 (path_string CHR ''/'' (names_to st a)) = Some a"
    by (simp add: elem_get_path_string)
  with elem_path_names [OF assms(1,2)] show ?thesis by blast
qed

theorem tree_path_get_witness:
  "\<exists>names. elem_path say_store 1 = Some names \<and>
     elem_get say_store 0 (path_string CHR ''/'' names) = Some 1"
  by (rule tree_path_get [OF say_store_ok]) (simp_all add: say_store_eq)

subsection \<open>The traversals\<close>

lemma map_fst_levels:
  "map fst (concat (map (\<lambda>k. map (\<lambda>b. (b, f k)) (g k)) ks)) = concat (map g ks)"
  by (simp add: map_concat comp_def)

lemma bfs_order_split:
  assumes "elem_ok st" "a < length st"
  shows "levels_of st a =
    (if name (st ! a) \<noteq> [] then map fst (bfs_order st a) else a # map fst (bfs_order st a))"
proof -
  have "[0..<length st - a] = 0 # map Suc [0..<length st - Suc a]"
  proof -
    obtain n where n: "length st - a = Suc n" using assms(2) by (metis Suc_diff_Suc)
    then have "length st - Suc a = n" by simp
    with n show ?thesis by (simp add: upt_conv_Cons map_Suc_upt del: upt_Suc)
  qed
  then show ?thesis
    by (simp add: levels_of_def bfs_order_def map_fst_levels comp_def del: at_depth.simps(2))
qed

lemma mset_levels:
  "mset (concat (map f [0..<n])) = (\<Sum>k<n. mset (f k))"
  by (induction n) (auto simp: union_commute)

lemma kids_preorder_levels:
  assumes "elem_ok st" "a < length st"
  shows "mset (concat (map (preorder st 0) (kids (st ! a)))) =
    mset (concat (map (\<lambda>k. map (\<lambda>b. (b, of_nat k)) (at_depth st (Suc k) a)) [0..<length st - Suc a]))"
proof -
  let ?f = "\<lambda>c k. mset (map (\<lambda>b. (b, of_nat k :: u32)) (at_depth st k c))"
  have kid: "mset (preorder st 0 c) = (\<Sum>k<length st - Suc a. ?f c k)" if "c \<in> set (kids (st ! a))" for c
  proof -
    have "a < c" "c < length st" using that elem_okD(2) [OF assms] by auto
    with preorder_levels [OF assms(1), of c "length st - Suc a" 0] show ?thesis by simp
  qed
  have "mset (concat (map (preorder st 0) (kids (st ! a)))) =
    (\<Sum>c\<leftarrow>kids (st ! a). \<Sum>k<length st - Suc a. ?f c k)"
    using kid by (simp add: mset_concat_map del: mset_concat cong: map_cong)
  also have "\<dots> = (\<Sum>k<length st - Suc a. \<Sum>c\<leftarrow>kids (st ! a). ?f c k)"
    by (rule sum_list_swap)
  also have "\<dots> = (\<Sum>k<length st - Suc a. mset (map (\<lambda>b. (b, of_nat k)) (at_depth st (Suc k) a)))"
    by (intro sum.cong) (simp_all add: map_concat mset_concat_map comp_def del: mset_concat mset_map)
  finally show ?thesis unfolding mset_levels .
qed

lemma dfs_bfs_same:
  assumes "elem_ok st" "a < length st"
  shows "mset (dfs_order st a) = mset (bfs_order st a)"
proof (cases "name (st ! a) = []")
  case True
  with kids_preorder_levels [OF assms] show ?thesis by (simp add: dfs_order_def bfs_order_def)
next
  case False
  with preorder_levels [OF assms order_refl, of 0] show ?thesis
    unfolding dfs_order_def bfs_order_def by (simp only: mset_levels add_0_left if_True not_False_eq_True)
qed

text \<open>
  C7: Both traversals end, whatever the callback does. \<^verbatim>\<open>dfs\<close> is the callback run, until it answers
  false, over the preorder, \<^verbatim>\<open>bfs\<close> over the levels; both orders hold the same elements with the same
  depths, no element twice, and from the root all elements but a root without a name.
\<close>

theorem tree_traversals:
  assumes "elem_ok st" "a < length st"
  shows "elem_dfs cb st a s = Some (snd (run_until (elem_visit cb) (dfs_order st a) s)) \<and>
    elem_bfs cb st a s = Some (snd (run_until (elem_visit cb) (bfs_order st a) s)) \<and>
    mset (dfs_order st a) = mset (bfs_order st a) \<and>
    distinct (map fst (bfs_order st a)) \<and>
    (a = 0 \<longrightarrow> fst ` set (bfs_order st 0) = {..<length st} - (if name (st ! 0) = [] then {0} else {}))"
proof -
  note split = bfs_order_split [OF assms]
  have "distinct (map fst (bfs_order st a))"
    using levels_of_distinct [OF assms] split by (auto split: if_splits)
  moreover have "fst ` set (bfs_order st 0) = {..<length st} - (if name (st ! 0) = [] then {0} else {})"
    if a0: "a = 0"
  proof (cases "name (st ! 0) = []")
    case True
    then have l: "levels_of st 0 = 0 # map fst (bfs_order st 0)" using split a0 by simp
    have "insert 0 (fst ` set (bfs_order st 0)) = {..<length st}"
      using levels_of_all [OF assms(1)] unfolding l by simp
    moreover have "0 \<notin> fst ` set (bfs_order st 0)"
      using levels_of_distinct [OF assms(1), of 0] assms(2) a0 unfolding l by simp
    ultimately show ?thesis using True by auto
  next
    case False
    then have l: "levels_of st 0 = map fst (bfs_order st 0)" using split a0 by simp
    show ?thesis using levels_of_all [OF assms(1)] False unfolding l by simp
  qed
  ultimately show ?thesis
    by (intro conjI impI elem_dfs_run elem_bfs_run dfs_bfs_same assms)
qed

theorem tree_traversals_witness: "fst ` set (bfs_order say_store 0) = {1}"
proof -
  have "0 < length say_store" by (simp add: say_store_eq)
  from tree_traversals [OF say_store_ok this, THEN conjunct2, THEN conjunct2, THEN conjunct2, THEN conjunct2]
  have "fst ` set (bfs_order say_store 0) =
    {..<length say_store} - (if name (say_store ! 0) = [] then {0} else {})" by simp
  also have "\<dots> = {1}" by (auto simp: say_store_eq)
  finally show ?thesis .
qed

end
