(* ===== verification/Element_Copy.thy ===== *)
theory Element_Copy
  imports Element_Tree_Correct
begin

section \<open>Copies of elements\<close>

text \<open>
  The copy constructor and the assignment of \<^verbatim>\<open>Element\<close>. Copying \<^verbatim>\<open>children\<close> copies every element of the set, and
  so their children in turn; the copies are put at the end of the store, the back link is copied as it is. The
  recursion follows the children, which come later in the store than their parent; \<^const>\<open>None\<close> is a store where they
  do not. The constructor from \<^verbatim>\<open>const Element&&\<close> cannot move its parts and copies them as well.
\<close>

function copy_elem :: "store \<Rightarrow> nat \<Rightarrow> store \<Rightarrow> (store \<times> nat) option"
  and copy_kids :: "store \<Rightarrow> nat \<Rightarrow> nat list \<Rightarrow> store \<Rightarrow> (store \<times> nat list) option" where
  "copy_elem st a s =
     (case copy_kids st a (kids (st ! a)) s of
        None \<Rightarrow> None
      | Some (s, ks) \<Rightarrow> Some (s @ [\<lparr>name = name (st ! a), kids = ks, backlink = backlink (st ! a)\<rparr>], length s))"
| "copy_kids st p [] s = Some (s, [])"
| "copy_kids st p (c # cs) s =
     (if p < c \<and> c < length st
      then case copy_elem st c s of
             None \<Rightarrow> None
           | Some (s, k) \<Rightarrow> (case copy_kids st p cs s of None \<Rightarrow> None | Some (s, ks) \<Rightarrow> Some (s, k # ks))
      else None)"
  by pat_completeness auto
termination
  by (relation "measures
      [\<lambda>x. case x of Inl (st, a, s) \<Rightarrow> length st - a | Inr (st, p, cs, s) \<Rightarrow> length st - p,
       \<lambda>x. case x of Inl (st, a, s) \<Rightarrow> Suc (length (kids (st ! a))) | Inr (st, p, cs, s) \<Rightarrow> length cs]") auto

definition elem_copy :: "store \<Rightarrow> nat \<Rightarrow> (store \<times> nat) option" where
  "elem_copy st rhs = copy_elem st rhs st"

definition elem_move :: "store \<Rightarrow> nat \<Rightarrow> (store \<times> nat) option" where
  "elem_move st rhs = copy_elem st rhs st"

text \<open>
  The old children are destroyed: nothing links to them any more. A set is not changed by assigning it to itself;
  an assignment between an element and one inside it would read nodes of a set that is being cleared, and is
  \<^const>\<open>None\<close>.
\<close>

function inside :: "store \<Rightarrow> nat \<Rightarrow> nat \<Rightarrow> bool" where
  "inside st a b = (a = b \<or> list_ex (\<lambda>c. if a < c \<and> c < length st then inside st c b else False) (kids (st ! a)))"
  by pat_completeness auto
termination by (relation "measure (\<lambda>(st, a, b). length st - a)") auto

declare inside.simps [simp del]

definition elem_assign :: "store \<Rightarrow> nat \<Rightarrow> nat \<Rightarrow> store option" where
  "elem_assign st this rhs =
     (if this = rhs then Some st
      else if inside st this rhs \<or> inside st rhs this then None
      else case copy_kids st rhs (kids (st ! rhs)) st of
        None \<Rightarrow> None
      | Some (s, ks) \<Rightarrow> Some (s[this := \<lparr>name = name (st ! rhs), kids = ks, backlink = backlink (st ! rhs)\<rparr>]))"

subsection \<open>What is copied\<close>

inductive same_tree :: "store \<Rightarrow> store \<Rightarrow> nat \<Rightarrow> nat \<Rightarrow> bool" for st s where
  "c < length s \<Longrightarrow> name (s ! c) = name (st ! a) \<Longrightarrow> backlink (s ! c) = backlink (st ! a) \<Longrightarrow>
   list_all2 (same_tree st s) (kids (st ! a)) (kids (s ! c)) \<Longrightarrow> same_tree st s a c"

inductive_cases same_treeE: "same_tree st s a c"

lemma same_tree_append: "same_tree st s a c \<Longrightarrow> same_tree st (s @ xs) a c"
proof (induction rule: same_tree.induct)
  case (1 c a)
  have "list_all2 (same_tree st (s @ xs)) (kids (st ! a)) (kids (s ! c))"
    using 1(4) by (rule list_all2_mono) simp
  then show ?case using 1(1-3) by (intro same_tree.intros) (simp_all add: nth_append)
qed

lemma copy_same:
  "copy_elem st a s = Some (s', c) \<Longrightarrow> \<exists>xs. s' = s @ xs \<and> same_tree st s' a c"
  "copy_kids st p cs s = Some (s', ks) \<Longrightarrow> \<exists>xs. s' = s @ xs \<and> list_all2 (same_tree st s') cs ks"
proof (induction st a s and st p cs s arbitrary: s' c and s' ks rule: copy_elem_copy_kids.induct)
  case (1 st a s)
  from 1(2) obtain s1 ks where k: "copy_kids st a (kids (st ! a)) s = Some (s1, ks)"
    and s': "s' = s1 @ [\<lparr>name = name (st ! a), kids = ks, backlink = backlink (st ! a)\<rparr>]" "c = length s1"
    by (auto split: option.splits)
  from 1(1) [OF k] obtain xs where xs: "s1 = s @ xs" "list_all2 (same_tree st s1) (kids (st ! a)) ks" by blast
  have "list_all2 (same_tree st s') (kids (st ! a)) ks"
    using xs(2) by (rule list_all2_mono) (simp add: s' same_tree_append)
  then have "same_tree st s' a c" by (intro same_tree.intros) (simp_all add: s')
  then show ?case using xs(1) s'(1) by auto
next
  case (2 st p s)
  then show ?case by simp
next
  case (3 st p c cs s)
  from 3(3) obtain s1 k s2 ks' where a: "p < c \<and> c < length st" "copy_elem st c s = Some (s1, k)"
    "copy_kids st p cs s1 = Some (s2, ks')" "s' = s2" "ks = k # ks'"
    by (auto split: if_splits option.splits)
  from 3(1) [OF a(1,2)] obtain xs where xs: "s1 = s @ xs" "same_tree st s1 c k" by blast
  from 3(2) [OF a(1,2) refl a(3)] obtain ys where ys: "s2 = s1 @ ys" "list_all2 (same_tree st s2) cs ks'" by blast
  have "same_tree st s2 c k" using same_tree_append [OF xs(2)] ys(1) by simp
  then show ?case using a(4,5) xs(1) ys by simp
qed

lemma copy_total:
  "elem_ok st \<Longrightarrow> a < length st \<Longrightarrow> copy_elem st a s \<noteq> None"
  "elem_ok st \<Longrightarrow> \<forall>c \<in> set cs. p < c \<and> c < length st \<Longrightarrow> copy_kids st p cs s \<noteq> None"
proof (induction st a s and st p cs s rule: copy_elem_copy_kids.induct)
  case (1 st a s)
  then show ?case using elem_okD(2) [OF 1(2,3)] by (fastforce split: option.splits)
next
  case (3 st p c cs s)
  then have c: "p < c" "c < length st" "\<forall>c \<in> set cs. p < c \<and> c < length st" by auto
  then obtain s1 k where e: "copy_elem st c s = Some (s1, k)" using 3(1) [OF _ 3(3)] by fastforce
  then obtain s2 ks where "copy_kids st p cs s1 = Some (s2, ks)" using 3(2) [OF _ e refl 3(3)] c by fastforce
  then show ?case using c e by simp
qed simp

lemma same_tree_get:
  "same_tree st s a c \<Longrightarrow> (case get_items st a is of
     None \<Rightarrow> get_items s c is = None
   | Some b \<Rightarrow> \<exists>d. get_items s c is = Some d \<and> same_tree st s b d)"
proof (induction "is" arbitrary: a c)
  case (Cons i "is")
  then have kids: "list_all2 (same_tree st s) (kids (st ! a)) (kids (s ! c))" by (auto elim: same_treeE)
  have "list_all2 (same_tree st s) xs ys \<Longrightarrow>
      (case find (\<lambda>c. i = name (st ! c)) xs of
        None \<Rightarrow> find (\<lambda>c. i = name (s ! c)) ys = None
      | Some b \<Rightarrow> \<exists>d. find (\<lambda>c. i = name (s ! c)) ys = Some d \<and> same_tree st s b d)" for xs ys
  proof (induction rule: list_all2_induct)
    case (Cons x xs y ys)
    then have "name (s ! y) = name (st ! x)" by (auto elim: same_treeE)
    with Cons show ?case by (cases "i = name (st ! x)") (auto split: option.splits)
  qed simp
  note found = this [OF kids]
  show ?case
  proof (cases "find (\<lambda>c. i = name (st ! c)) (kids (st ! a))")
    case None
    then show ?thesis using found Cons.IH [OF Cons.prems] by (simp split: option.splits)
  next
    case (Some b)
    with found obtain d where "find (\<lambda>c. i = name (s ! c)) (kids (s ! c)) = Some d" "same_tree st s b d" by auto
    then show ?thesis using Some Cons.IH [of b d] Cons.IH [OF Cons.prems] by (simp split: option.splits)
  qed
qed simp

text \<open>
  Copying a tree ends and leaves the old elements as they are; in the copy the same paths lead to elements with
  the same names. But every child in the copy has the parent of its original: \<^verbatim>\<open>parent\<close> and \<^verbatim>\<open>path\<close> lead into the
  old tree.
\<close>

theorem elem_copy_tree:
  assumes "elem_ok st" "a < length st"
  shows "\<exists>s c. elem_copy st a = Some (s, c) \<and> take (length st) s = st \<and>
    (\<forall>is. map_option (\<lambda>b. name (s ! b)) (get_items s c is) = map_option (\<lambda>b. name (st ! b)) (get_items st a is)) \<and>
    (\<forall>k \<in> set (kids (s ! c)). elem_parent s k = Some a)"
proof -
  from copy_total(1) [OF assms, of st] obtain s c where c: "copy_elem st a st = Some (s, c)" by auto
  from copy_same(1) [OF c] obtain xs where s: "s = st @ xs" and same: "same_tree st s a c" by blast
  have "map_option (\<lambda>b. name (s ! b)) (get_items s c is) = map_option (\<lambda>b. name (st ! b)) (get_items st a is)" for "is"
    using same_tree_get [OF same, of "is"] by (auto split: option.splits elim: same_treeE)
  moreover have "elem_parent s k = Some a" if k: "k \<in> set (kids (s ! c))" for k
  proof -
    from same have "list_all2 (same_tree st s) (kids (st ! a)) (kids (s ! c))" by (auto elim: same_treeE)
    with k obtain b where "b \<in> set (kids (st ! a))" "same_tree st s b k"
      by (metis in_set_conv_nth list_all2_conv_all_nth)
    then show ?thesis using elem_okD(2) [OF assms] by (auto simp: elem_parent_def elim: same_treeE)
  qed
  ultimately show ?thesis using c s by (simp add: elem_copy_def)
qed

lemma elem_move_copies: "elem_move st a = elem_copy st a" by (simp add: elem_move_def elem_copy_def)

text \<open>An assignment replaces what is below the element, and nothing else of the old store.\<close>

lemma elem_assign_others:
  assumes "elem_ok st" "this < length st" "rhs < length st" "\<not> inside st this rhs" "\<not> inside st rhs this"
  shows "\<exists>s. elem_assign st this rhs = Some s \<and> name (s ! this) = name (st ! rhs) \<and>
    (\<forall>a < length st. a \<noteq> this \<longrightarrow> s ! a = st ! a)"
proof -
  have "this \<noteq> rhs" using assms(4) by (auto simp: inside.simps)
  moreover have "copy_kids st rhs (kids (st ! rhs)) st \<noteq> None"
    using copy_total(2) [OF assms(1)] elem_okD(2) [OF assms(1,3)] by blast
  then obtain s ks where k: "copy_kids st rhs (kids (st ! rhs)) st = Some (s, ks)" by auto
  moreover from copy_same(2) [OF k] obtain xs where "s = st @ xs" by blast
  ultimately show ?thesis using assms(2,4,5) by (auto simp: elem_assign_def nth_append)
qed

end
