(* ===== verification/Autocomplete.thy ===== *)
theory Autocomplete
  imports Element_Tree Element_Copy
begin

section \<open>Command completion\<close>

text \<open>
  Models \<^verbatim>\<open>autocomplete/autocomplete.cpp\<close>. Its nested \<^verbatim>\<open>struct Element\<close> is, character for character,
  the one of \<^verbatim>\<open>data_structures/tree/tree.cpp\<close> modelled in theory Element\_Tree, so its operations are
  the same functions. The environment is a parameter: the answers of \<^verbatim>\<open>getenv\<close>. A result of
  \<^const>\<open>None\<close> is a null pointer that is used; otherwise the lines printed come with the answer.
\<close>

type_synonym env = "string \<Rightarrow> string option"

definition ac_add :: "store \<Rightarrow> nat \<Rightarrow> string \<Rightarrow> store \<times> nat" where
  "ac_add = elem_add"

definition ac_add_items :: "store \<Rightarrow> nat \<Rightarrow> string list \<Rightarrow> store \<times> nat" where
  "ac_add_items = elem_add_items"

definition ac_parent :: "store \<Rightarrow> nat \<Rightarrow> nat option" where
  "ac_parent = elem_parent"

definition ac_get :: "store \<Rightarrow> nat \<Rightarrow> string \<Rightarrow> nat option" where
  "ac_get = elem_get"

text \<open>The rest of the nested class, which the program does not call.\<close>

definition ac_copy :: "store \<Rightarrow> nat \<Rightarrow> (store \<times> nat) option" where
  "ac_copy = elem_copy"

definition ac_move :: "store \<Rightarrow> nat \<Rightarrow> (store \<times> nat) option" where
  "ac_move = elem_move"

definition ac_assign :: "store \<Rightarrow> nat \<Rightarrow> nat \<Rightarrow> store option" where
  "ac_assign = elem_assign"

definition ac_elem_path :: "store \<Rightarrow> nat \<Rightarrow> string list option" where
  "ac_elem_path = elem_path"

definition ac_dfs :: "'s elem_cb \<Rightarrow> store \<Rightarrow> nat \<Rightarrow> 's \<Rightarrow> 's option" where
  "ac_dfs = elem_dfs"

definition ac_bfs :: "'s elem_cb \<Rightarrow> store \<Rightarrow> nat \<Rightarrow> 's \<Rightarrow> 's option" where
  "ac_bfs = elem_bfs"

text \<open>9 is the tab character and 63 the question mark, two of the values Bash gives \<^verbatim>\<open>COMP_TYPE\<close>.\<close>

definition is_autocomplete :: "env \<Rightarrow> bool" where
  "is_autocomplete env =
     (case env ''COMP_TYPE'' of
        None \<Rightarrow> False
      | Some comp_type \<Rightarrow> strtol10 comp_type = 9 \<or> strtol10 comp_type = 63)"

definition ac_base :: "string \<Rightarrow> string" where
  "ac_base comp_line =
     (case Option.bind (str_find CHR '' '' comp_line) (str_find_first_not_of CHR '' '' comp_line) of
        None \<Rightarrow> []
      | Some n \<Rightarrow> drop n comp_line)"

definition ac_split :: "string \<Rightarrow> string \<times> string" where
  "ac_split comp_line =
     (case str_rfind CHR '' '' comp_line of
        None \<Rightarrow> ([], comp_line)
      | Some n \<Rightarrow> (take n comp_line, drop (n + 1) comp_line))"

definition ac_path :: "string \<Rightarrow> string" where
  "ac_path complete_args =
     foldl (\<lambda>arg_path item. if item = [] then arg_path else (arg_path @ ''/'') @ item) []
       (getline_items CHR '' '' complete_args)"

definition ac_options :: "store \<Rightarrow> string \<Rightarrow> string list" where
  "ac_options st comp_line =
     (let (complete_args, pending_arg) = ac_split (ac_base comp_line)
      in case ac_get st 0 (ac_path complete_args) of
           None \<Rightarrow> []
         | Some e \<Rightarrow>
             [option \<leftarrow> map (\<lambda>c. name (st ! c)) (kids (st ! e)). starts_with option pending_arg])"

definition autocomplete :: "(store \<Rightarrow> store option) \<Rightarrow> env \<Rightarrow> (bool \<times> string list) option" where
  "autocomplete build env =
     (if is_autocomplete env then
        do { st \<leftarrow> build [root_element []];
             comp_line \<leftarrow> env ''COMP_LINE'';
             Some (True, ac_options st comp_line) }
      else Some (False, []))"

subsection \<open>The sample program\<close>

definition ac_add_value_type :: "string \<Rightarrow> store \<times> nat \<Rightarrow> (store \<times> nat) option" where
  "ac_add_value_type n = (\<lambda>(st, e).
     do { (st, x) \<leftarrow> Some (ac_add st e n);
          (st, v) \<leftarrow> Some (ac_add st x ''value'');
          x \<leftarrow> ac_parent st v;
          (st, t) \<leftarrow> Some (ac_add st x ''type'');
          x \<leftarrow> ac_parent st t;
          e \<leftarrow> ac_parent st x;
          Some (st, e) })"

definition ac_build :: "store \<Rightarrow> store option" where
  "ac_build elements =
     do { st \<leftarrow> Some (fst (ac_add_items elements 0 [''say'', ''show'', ''get'', ''work'']));
          e \<leftarrow> ac_get st 0 ''show'';
          st \<leftarrow> Some (fst (ac_add_items st e [''usage'', ''time'', ''dir'']));
          e \<leftarrow> ac_get st 0 ''show/dir'';
          st \<leftarrow> Some (fst (ac_add_items st e [''binary'', ''working'']));
          e \<leftarrow> ac_get st 0 ''get'';
          (st, e) \<leftarrow> ac_add_value_type ''x'' (st, e);
          (st, e) \<leftarrow> ac_add_value_type ''y'' (st, e);
          (st, e) \<leftarrow> ac_add_value_type ''z'' (st, e);
          Some st }"

fun ac_join :: "string list \<Rightarrow> string" where
  "ac_join [] = []"
| "ac_join [a] = a"
| "ac_join (a # as) = a @ '', '' @ ac_join as"

definition ac_main :: "env \<Rightarrow> string list \<Rightarrow> string list option" where
  "ac_main env args =
     do { (done, printed) \<leftarrow> autocomplete ac_build env;
          Some (if done then printed else [''Processing: {'' @ ac_join args @ ''}'']) }"

end
