(* ===== verification/Autocomplete_Properties.thy ===== *)
theory Autocomplete_Properties
  imports Autocomplete Element_Properties
begin

section \<open>What command completion promises\<close>

text \<open>
  The properties of \<^verbatim>\<open>autocomplete/autocomplete.cpp\<close>: for a command line of a command, complete words
  and a pending word, exactly the children of the element the words lead to that extend the pending
  word are printed; and the output of \<^verbatim>\<open>main\<close> of the tree program, which builds the same tree.
\<close>

definition comp_line_of :: "string \<Rightarrow> string list \<Rightarrow> string \<Rightarrow> string" where
  "comp_line_of cmd ws pending = cmd @ path_string CHR '' '' ws @ CHR '' '' # pending"

definition words_of :: "string list \<Rightarrow> string \<Rightarrow> string" where
  "words_of ws pending = tl (path_string CHR '' '' ws @ CHR '' '' # pending)"

lemma comp_line_of_words: "comp_line_of cmd ws pending = cmd @ CHR '' '' # words_of ws pending"
  by (cases ws) (auto simp: comp_line_of_def words_of_def path_string_def)

lemma ac_base_words:
  assumes "CHR '' '' \<notin> set cmd" "rest = [] \<or> hd rest \<noteq> CHR '' ''"
  shows "ac_base (cmd @ CHR '' '' # rest) = rest"
proof -
  have "dropWhile (\<lambda>x. x = CHR '' '') rest = rest" using assms(2) by (cases rest) auto
  then have "str_find_first_not_of CHR '' '' (cmd @ CHR '' '' # rest) (length cmd) =
    (if rest = [] then None else Some (length cmd + 1))"
    by (simp add: str_find_first_not_of_def)
  with str_find_at [OF assms(1), of rest] show ?thesis by (simp add: ac_base_def)
qed

lemma ac_split_words:
  assumes "CHR '' '' \<notin> set pending" "\<forall>w \<in> set ws. w \<noteq> [] \<and> CHR '' '' \<notin> set w"
  shows "\<exists>complete. ac_split (words_of ws pending) = (complete, pending) \<and>
    path_items CHR '' '' complete = ws"
proof (cases ws)
  case Nil
  then show ?thesis using assms str_rfind_None [of "CHR '' ''" pending]
    by (simp add: words_of_def path_string_def ac_split_def path_items_def)
next
  case (Cons w ws')
  let ?complete = "w @ path_string CHR '' '' ws'"
  have "words_of ws pending = ?complete @ CHR '' '' # pending"
    using Cons by (simp add: words_of_def path_string_def)
  moreover have "str_rfind CHR '' '' (?complete @ CHR '' '' # pending) = Some (length ?complete)"
    using assms(1) by (rule str_rfind_at)
  ultimately have "ac_split (words_of ws pending) = (?complete, pending)"
    by (simp add: ac_split_def)
  moreover have "path_items CHR '' '' ?complete = ws"
    using Cons assms(2) by (simp add: path_items_join)
  ultimately show ?thesis by blast
qed

lemma ac_path_items: "ac_path s = path_string CHR ''/'' (path_items CHR '' '' s)"
proof -
  have "foldl (\<lambda>arg_path item. if item = [] then arg_path else (arg_path @ ''/'') @ item) acc is =
    acc @ path_string CHR ''/'' [i \<leftarrow> is. i \<noteq> []]" for acc "is"
    by (induction "is" arbitrary: acc) (auto simp: path_string_def)
  then show ?thesis by (simp add: ac_path_def path_items_def)
qed

lemma starts_with_append: "starts_with s b \<longleftrightarrow> (\<exists>t. s = b @ t)"
  by (metis append_eq_conv_conj append_take_drop_id starts_with_def)

lemma hd_words_of:
  "CHR '' '' \<notin> set pending \<Longrightarrow> \<forall>w \<in> set ws. w \<noteq> [] \<and> CHR '' '' \<notin> set w \<Longrightarrow>
   words_of ws pending = [] \<or> hd (words_of ws pending) \<noteq> CHR '' ''"
  by (cases ws; cases pending) (auto simp: words_of_def path_string_def neq_Nil_conv)

lemma ac_options_words:
  assumes "CHR '' '' \<notin> set cmd" "CHR '' '' \<notin> set pending"
    and words: "\<forall>w \<in> set ws. w \<noteq> [] \<and> CHR '' '' \<notin> set w \<and> CHR ''/'' \<notin> set w"
  shows "ac_options st (comp_line_of cmd ws pending) =
    (case get_items st 0 ws of
       None \<Rightarrow> []
     | Some e \<Rightarrow> [n \<leftarrow> map (\<lambda>c. name (st ! c)) (kids (st ! e)). \<exists>t. n = pending @ t])"
proof -
  have *: "\<forall>w \<in> set ws. w \<noteq> [] \<and> CHR '' '' \<notin> set w" using words by blast
  from ac_split_words [OF assms(2) *] obtain complete where
    "ac_split (words_of ws pending) = (complete, pending)" "path_items CHR '' '' complete = ws" by blast
  moreover have "ac_base (comp_line_of cmd ws pending) = words_of ws pending"
    unfolding comp_line_of_words by (rule ac_base_words [OF assms(1) hd_words_of [OF assms(2) *]])
  moreover have "elem_get st 0 (path_string CHR ''/'' ws) = get_items st 0 ws"
    using words by (intro elem_get_path_string) blast
  ultimately show ?thesis
    by (simp add: ac_options_def ac_get_def ac_path_items starts_with_append cong: option.case_cong)
qed

lemma kid_names_sorted:
  "elem_ok st \<Longrightarrow> a < length st \<Longrightarrow> sorted_wrt (<) (map (\<lambda>c. name (st ! c)) (kids (st ! a)))"
  unfolding sorted_wrt_map using elem_okD(1) [of st a]
  by (auto simp: child_less_name intro: sorted_wrt_mono_rel [rotated])

lemma sorted_filter_kid_names:
  assumes "elem_ok st" "get_items st 0 ws = Some e"
  shows "sorted_wrt (<) [n \<leftarrow> map (\<lambda>c. name (st ! c)) (kids (st ! e)). P n]"
proof -
  have "0 < length st" using assms(1) by (auto simp: elem_ok_def)
  with assms have "e < length st" using get_items_bound by blast
  from kid_names_sorted [OF assms(1) this] show ?thesis by (rule sorted_wrt_filter)
qed

text \<open>
  C8: On a command line that is a command, complete words and a pending word, each after one space,
  a completion request prints the names of the children of the element the words lead to that extend
  the pending word, in ascending order and none twice, and nothing when the words lead nowhere.
\<close>

theorem ac_completes:
  assumes "CHR '' '' \<notin> set cmd" "CHR '' '' \<notin> set pending"
    and "\<forall>w \<in> set ws. w \<noteq> [] \<and> CHR '' '' \<notin> set w \<and> CHR ''/'' \<notin> set w"
    and "env ''COMP_TYPE'' = Some ''9''" "env ''COMP_LINE'' = Some (comp_line_of cmd ws pending)"
    and "build [root_element []] = Some st" "elem_ok st"
  shows "\<exists>out. autocomplete build env = Some (True, out) \<and> sorted_wrt (<) out \<and>
    set out = {n. \<exists>e c. get_items st 0 ws = Some e \<and> c \<in> set (kids (st ! e)) \<and>
                       n = name (st ! c) \<and> (\<exists>t. n = pending @ t)}"
proof -
  have "is_autocomplete env" using assms(4) by (simp add: is_autocomplete_def) code_simp
  then have run: "autocomplete build env = Some (True, ac_options st (comp_line_of cmd ws pending))"
    using assms by (simp add: autocomplete_def)
  have "sorted_wrt (<) (ac_options st (comp_line_of cmd ws pending))"
    using sorted_filter_kid_names [OF assms(7), of ws]
    by (simp add: ac_options_words [OF assms(1-3)] split: option.split)
  with run show ?thesis
    by (auto simp: ac_options_words [OF assms(1-3)] split: option.splits)
qed

theorem ac_completes_witness:
  "\<exists>out. autocomplete (\<lambda>st. Some (fst (elem_add st 0 ''say'')))
      [''COMP_TYPE'' \<mapsto> ''9'', ''COMP_LINE'' \<mapsto> ''ac sa''] = Some (True, out) \<and> set out = {''say''}"
  using ac_completes [of "''ac''" "''sa''" "[]" "[''COMP_TYPE'' \<mapsto> ''9'', ''COMP_LINE'' \<mapsto> ''ac sa'']"
      "\<lambda>st. Some (fst (elem_add st 0 ''say''))" say_store] say_store_ok
  by (auto simp: comp_line_of_def path_string_def say_store_def [symmetric]) 
    (auto simp: say_store_eq)

text \<open>
  The program that builds the sample tree dereferences no null pointer and prints, for each of
  its four traversals, the levels and paths listed here.
\<close>

theorem tree_main_output:
  "map_option (map (map (\<lambda>(l, n, p). (unat l, map_option (path_string CHR ''/'') p)))) tree_main =
   Some (map (map (map_prod id Some))
     [[(0, ''/get''), (1, ''/get/x''), (2, ''/get/x/type''), (2, ''/get/x/value''),
       (1, ''/get/y''), (2, ''/get/y/type''), (2, ''/get/y/value''),
       (1, ''/get/z''), (2, ''/get/z/type''), (2, ''/get/z/value''), (0, ''/say''), (0, ''/show''),
       (1, ''/show/dir''), (2, ''/show/dir/binary''), (2, ''/show/dir/working''),
       (1, ''/show/time''), (1, ''/show/usage''), (0, ''/work'')],
      [(0, ''/show''), (1, ''/show/dir''), (2, ''/show/dir/binary''), (2, ''/show/dir/working''),
       (1, ''/show/time''), (1, ''/show/usage'')],
      [(0, ''/get''), (0, ''/say''), (0, ''/show''), (0, ''/work''),
       (1, ''/get/x''), (1, ''/get/y''), (1, ''/get/z''), (1, ''/show/dir''), (1, ''/show/time''),
       (1, ''/show/usage''), (2, ''/get/x/type''), (2, ''/get/x/value''), (2, ''/get/y/type''),
       (2, ''/get/y/value''), (2, ''/get/z/type''), (2, ''/get/z/value''),
       (2, ''/show/dir/binary''), (2, ''/show/dir/working'')],
      [(0, ''/show''), (1, ''/show/dir''), (1, ''/show/time''), (1, ''/show/usage''),
       (2, ''/show/dir/binary''), (2, ''/show/dir/working'')]])"
  by code_simp

end
