(* ===== verification/Error_Stack.thy ===== *)
theory Error_Stack
  imports Prelude
begin

section \<open>Errors and error stacks\<close>

text \<open>
  Models \<^verbatim>\<open>error_stack/error.hpp\<close>, \<^verbatim>\<open>error_stack/error.cpp\<close> and the checks of \<^verbatim>\<open>error_stack/main.cpp\<close>.
  Codes are 32-bit. What \<^verbatim>\<open>vsnprintf\<close> makes of a format is a parameter: the text, or \<^const>\<open>None\<close>
  when it reports an error.
\<close>

record err =
  err_code :: u32
  err_tag :: string
  err_description :: string

definition code_none :: u32 where
  "code_none = 0xFFFFFFFF"

definition code_failure :: u32 where
  "code_failure = 1"

definition error_tag :: "u32 \<Rightarrow> string" where
  "error_tag c = ''Generic error''"

definition error_default :: err where
  "error_default = \<lparr>err_code = code_none, err_tag = [], err_description = []\<rparr>"

definition error_of_code :: "u32 \<Rightarrow> err" where
  "error_of_code c = \<lparr>err_code = c, err_tag = error_tag c, err_description = []\<rparr>"

definition error_of_parts :: "u32 \<Rightarrow> string \<Rightarrow> string \<Rightarrow> err" where
  "error_of_parts c t d = \<lparr>err_code = c, err_tag = t, err_description = d\<rparr>"

text \<open>The two constructor templates, for an enumeration whose \<^verbatim>\<open>error_tag\<close> is the first argument.\<close>

definition error_of_enum :: "(u32 \<Rightarrow> string) \<Rightarrow> u32 \<Rightarrow> err" where
  "error_of_enum tag_of c = \<lparr>err_code = c, err_tag = tag_of c, err_description = []\<rparr>"

definition error_formatted :: "(u32 \<Rightarrow> string) \<Rightarrow> u32 \<Rightarrow> string option \<Rightarrow> err" where
  "error_formatted tag_of c printed =
     (let e = error_of_enum tag_of c
      in case printed of
           None \<Rightarrow> e
         | Some text \<Rightarrow> if 0 < length text then e\<lparr>err_description := text\<rparr> else e)"

definition error_assign :: "err \<Rightarrow> err \<Rightarrow> err" where
  "error_assign this e =
     this\<lparr>err_code := err_code e, err_tag := err_tag e, err_description := err_description e\<rparr>"

definition error_eq :: "err \<Rightarrow> err \<Rightarrow> bool" where
  "error_eq a b \<longleftrightarrow> err_code a = err_code b \<and> err_tag a = err_tag b"

definition error_neq :: "err \<Rightarrow> err \<Rightarrow> bool" where
  "error_neq a b \<longleftrightarrow> \<not> error_eq a b"

definition error_set_tag :: "err \<Rightarrow> string \<Rightarrow> err" where
  "error_set_tag this t = this\<lparr>err_tag := t\<rparr>"

definition error_empty :: "err \<Rightarrow> bool" where
  "error_empty this \<longleftrightarrow> err_code this = code_none"

definition error_clear :: "err \<Rightarrow> err" where
  "error_clear this = this\<lparr>err_code := code_none, err_tag := [], err_description := []\<rparr>"

definition error_to_string :: "err \<Rightarrow> string" where
  "error_to_string this =
     err_tag this @ '' ('' @ string_of_nat (unat (err_code this)) @ '') '' @ err_description this"

subsection \<open>The stack\<close>

type_synonym err_stack = "err list"

definition stack_new :: err_stack where
  "stack_new = []"

text \<open>The moves take a \<^verbatim>\<open>const\<close> reference and copy.\<close>

definition stack_copy :: "err_stack \<Rightarrow> err_stack" where
  "stack_copy e = e"

definition stack_move :: "err_stack \<Rightarrow> err_stack" where
  "stack_move e = e"

definition stack_assign :: "err_stack \<Rightarrow> err_stack \<Rightarrow> err_stack" where
  "stack_assign this e = e"

definition stack_move_assign :: "err_stack \<Rightarrow> err_stack \<Rightarrow> err_stack" where
  "stack_move_assign this e = e"

definition stack_items :: "err_stack \<Rightarrow> err list" where
  "stack_items this = this"

definition stack_swap :: "err_stack \<Rightarrow> err_stack \<Rightarrow> err_stack \<times> err_stack" where
  "stack_swap this e = (e, this)"

definition stack_empty :: "err_stack \<Rightarrow> bool" where
  "stack_empty this \<longleftrightarrow> this = []"

definition stack_size :: "err_stack \<Rightarrow> nat" where
  "stack_size this = length this"

definition stack_push :: "err_stack \<Rightarrow> err \<Rightarrow> err_stack" where
  "stack_push this e = this @ [e]"

definition stack_top :: "err_stack \<Rightarrow> err" where
  "stack_top this = (if this = [] then error_default else last this)"

definition stack_clear :: "err_stack \<Rightarrow> err_stack" where
  "stack_clear this = []"

fun to_string_loop :: "string \<Rightarrow> nat \<Rightarrow> err list \<Rightarrow> string" where
  "to_string_loop out n [] = out"
| "to_string_loop out n (i # is) =
     (let out = (if out \<noteq> [] then out @ [CHR 0x0A] else out);
          l = ''['' @ string_of_nat n @ ''] '' @ error_to_string i
      in to_string_loop (out @ l) (n + 1) is)"

definition stack_to_string :: "err_stack \<Rightarrow> string" where
  "stack_to_string this = to_string_loop [] 1 this"

subsection \<open>The checks of the program\<close>

definition test_error_tag :: "u32 \<Rightarrow> string" where
  "test_error_tag c = ''Test''"

definition error_main :: "bool list" where
  "error_main =
     (let e0 = error_default;
          e1 = error_assign e0 (error_of_code code_failure);
          e2 = error_assign e1 (error_formatted error_tag code_failure (Some ''Error format check 1''));
          e3 = error_clear e2;
          e4 = error_assign e2 (error_formatted test_error_tag 3 (Some ''access denied''));
          s0 = stack_new;
          s1 = stack_push s0 (error_of_code code_failure);
          s2 = stack_push s1 (error_formatted test_error_tag 2 (Some ''no data''));
          s3 = stack_clear s2
      in [error_empty e0,
          \<not> error_empty e1, err_code e1 = code_failure, err_tag e1 = error_tag code_failure,
          err_description e2 = ''Error format check 1'',
          error_to_string e2 = ''Generic error (1) Error format check 1'',
          error_eq e2 e2, error_empty e3, error_neq e2 e3,
          error_to_string e4 = ''Test (3) access denied'',
          stack_empty s0, stack_size s0 = 0, stack_size s2 = 2, err_code (stack_top s2) = 2,
          stack_to_string s2 = ''[1] Generic error (1) '' @ [CHR 0x0A] @ ''[2] Test (2) no data'',
          stack_size s3 = 0, stack_empty s3])"

subsection \<open>Properties\<close>

definition numbered_line :: "nat \<Rightarrow> err \<Rightarrow> string" where
  "numbered_line n e = ''['' @ string_of_nat n @ ''] '' @ error_to_string e"

lemma to_string_loop_step:
  "to_string_loop out n (e # es) =
     to_string_loop ((if out \<noteq> [] then out @ [CHR 0x0A] else out) @ numbered_line n e) (n + 1) es"
  by (simp add: numbered_line_def)

lemma numbered_line_nonempty: "numbered_line n e \<noteq> []"
  by (simp add: numbered_line_def)

lemma to_string_loop_lines:
  "to_string_loop out n es =
     out @ (if out = [] \<and> es \<noteq> [] then tl else id)
       (path_string (CHR 0x0A) (map (\<lambda>(k, e). numbered_line (n + k) e) (enumerate 0 es)))"
proof (induction es arbitrary: out n)
  case (Cons e es)
  have shift: "map (\<lambda>(k, e). numbered_line (n + k) e) (enumerate (Suc 0) es) =
    map (\<lambda>(k, e). numbered_line (n + 1 + k) e) (enumerate 0 es)"
    by (simp add: enumerate_Suc_eq comp_def split_def)
  have enum: "enumerate 0 (e # es) = (0, e) # enumerate (Suc 0) es" by simp
  show ?case
    unfolding enum list.map shift to_string_loop_step Cons [of _ "n + 1"]
    by (simp add: path_string_def numbered_line_nonempty)
qed (simp add: path_string_def)

lemma numeral_no_newline: "CHR 0x0A \<notin> set (string_of_nat n)"
proof
  assume "CHR 0x0A \<in> set (string_of_nat n)"
  with string_of_nat_digits have "is_digit (CHR 0x0A)" by blast
  then show False by (simp add: is_digit_def)
qed

lemma numbered_line_clean:
  "CHR 0x0A \<notin> set (err_tag e) \<Longrightarrow> CHR 0x0A \<notin> set (err_description e) \<Longrightarrow>
   numbered_line n e \<noteq> [] \<and> CHR 0x0A \<notin> set (numbered_line n e)"
  using numeral_no_newline by (simp add: numbered_line_def error_to_string_def)

text \<open>
  When no tag or description holds a line break, reading the text of an error stack line by line
  gives back the errors from the oldest to the newest, each numbered from 1.
\<close>

theorem stack_to_string_lines:
  assumes "\<forall>e \<in> set st. CHR 0x0A \<notin> set (err_tag e) \<and> CHR 0x0A \<notin> set (err_description e)"
  shows "getline_items (CHR 0x0A) (stack_to_string st) =
    map (\<lambda>(k, e). ''['' @ string_of_nat (k + 1) @ ''] '' @ error_to_string e) (enumerate 0 st)"
proof (cases st)
  case Nil
  then show ?thesis by (simp add: stack_to_string_def)
next
  case (Cons e es)
  let ?lines = "map (\<lambda>(k, e). numbered_line (1 + k) e) (enumerate 0 st)"
  let ?rest = "map (\<lambda>(k, e). numbered_line (1 + k) e) (enumerate 1 es)"
  have lines: "?lines = numbered_line 1 e # ?rest" using Cons by simp
  have clean: "\<forall>l \<in> set ?lines. l \<noteq> [] \<and> CHR 0x0A \<notin> set l"
    using assms numbered_line_clean by (auto simp: in_set_enumerate_eq)
  have "stack_to_string st = numbered_line 1 e @ path_string (CHR 0x0A) ?rest"
    unfolding stack_to_string_def to_string_loop_lines lines by (simp add: Cons path_string_def)
  then have "getline_items (CHR 0x0A) (stack_to_string st) = ?lines"
    using getline_items_join [of "numbered_line 1 e" ?rest] clean unfolding lines by simp
  then show ?thesis by (simp add: numbered_line_def)
qed

theorem stack_to_string_lines_witness:
  "getline_items (CHR 0x0A) (stack_to_string [error_of_code 1, error_of_parts 7 ''Test'' ''no data'']) =
    [''[1] Generic error (1) '', ''[2] Test (7) no data'']"
  using stack_to_string_lines [of "[error_of_code 1, error_of_parts 7 ''Test'' ''no data'']"]
  by (simp add: error_of_code_def error_of_parts_def error_tag_def) code_simp

text \<open>
  An error stack is last-in first-out for \<^verbatim>\<open>top\<close>: after pushes the newest error is on top, an
  empty or cleared stack shows the empty error, and equality of errors is an equivalence that ignores
  the description. All assertions of the program hold.
\<close>

theorem stack_behaviour:
  "stack_top (foldl stack_push stack_new (es @ [e])) = e \<and>
   stack_size (foldl stack_push stack_new es) = length es \<and>
   error_empty (stack_top (stack_clear st)) \<and>
   (error_eq a b \<longleftrightarrow> error_eq (a\<lparr>err_description := d\<rparr>) b) \<and>
   equivp error_eq \<and>
   (error_empty a \<longleftrightarrow> error_eq (a\<lparr>err_tag := []\<rparr>) error_default) \<and>
   error_main = replicate 17 True"
proof -
  have push: "foldl stack_push st es = st @ es" for st es
    by (induction es arbitrary: st) (auto simp: stack_push_def)
  have "error_main = replicate 17 True" by code_simp
  then show ?thesis
    by (auto simp: push [of "[]"] stack_push_def stack_top_def stack_size_def stack_new_def stack_clear_def error_empty_def
        error_eq_def error_default_def intro!: equivpI reflpI sympI transpI)
qed

end
