(* ===== verification/Error_Category.thy ===== *)
theory Error_Category
  imports Main
begin

section \<open>A custom error category\<close>

text \<open>
  Models \<^verbatim>\<open>error_code/error_code.cpp\<close>. The enumeration has the fixed underlying type \<^verbatim>\<open>int\<close>, so any
  \<^verbatim>\<open>int\<close> is a value of it; values are integers here, as nothing is computed with them. Categories are
  compared by identity.
\<close>

datatype category = MyErrorCategory | OtherCategory nat

record error_value =
  ev_value :: int
  ev_category :: category

abbreviation OK :: int where "OK \<equiv> 0"
abbreviation Client :: int where "Client \<equiv> 1"
abbreviation ClientAbort :: int where "ClientAbort \<equiv> 2"
abbreviation Server :: int where "Server \<equiv> 100"
abbreviation ServerBusy :: int where "ServerBusy \<equiv> 101"
abbreviation Ipc :: int where "Ipc \<equiv> 200"
abbreviation IpcTimeout :: int where "IpcTimeout \<equiv> 201"
abbreviation IpcRead :: int where "IpcRead \<equiv> 202"
abbreviation IpcWrite :: int where "IpcWrite \<equiv> 203"
abbreviation Other :: int where "Other \<equiv> 300"

definition category_name :: string where
  "category_name = ''My Error''"

definition make_error_condition :: "int \<Rightarrow> error_value" where
  "make_error_condition e = \<lparr>ev_value = e, ev_category = MyErrorCategory\<rparr>"

definition default_error_condition :: "int \<Rightarrow> error_value" where
  "default_error_condition v =
     (if v = OK then make_error_condition OK
      else if v \<ge> Client \<and> v < Server then make_error_condition Client
      else if v \<ge> Server \<and> v < Ipc then make_error_condition Server
      else if v \<ge> Ipc \<and> v < Other then make_error_condition Ipc
      else make_error_condition Other)"

definition category_equivalent :: "error_value \<Rightarrow> int \<Rightarrow> bool" where
  "category_equivalent code condition \<longleftrightarrow>
     MyErrorCategory = ev_category code \<and>
     ev_value (default_error_condition (ev_value code)) = condition"

definition category_message :: "int \<Rightarrow> string" where
  "category_message v =
     (if v = ClientAbort then ''Client abort''
      else if v = ServerBusy then ''Server busy''
      else if v = IpcTimeout then ''IPC timeout''
      else if v = IpcRead then ''IPC read''
      else if v = IpcWrite then ''IPC write''
      else if v \<ge> Client \<and> v < Server then ''Client error''
      else if v \<ge> Server \<and> v < Ipc then ''Server error''
      else if v \<ge> Ipc \<and> v < Other then ''IPC error''
      else ''Unknown error'')"

definition category_main :: "string list" where
  "category_main = map category_message [ClientAbort, ServerBusy, IpcRead, 222, 567]"

subsection \<open>Properties\<close>

definition class_prefix :: "int \<Rightarrow> string" where
  "class_prefix c =
     (if c = Client then ''Client '' else if c = Server then ''Server ''
      else if c = Ipc then ''IPC '' else ''Unknown error'')"

text \<open>
  The conditions sort the codes of the category into five classes: every code is equivalent to
  one condition, that condition is its own default, a code of another category is equivalent to
  none, and the message of a code begins with the name of its class. The messages of the
  program are those listed.
\<close>

theorem error_classes:
  "ev_value (default_error_condition v) \<in> {OK, Client, Server, Ipc, Other} \<and>
   default_error_condition (ev_value (default_error_condition v)) = default_error_condition v \<and>
   (\<exists>!c. category_equivalent \<lparr>ev_value = v, ev_category = MyErrorCategory\<rparr> c) \<and>
   \<not> category_equivalent \<lparr>ev_value = v, ev_category = OtherCategory k\<rparr> c \<and>
   take (length (class_prefix (ev_value (default_error_condition v)))) (category_message v) =
     class_prefix (ev_value (default_error_condition v)) \<and>
   category_main = [''Client abort'', ''Server busy'', ''IPC read'', ''IPC error'', ''Unknown error'']"
proof -
  have "category_main = [''Client abort'', ''Server busy'', ''IPC read'', ''IPC error'', ''Unknown error'']"
    by (simp add: category_main_def category_message_def)
  then show ?thesis
    by (simp add: default_error_condition_def make_error_condition_def category_equivalent_def
        category_message_def class_prefix_def)
qed

end
