(* ===== verification/Moving_Average.thy ===== *)
theory Moving_Average
  imports Prelude
begin

section \<open>The simple moving average\<close>

text \<open>
  Models \<^verbatim>\<open>SimpleMovingAverage\<close> of \<^verbatim>\<open>math/simple_moving_average.cpp\<close> for its two integer instances. The
  division in \<^verbatim>\<open>get\<close> has an operand of type \<^verbatim>\<open>T\<close> and one of type \<^verbatim>\<open>size_t\<close>: the sum is converted to 64 bits
  unsigned, and the quotient back to \<^verbatim>\<open>T\<close>. An overflow of the signed sum and a division by zero have no
  defined result: \<^const>\<open>None\<close>. The size of the list is taken modulo nothing: it cannot reach \<open>2 ^ 64\<close>.
\<close>

record 'a sma =
  window_size :: u64
  items :: "'a list"

definition sma_new :: "u64 \<Rightarrow> 'a sma" where
  "sma_new w = \<lparr>window_size = w, items = []\<rparr>"

definition sma_put :: "'a sma \<Rightarrow> 'a \<Rightarrow> 'a sma" where
  "sma_put this value =
     (let q = items this @ [value]
      in if length q > unat (window_size this) then this\<lparr>items := tl q\<rparr> else this\<lparr>items := q\<rparr>)"

definition sma_divisor :: "'a sma \<Rightarrow> u64" where
  "sma_divisor this =
     (let n = length (items this)
      in if n \<noteq> 0 \<and> n < unat (window_size this) then of_nat n else window_size this)"

text \<open>The instance for \<^verbatim>\<open>unsigned\<close>: the sum wraps.\<close>

definition sma_get_uint :: "u32 sma \<Rightarrow> u32 option" where
  "sma_get_uint this =
     (let ret = foldl (+) 0 (items this)
      in if sma_divisor this = 0 then None else Some (ucast ((ucast ret :: u64) div sma_divisor this)))"

text \<open>The instance for \<^verbatim>\<open>int\<close>.\<close>

definition add_int :: "int \<Rightarrow> int \<Rightarrow> int option" where
  "add_int a b = (if - (2 ^ 31) \<le> a + b \<and> a + b < 2 ^ 31 then Some (a + b) else None)"

fun sum_int :: "int \<Rightarrow> int list \<Rightarrow> int option" where
  "sum_int ret [] = Some ret"
| "sum_int ret (i # is) = do { ret \<leftarrow> add_int ret i; sum_int ret is }"

definition sma_get_int :: "int sma \<Rightarrow> int option" where
  "sma_get_int this =
     do { ret \<leftarrow> sum_int 0 (items this);
          if sma_divisor this = 0 then None
          else Some (sint (ucast ((of_int ret :: u64) div sma_divisor this) :: u32)) }"

text \<open>
  The tests call \<^verbatim>\<open>put\<close> and \<^verbatim>\<open>get\<close> through a pointer to the base class, and neither is virtual: for both
  values of their parameter, the plain average is what is tested.
\<close>

definition sma_trace :: "('a sma \<Rightarrow> 'b option) \<Rightarrow> 'a sma \<Rightarrow> 'a list \<Rightarrow> 'b option list" where
  "sma_trace get avg vs = map (\<lambda>n. get (foldl sma_put avg (take n vs))) [0..<length vs + 1]"

definition test_int :: "int option list" where
  "test_int = sma_trace sma_get_int (sma_new 3) [2, 6, 10, -1, 2, 14]"

definition test_uint :: "u32 option list" where
  "test_uint = sma_trace sma_get_uint (sma_new 3) [2, 6, 10, 1, 2, 14]"

subsection \<open>Properties\<close>

lemma tl_drop_snoc: "n \<le> length xs \<Longrightarrow> tl (drop n xs @ [x]) = drop (Suc n) (xs @ [x])"
proof -
  assume "n \<le> length xs"
  then have "drop n xs @ [x] = drop n (xs @ [x])" by simp
  then show ?thesis by (simp only: tl_drop drop_Suc)
qed

lemma sma_put_items:
  "items (sma_put t v) =
     (if length (items t) < unat (window_size t) then items t @ [v] else tl (items t @ [v]))"
  "window_size (sma_put t v) = window_size t"
  by (simp_all add: sma_put_def Let_def)

lemma sma_puts:
  "items (foldl sma_put (sma_new w) vs) = drop (length vs - unat w) vs \<and>
   window_size (foldl sma_put (sma_new w) vs) = w"
proof (induction vs rule: rev_induct)
  case Nil
  then show ?case by (simp add: sma_new_def)
next
  case (snoc v vs)
  show ?case
  proof (cases "length vs < unat w")
    case False
    with snoc show ?thesis
      by (simp add: sma_put_items tl_drop_snoc Suc_diff_le del: drop_append)
  qed (use snoc in \<open>simp add: sma_put_items\<close>)
qed

lemma sum_int_in_range:
  "(\<forall>n \<le> length xs. - (2 ^ 31) \<le> a + sum_list (take n xs) \<and> a + sum_list (take n xs) < 2 ^ 31) \<Longrightarrow>
   sum_int a xs = Some (a + sum_list xs)"
proof (induction xs arbitrary: a)
  case (Cons x xs)
  from Cons.prems [rule_format, of 1] have "add_int a x = Some (a + x)" by (simp add: add_int_def)
  moreover have "sum_int (a + x) xs = Some (a + x + sum_list xs)"
  proof (rule Cons.IH, intro allI impI)
    fix n assume "n \<le> length xs"
    with Cons.prems [rule_format, of "Suc n"]
    show "- (2 ^ 31) \<le> a + x + sum_list (take n xs) \<and> a + x + sum_list (take n xs) < 2 ^ 31"
      by (simp add: add.assoc)
  qed
  ultimately show ?case by (simp add: add.assoc)
qed simp

definition window_of :: "u64 \<Rightarrow> 'a list \<Rightarrow> 'a list" where
  "window_of w vs = drop (length vs - unat w) vs"

lemma sma_divisor_puts:
  assumes "w \<noteq> 0"
  shows "unat (sma_divisor (foldl sma_put (sma_new w) vs)) =
    (if vs = [] then unat w else length (window_of w vs))"
proof -
  have "0 < unat w" using assms by (simp add: unat_gt_0)
  moreover have "unat (of_nat (length vs) :: u64) = length vs" if "length vs < unat w"
    using that unsigned_less [where 'a = nat, of w] by (simp add: unat_of_nat take_bit_nat_eq_self)
  ultimately show ?thesis
    using sma_puts [of w vs] by (auto simp: sma_divisor_def window_of_def Let_def)
qed

lemma unat_of_int_nonneg: "0 \<le> i \<Longrightarrow> i < 2 ^ 31 \<Longrightarrow> unat (of_int i :: u64) = nat i"
  by (simp add: unat_eq_nat_uint uint_word_of_int)

lemma sint_small: "n < 2 ^ 31 \<Longrightarrow> sint (of_nat n :: u32) = int n"
  by (simp add: signed_of_nat signed_take_bit_int_eq_self)

text \<open>
  C9: As long as no partial sum leaves the range of \<^verbatim>\<open>int\<close> and the sum is not negative, \<^verbatim>\<open>get\<close> after any
  puts is the mean of the last \<open>w\<close> values put, or of all when there are fewer, rounded down; 0 before
  the first. The values the two integer tests of the program expect are those computed.
\<close>

theorem sma_mean:
  assumes "w \<noteq> 0" "0 \<le> sum_list (window_of w vs)"
    and "\<forall>n \<le> length (window_of w vs).
      - (2 ^ 31) \<le> sum_list (take n (window_of w vs)) \<and> sum_list (take n (window_of w vs)) < 2 ^ 31"
  shows "sma_get_int (foldl sma_put (sma_new w) vs) =
      Some (sum_list (window_of w vs) div int (length (window_of w vs))) \<and>
    test_int = map Some [0, 2, 4, 6, 5, 3, 5] \<and> test_uint = map Some [0, 2, 4, 6, 5, 4, 5]"
proof -
  let ?win = "window_of w vs"
  let ?d = "sma_divisor (foldl sma_put (sma_new w) vs)"
  have sum: "sum_int 0 ?win = Some (sum_list ?win)"
    using sum_int_in_range [of ?win 0] assms(3) by simp
  have small: "sum_list ?win < 2 ^ 31" using assms(3) [rule_format, of "length ?win"] by simp
  have "0 < unat w" using assms(1) by (simp add: unat_gt_0)
  then have d: "unat ?d \<noteq> 0" using sma_divisor_puts [OF assms(1), of vs]
    by (cases vs) (auto simp: window_of_def)
  have q: "unat ((of_int (sum_list ?win) :: u64) div ?d) = nat (sum_list ?win) div unat ?d"
    using unat_of_int_nonneg [OF assms(2) small] by (simp add: unat_div)
  have "nat (sum_list ?win) < 2 ^ 31" using small assms(2) by (simp add: nat_less_iff)
  then have "nat (sum_list ?win) div unat ?d < 2 ^ 31" by (rule le_less_trans [rotated]) simp
  with q have "sint (ucast ((of_int (sum_list ?win) :: u64) div ?d) :: u32) =
    int (nat (sum_list ?win) div unat ?d)"
    by (metis sint_small of_nat_unat)
  also have "\<dots> = sum_list ?win div int (length ?win)"
    using sma_divisor_puts [OF assms(1), of vs] assms(2)
    by (simp add: zdiv_int window_of_def)
  finally have "sma_get_int (foldl sma_put (sma_new w) vs) = Some (sum_list ?win div int (length ?win))"
    using sma_puts [of w vs] sum d by (simp add: sma_get_int_def window_of_def [symmetric] unat_eq_0)
  moreover have "test_int = map Some [0, 2, 4, 6, 5, 3, 5]" by code_simp
  moreover have "test_uint = map Some [0, 2, 4, 6, 5, 4, 5]" by code_simp
  ultimately show ?thesis by blast
qed

theorem sma_mean_witness: "sma_get_int (foldl sma_put (sma_new 2) [7, 3, 4]) = Some 3"
proof -
  have win: "window_of 2 [7, 3, 4 :: int] = [3, 4]" by (simp add: window_of_def)
  show ?thesis
    using sma_mean [of 2 "[7, 3, 4]"] unfolding win by (auto simp: le_Suc_eq)
qed

text \<open>
  A negative sum becomes a large unsigned number before it is divided: the average of three times
  \<open>- 1\<close> over a window of three comes out as 1431655764.
\<close>

theorem sma_negative_sum:
  "sma_get_int (foldl sma_put (sma_new 3) [- 1, - 1, - 1]) = Some 1431655764"
  by code_simp

end
