(* ===== verification/Doubles.thy ===== *)
theory Doubles
  imports Prelude "HOL-Library.Log_Nat"
begin

section \<open>Double precision arithmetic\<close>

text \<open>
  The type \<^verbatim>\<open>double\<close> as IEEE 754 defines it, rounding to nearest with ties to even: a number is a mantissa
  times a power of two, and every operation is the exact result rounded to 53 bits, or to a multiple of
  \<open>2 powr - 1074\<close> when it is smaller. There is one zero, and no infinity: the numbers that the programs meet
  are bounded far below \<open>2 powr 1024\<close>, which their properties state. A division by zero is \<^const>\<open>None\<close>.
\<close>

datatype double = Dbl (mant: int) (expo: int)

definition dval :: "double \<Rightarrow> real" where
  "dval x = real_of_int (mant x) * 2 powr real_of_int (expo x)"

subsection \<open>Rounding\<close>

definition half_even :: "int \<Rightarrow> int \<Rightarrow> int" where
  "half_even a b =
     (let f = a div b; r = a mod b
      in if 2 * r < b \<or> 2 * r = b \<and> even f then f else f + 1)"

text \<open>The fraction \<open>p / q\<close> divided by \<open>2 powr e\<close>, as a numerator and a denominator.\<close>

definition scale_num :: "int \<Rightarrow> int \<Rightarrow> int" where
  "scale_num p e = (if 0 \<le> e then p else p * 2 ^ nat (- e))"

definition scale_den :: "int \<Rightarrow> int \<Rightarrow> int" where
  "scale_den q e = (if 0 \<le> e then q * 2 ^ nat e else q)"

definition round_exp :: "int \<Rightarrow> int \<Rightarrow> int" where
  "round_exp p q =
     (let e = bitlen \<bar>p\<bar> - bitlen q - 53;
          e' = (if scale_num \<bar>p\<bar> e < 2 ^ 53 * scale_den q e then e else e + 1)
      in max (- 1074) e')"

definition ratio :: "int \<Rightarrow> int \<Rightarrow> double" where
  "ratio p q =
     (if p = 0 then Dbl 0 0
      else let e = round_exp p q in Dbl (half_even (scale_num p e) (scale_den q e)) e)"

definition dyadic :: "int \<Rightarrow> int \<Rightarrow> double" where
  "dyadic p e = (if 0 \<le> e then ratio (p * 2 ^ nat e) 1 else ratio p (2 ^ nat (- e)))"

subsection \<open>Operations\<close>

definition double_of_int :: "int \<Rightarrow> double" where
  "double_of_int i = ratio i 1"

definition align :: "double \<Rightarrow> int \<Rightarrow> int" where
  "align x e = mant x * 2 ^ nat (expo x - e)"

definition dadd :: "double \<Rightarrow> double \<Rightarrow> double" where
  "dadd x y = (let e = min (expo x) (expo y) in dyadic (align x e + align y e) e)"

definition dsub :: "double \<Rightarrow> double \<Rightarrow> double" where
  "dsub x y = (let e = min (expo x) (expo y) in dyadic (align x e - align y e) e)"

definition dmul :: "double \<Rightarrow> double \<Rightarrow> double" where
  "dmul x y = dyadic (mant x * mant y) (expo x + expo y)"

definition ddiv :: "double \<Rightarrow> double \<Rightarrow> double option" where
  "ddiv x y =
     (if mant y = 0 then None
      else let p = mant x * sgn (mant y); q = \<bar>mant y\<bar>; e = expo x - expo y
           in Some (if 0 \<le> e then ratio (p * 2 ^ nat e) q else ratio p (q * 2 ^ nat (- e))))"

definition dabs :: "double \<Rightarrow> double" where
  "dabs x = Dbl \<bar>mant x\<bar> (expo x)"

definition dless :: "double \<Rightarrow> double \<Rightarrow> bool" where
  "dless x y = (let e = min (expo x) (expo y) in align x e < align y e)"

text \<open>The conversion to an integer drops the fraction; \<^verbatim>\<open>std::round\<close> rounds ties away from zero.\<close>

definition dtrunc :: "double \<Rightarrow> int" where
  "dtrunc x =
     (if 0 \<le> expo x then mant x * 2 ^ nat (expo x)
      else sgn (mant x) * (\<bar>mant x\<bar> div 2 ^ nat (- expo x)))"

definition dround :: "double \<Rightarrow> double" where
  "dround x =
     (if 0 \<le> expo x then x
      else double_of_int (sgn (mant x) * ((2 * \<bar>mant x\<bar> + 2 ^ nat (- expo x)) div (2 * 2 ^ nat (- expo x)))))"

subsection \<open>The error of rounding\<close>

lemma half_even_near:
  assumes "0 < b"
  shows "\<bar>real_of_int (half_even a b) - real_of_int a / real_of_int b\<bar> \<le> 1 / 2"
proof -
  have r: "0 \<le> a mod b" "a mod b < b" using assms by simp_all
  have "real_of_int a = real_of_int b * real_of_int (a div b) + real_of_int (a mod b)"
    by (metis mult_div_mod_eq of_int_add of_int_mult)
  then have q: "real_of_int a / real_of_int b = real_of_int (a div b) + real_of_int (a mod b) / real_of_int b"
    using assms by (simp add: field_simps)
  have "real_of_int (a mod b) / real_of_int b \<le> 1 / 2" if "2 * (a mod b) \<le> b"
  proof -
    have "2 * real_of_int (a mod b) \<le> real_of_int b" using that by linarith
    then show ?thesis using assms by (simp add: field_simps)
  qed
  moreover have "1 / 2 \<le> real_of_int (a mod b) / real_of_int b" if "b \<le> 2 * (a mod b)"
  proof -
    have "real_of_int b \<le> 2 * real_of_int (a mod b)" using that by linarith
    then show ?thesis using assms by (simp add: field_simps)
  qed
  moreover have "0 \<le> real_of_int (a mod b) / real_of_int b" "real_of_int (a mod b) / real_of_int b < 1"
    using r assms by simp_all
  ultimately show ?thesis unfolding q half_even_def Let_def by (auto simp: abs_le_iff)
qed

lemma powr_int_nat: "0 \<le> e \<Longrightarrow> (2 :: real) powr real_of_int e = 2 ^ nat e"
  by (simp add: powr_realpow [symmetric])

lemma powr_int_neg: "e \<le> 0 \<Longrightarrow> (2 :: real) powr real_of_int e = 1 / 2 ^ nat (- e)"
proof -
  assume "e \<le> 0"
  then have "(2 :: real) powr real_of_int (- e) = 2 ^ nat (- e)" by (intro powr_int_nat) simp
  then show ?thesis by (simp only: of_int_minus powr_minus_divide) (metis inverse_eq_divide inverse_inverse_eq)
qed

lemma scale_ratio:
  assumes "0 < q"
  shows "0 < scale_den q e"
    "real_of_int (scale_num p e) / real_of_int (scale_den q e) =
       real_of_int p / real_of_int q / 2 powr real_of_int e"
  using assms powr_int_nat [of e] powr_int_neg [of e]
  by (auto simp: scale_den_def scale_num_def field_simps)

lemma round_exp_bound:
  assumes "p \<noteq> 0" "0 < q"
  shows "round_exp p q = - 1074 \<or>
    2 powr (real_of_int (round_exp p q) + 52) \<le> \<bar>real_of_int p / real_of_int q\<bar>"
proof -
  let ?e = "bitlen \<bar>p\<bar> - bitlen q - 53"
  let ?x = "real_of_int \<bar>p\<bar> / real_of_int q"
  have abs: "\<bar>real_of_int p / real_of_int q\<bar> = ?x" using assms by simp
  have bits: "2 ^ nat (bitlen \<bar>p\<bar> - 1) \<le> \<bar>p\<bar>" "q < 2 ^ nat (bitlen q)"
    using bitlen_bounds [of "\<bar>p\<bar>"] bitlen_bounds [of q] assms by auto
  have pos: "0 < bitlen \<bar>p\<bar>" "0 \<le> bitlen q" using bitlen_nonneg [of "\<bar>p\<bar>"] bitlen_nonneg [of q] bitlen_eq_zero_iff [of "\<bar>p\<bar>"] assms(1) by linarith+
  have lo: "2 powr (real_of_int ?e + 52) \<le> ?x"
  proof -
    have "real_of_int (2 ^ nat (bitlen \<bar>p\<bar> - 1)) \<le> real_of_int \<bar>p\<bar>" using bits(1) by (simp only: of_int_le_iff)
    then have 1: "2 powr (real_of_int (bitlen \<bar>p\<bar> - 1)) \<le> real_of_int \<bar>p\<bar>"
      using powr_int_nat [of "bitlen \<bar>p\<bar> - 1"] pos by simp
    have "real_of_int q \<le> real_of_int (2 ^ nat (bitlen q))" using bits(2) by linarith
    then have 2: "real_of_int q \<le> 2 powr (real_of_int (bitlen q))"
      using powr_int_nat [of "bitlen q"] pos by simp
    have "2 powr (real_of_int ?e + 52) = 2 powr (real_of_int (bitlen \<bar>p\<bar> - 1)) / 2 powr (real_of_int (bitlen q))"
      by (simp add: algebra_simps flip: powr_diff)
    also have "\<dots> \<le> ?x" using 1 2 assms by (intro frac_le) auto
    finally show ?thesis .
  qed
  show ?thesis
  proof (cases "scale_num \<bar>p\<bar> ?e < 2 ^ 53 * scale_den q ?e")
    case True
    then have "round_exp p q = - 1074 \<or> round_exp p q = ?e"
      by (simp add: round_exp_def Let_def max_def)
    with lo abs show ?thesis by metis
  next
    case False
    have "0 < real_of_int (scale_den q ?e)" using scale_ratio(1) [OF assms(2), of ?e] by simp
    moreover have "real_of_int (2 ^ 53 * scale_den q ?e) \<le> real_of_int (scale_num \<bar>p\<bar> ?e)"
      using False by (simp only: of_int_le_iff not_less)
    ultimately have "2 ^ 53 \<le> real_of_int (scale_num \<bar>p\<bar> ?e) / real_of_int (scale_den q ?e)"
      by (simp add: field_simps)
    then have "2 ^ 53 \<le> ?x / 2 powr real_of_int ?e" using scale_ratio(2) [OF assms(2)] by simp
    then have "2 ^ 53 * 2 powr real_of_int ?e \<le> ?x" by (rule iffD1 [OF pos_le_divide_eq, rotated]) simp
    moreover have "2 powr (real_of_int (?e + 1) + 52) = 2 ^ 53 * 2 powr real_of_int ?e"
      using powr_add [of 2 "real_of_int ?e" 53] powr_int_nat [of 53] by (simp add: algebra_simps)
    ultimately have "2 powr (real_of_int (?e + 1) + 52) \<le> ?x" by simp
    moreover have "round_exp p q = - 1074 \<or> round_exp p q = ?e + 1"
      using False by (simp add: round_exp_def Let_def max_def)
    ultimately show ?thesis using abs by metis
  qed
qed

text \<open>What rounding a number may change: half a unit of the last place.\<close>

definition round_err :: "real \<Rightarrow> real" where
  "round_err x = \<bar>x\<bar> / 2 ^ 53 + 2 powr - 1075"

lemma ratio_near:
  assumes "0 < q"
  shows "\<bar>dval (ratio p q) - real_of_int p / real_of_int q\<bar> \<le> round_err (real_of_int p / real_of_int q)"
proof (cases "p = 0")
  case True
  then show ?thesis by (simp add: ratio_def dval_def round_err_def)
next
  case False
  let ?e = "round_exp p q" and ?x = "real_of_int p / real_of_int q"
  let ?n = "scale_num p ?e" and ?d = "scale_den q ?e"
  have x: "?x = real_of_int ?n / real_of_int ?d * 2 powr real_of_int ?e"
    using scale_ratio(2) [OF assms, of p ?e] by simp
  have "dval (ratio p q) - ?x = (real_of_int (half_even ?n ?d) - real_of_int ?n / real_of_int ?d) * 2 powr real_of_int ?e"
    unfolding x using False by (simp add: ratio_def Let_def dval_def left_diff_distrib)
  then have "\<bar>dval (ratio p q) - ?x\<bar> =
      \<bar>real_of_int (half_even ?n ?d) - real_of_int ?n / real_of_int ?d\<bar> * 2 powr real_of_int ?e"
    by (simp add: abs_mult)
  also have "\<dots> \<le> 1 / 2 * 2 powr real_of_int ?e"
    using half_even_near [OF scale_ratio(1) [OF assms]] by (intro mult_right_mono) auto
  also have "\<dots> = 2 powr (real_of_int ?e - 1)" by (simp add: powr_diff)
  also have "\<dots> \<le> round_err ?x"
  proof (rule disjE [OF round_exp_bound [OF False assms]])
    assume "?e = - 1074"
    then show ?thesis by (simp add: round_err_def)
  next
    assume b: "2 powr (real_of_int ?e + 52) \<le> \<bar>?x\<bar>"
    have "2 powr (real_of_int ?e - 1) = 2 powr (real_of_int ?e + 52) / 2 ^ 53"
      using powr_add [of 2 "real_of_int ?e - 1" 53] by (simp add: add.commute)
    also have "\<dots> \<le> \<bar>?x\<bar> / 2 ^ 53" using b by (intro divide_right_mono) auto
    finally show ?thesis by (simp add: round_err_def add_increasing2)
  qed
  finally show ?thesis .
qed

lemma dyadic_near:
  "\<bar>dval (dyadic p e) - real_of_int p * 2 powr real_of_int e\<bar> \<le> round_err (real_of_int p * 2 powr real_of_int e)"
  using ratio_near [of 1 "p * 2 ^ nat e"] ratio_near [of "2 ^ nat (- e)" p] powr_int_nat [of e] powr_int_neg [of e]
  by (auto simp: dyadic_def)

lemma align_val:
  assumes "e \<le> expo x"
  shows "real_of_int (align x e) * 2 powr real_of_int e = dval x"
proof -
  have "2 powr real_of_int (expo x - e) * 2 powr real_of_int e = 2 powr real_of_int (expo x)"
    by (simp flip: powr_add)
  then have "2 ^ nat (expo x - e) * 2 powr real_of_int e = 2 powr real_of_int (expo x)"
    using assms powr_int_nat [of "expo x - e"] by simp
  then show ?thesis by (simp add: align_def dval_def mult.assoc)
qed

lemma dadd_near: "\<bar>dval (dadd x y) - (dval x + dval y)\<bar> \<le> round_err (dval x + dval y)"
  using dyadic_near [of "align x (min (expo x) (expo y)) + align y (min (expo x) (expo y))" "min (expo x) (expo y)"]
  by (simp add: dadd_def Let_def distrib_right align_val)

lemma dsub_near: "\<bar>dval (dsub x y) - (dval x - dval y)\<bar> \<le> round_err (dval x - dval y)"
  using dyadic_near [of "align x (min (expo x) (expo y)) - align y (min (expo x) (expo y))" "min (expo x) (expo y)"]
  by (simp add: dsub_def Let_def left_diff_distrib align_val)

lemma ddiv_near:
  assumes "mant y \<noteq> 0"
  shows "\<exists>z. ddiv x y = Some z \<and> \<bar>dval z - dval x / dval y\<bar> \<le> round_err (dval x / dval y)"
proof -
  let ?p = "mant x * sgn (mant y)" and ?q = "\<bar>mant y\<bar>" and ?e = "expo x - expo y"
  have q: "0 < ?q" using assms by simp
  have "real_of_int ?p / real_of_int ?q = real_of_int (mant x) / real_of_int (mant y)"
    using assms by (cases "0 < mant y") (auto simp: sgn_if)
  moreover have "dval x / dval y = real_of_int (mant x) / real_of_int (mant y) * 2 powr real_of_int ?e"
    by (simp add: dval_def powr_diff)
  ultimately have v: "dval x / dval y = real_of_int ?p / real_of_int ?q * 2 powr real_of_int ?e" by simp
  show ?thesis
  proof (cases "0 \<le> ?e")
    case True
    then have "dval x / dval y = real_of_int (?p * 2 ^ nat ?e) / real_of_int ?q"
      unfolding v using powr_int_nat [of ?e] by simp
    with ratio_near [OF q, of "?p * 2 ^ nat ?e"] True assms show ?thesis by (simp add: ddiv_def Let_def)
  next
    case False
    then have "dval x / dval y = real_of_int ?p / real_of_int (?q * 2 ^ nat (- ?e))"
      unfolding v using powr_int_neg [of ?e] by simp
    with ratio_near [of "?q * 2 ^ nat (- ?e)" ?p] q False assms show ?thesis by (simp add: ddiv_def Let_def)
  qed
qed

subsection \<open>Numbers that are represented exactly\<close>

lemma half_even_one: "half_even a 1 = a"
  by (simp add: half_even_def)

lemma double_of_int_exact:
  assumes "\<bar>i\<bar> < 2 ^ 53"
  shows "dval (double_of_int i) = real_of_int i"
proof (cases "i = 0")
  case True
  then show ?thesis by (simp add: double_of_int_def ratio_def dval_def)
next
  case False
  let ?e = "round_exp i 1"
  have b: "bitlen \<bar>i\<bar> \<le> 53" using assms bitlen_le_iff_power [of "\<bar>i\<bar>" 53] by simp
  have one: "bitlen 1 = 1" by (simp add: bitlen_def floorlog_def)
  have "0 < (2 :: int) ^ 53" by simp
  have "scale_num \<bar>i\<bar> (bitlen \<bar>i\<bar> - 54) < 2 ^ 53 * scale_den 1 (bitlen \<bar>i\<bar> - 54) \<or> bitlen \<bar>i\<bar> - 54 + 1 \<le> 0"
    using b by simp
  then have e: "?e \<le> 0" using b by (simp add: round_exp_def one Let_def)
  have "dval (double_of_int i) = real_of_int (half_even (scale_num i ?e) (scale_den 1 ?e)) * 2 powr real_of_int ?e"
    using False by (simp add: double_of_int_def ratio_def Let_def dval_def)
  also have "scale_den 1 ?e = 1" using e by (simp add: scale_den_def)
  also have "scale_num i ?e = i * 2 ^ nat (- ?e)" using e by (cases "?e = 0") (auto simp: scale_num_def)
  also have "real_of_int (half_even (i * 2 ^ nat (- ?e)) 1) * 2 powr real_of_int ?e = real_of_int i"
    using powr_int_neg [OF e] by (simp add: half_even_one)
  finally show ?thesis .
qed

lemma abs_div_le:
  fixes x y n :: real
  assumes "0 < n" "\<bar>x\<bar> \<le> n * y"
  shows "\<bar>x / n\<bar> \<le> y"
  using assms by (simp add: abs_divide pos_divide_le_eq mult.commute)

lemma near_trans:
  fixes x y z e f :: real
  assumes "\<bar>x - y\<bar> \<le> e" "\<bar>y - z\<bar> \<le> f"
  shows "\<bar>x - z\<bar> \<le> e + f"
  using assms by linarith

lemma dval_zero_iff: "dval x = 0 \<longleftrightarrow> mant x = 0"
  by (simp add: dval_def)

lemma part_near:
  fixes s n f :: real
  assumes "s \<in> {- 1, 0, 1}" "0 \<le> n" "0 \<le> f" "f < 1"
  shows "\<bar>s * n - s * (n + f)\<bar> < 1 \<and> \<bar>s * n\<bar> \<le> \<bar>s * (n + f)\<bar>"
  using assms by (auto simp: abs_if)

lemma dtrunc_near: "\<bar>real_of_int (dtrunc x) - dval x\<bar> < 1 \<and> \<bar>real_of_int (dtrunc x)\<bar> \<le> \<bar>dval x\<bar>"
proof (cases "0 \<le> expo x")
  case True
  then show ?thesis using powr_int_nat [of "expo x"] by (simp add: dtrunc_def dval_def)
next
  case False
  let ?m = "\<bar>mant x\<bar>" and ?d = "2 ^ nat (- expo x) :: int"
  let ?n = "real_of_int (?m div ?d)" and ?f = "real_of_int (?m mod ?d) / real_of_int ?d"
    and ?s = "real_of_int (sgn (mant x))"
  have d: "0 < ?d" by simp
  have "real_of_int ?m = real_of_int ?d * ?n + real_of_int (?m mod ?d)"
    by (metis mult_div_mod_eq of_int_add of_int_mult)
  then have "real_of_int ?m / real_of_int ?d = ?n + ?f" using d by (simp add: field_simps)
  moreover have "dval x = ?s * (real_of_int ?m / real_of_int ?d)"
    using False powr_int_neg [of "expo x"] by (simp add: dval_def sgn_if)
  ultimately have v: "dval x = ?s * (?n + ?f)" by simp
  have t: "real_of_int (dtrunc x) = ?s * ?n" using False by (simp add: dtrunc_def)
  have f: "0 \<le> ?f" "?f < 1"
    using pos_mod_bound [OF d, of ?m] pos_mod_sign [OF d, of ?m] by (simp_all add: pos_divide_less_eq)
  have n: "0 \<le> ?n" using d by (simp add: pos_imp_zdiv_nonneg_iff)
  have "?s \<in> {- 1, 0, 1}" by (simp add: sgn_if)
  from part_near [OF this n f] show ?thesis unfolding t v .
qed

end
