(* ===== verification/Cumulative_Average.thy ===== *)
theory Cumulative_Average
  imports Doubles
begin

section \<open>The cumulative average\<close>

text \<open>
  Models \<^verbatim>\<open>math/cumulative_average.cpp\<close> in the arithmetic of theory Doubles. The counter has 64 bits; when it
  wraps to zero the division has no result here. The conversion of a double that is out of the range of the
  type has no defined result: \<^const>\<open>None\<close>.
\<close>

record cavg =
  samples :: u64
  ca :: double

definition ca_new :: cavg where
  "ca_new = \<lparr>samples = 0, ca = Dbl 0 0\<rparr>"

definition ca_put :: "double \<Rightarrow> cavg \<Rightarrow> cavg option" where
  "ca_put value this =
     (let n = samples this + 1
      in do { q \<leftarrow> ddiv (dsub value (ca this)) (double_of_int (uint n));
              Some \<lparr>samples = n, ca = dadd (ca this) q\<rparr> })"

fun ca_puts :: "double list \<Rightarrow> cavg \<Rightarrow> cavg option" where
  "ca_puts [] this = Some this"
| "ca_puts (v # vs) this = do { this \<leftarrow> ca_put v this; ca_puts vs this }"

definition ca_get_int :: "cavg \<Rightarrow> int option" where
  "ca_get_int this =
     (let r = dtrunc (ca this) in if - (2 ^ 31) \<le> r \<and> r < 2 ^ 31 then Some r else None)"

definition ca_get_uint :: "cavg \<Rightarrow> u32 option" where
  "ca_get_uint this =
     (let r = dtrunc (ca this) in if 0 \<le> r \<and> r < 2 ^ 32 then Some (of_int r) else None)"

definition ca_get :: "cavg \<Rightarrow> double" where
  "ca_get this = ca this"

subsection \<open>The tests\<close>

text \<open>What \<^verbatim>\<open>get\<close> answers before the first put and after each; the decimal fractions are rounded to doubles.\<close>

definition ca_trace :: "('a \<Rightarrow> double) \<Rightarrow> (cavg \<Rightarrow> 'b option) \<Rightarrow> 'a list \<Rightarrow> 'b option list" where
  "ca_trace conv get vs =
     map (\<lambda>n. Option.bind (ca_puts (map conv (take n vs)) ca_new) get) [0..<length vs + 1]"

definition ca_test_int :: "int option list" where
  "ca_test_int = ca_trace double_of_int ca_get_int [2, 6, 10, -1, 2, 14]"

definition ca_test_uint :: "u32 option list" where
  "ca_test_uint = ca_trace (\<lambda>v :: u32. double_of_int (uint v)) ca_get_uint [2, 6, 10, 1, 2, 14]"

definition tenths :: "int \<Rightarrow> double" where
  "tenths i = ratio i 10"

definition hundredths :: "int \<Rightarrow> double" where
  "hundredths i = ratio i 100"

definition doubles_eq :: "double \<Rightarrow> double \<Rightarrow> bool" where
  "doubles_eq a b \<longleftrightarrow> dless (dabs (dsub a b)) (Dbl 1 (- 52))"

definition double_round :: "double \<Rightarrow> double option" where
  "double_round v = (let m = double_of_int 100 in ddiv (dround (dmul v m)) m)"

definition ca_test_float :: "bool option list" where
  "ca_test_float =
     (let got = ca_trace tenths (\<lambda>a. Some (ca_get a)) [27, 61, 103, 18, 29, 75];
          plain = [tenths 0, tenths 27, tenths 44];
          rounded = [hundredths 637, hundredths 523, hundredths 476, hundredths 522]
      in map2 (\<lambda>g e. map_option (doubles_eq e) g) (take 3 got) plain @
         map2 (\<lambda>g e. map_option (doubles_eq e) (Option.bind g double_round)) (drop 3 got) rounded)"

subsection \<open>The error of the average\<close>

lemma round_err_le:
  assumes "\<bar>x\<bar> \<le> 7 / 2 * M" "1 \<le> M"
  shows "round_err x \<le> M / 2 ^ 51"
proof -
  have "(2 :: real) powr - 1075 \<le> 2 powr - 54" by simp
  also have "(2 :: real) powr - 54 = 1 / 2 ^ 54" using powr_int_neg [of "- 54"] by simp
  also have "\<dots> \<le> M / 2 ^ 54" using assms by simp
  finally have "2 powr - 1075 \<le> M / 2 ^ 54" .
  then show ?thesis using assms by (simp add: round_err_def)
qed

lemma ca_put_step:
  assumes v: "\<bar>dval v\<bar> \<le> M" and M: "1 \<le> M" and c: "\<bar>dval (ca a)\<bar> \<le> 2 * M"
    and k: "uint (samples a) = int k" "k + 1 < 2 ^ 53"
  shows "\<exists>a'. ca_put v a = Some a' \<and> uint (samples a') = int (k + 1) \<and>
    \<bar>dval (ca a') - (dval (ca a) + (dval v - dval (ca a)) / (k + 1))\<bar> \<le> 3 * M / 2 ^ 51"
proof -
  let ?n = "samples a + 1" and ?c = "dval (ca a)" and ?d = "dsub v (ca a)"
  have n: "uint ?n = int (k + 1)" using k by (simp add: uint_add_lem [symmetric] uint_word_ariths)
  have nv: "dval (double_of_int (uint ?n)) = k + 1" using double_of_int_exact [of "uint ?n"] n k by simp
  then have "mant (double_of_int (uint ?n)) \<noteq> 0" using dval_zero_iff [of "double_of_int (uint ?n)"] by auto
  from ddiv_near [OF this, of ?d] nv obtain q where
    q: "ddiv ?d (double_of_int (uint ?n)) = Some q" "\<bar>dval q - dval ?d / (k + 1)\<bar> \<le> round_err (dval ?d / (k + 1))"
    by auto
  let ?D = "dval v - ?c" and ?e = "M / 2 ^ 51"
  have "\<bar>?D\<bar> \<le> 7 / 2 * M" using v c M by linarith
  then have d: "\<bar>dval ?d - ?D\<bar> \<le> ?e"
    using dsub_near [of v "ca a"] round_err_le [OF _ M] order_trans by blast
  have shrink: "\<bar>x / (k + 1)\<bar> \<le> \<bar>x\<bar>" for x :: real
    using mult_left_mono [of 1 "real k + 1" "\<bar>x\<bar>"] by (simp add: divide_le_eq abs_divide add.commute)
  have "?e \<le> M / 4" using M by simp
  then have "\<bar>dval ?d\<bar> \<le> 7 / 2 * M" using d v c M by linarith
  then have "\<bar>dval ?d / (k + 1)\<bar> \<le> 7 / 2 * M" using shrink order_trans by blast
  then have q1: "\<bar>dval q - dval ?d / (k + 1)\<bar> \<le> ?e" using q(2) round_err_le [OF _ M] order_trans by blast
  have "\<bar>(dval ?d - ?D) / (k + 1)\<bar> \<le> ?e" using shrink d order_trans by blast
  then have q2: "\<bar>dval q - ?D / (k + 1)\<bar> \<le> 2 * ?e" 
    using q1 unfolding diff_divide_distrib [of "dval ?d"] by linarith
  have mid: "\<bar>?c + ?D / (k + 1)\<bar> \<le> 2 * M"
  proof -
    have "?c + ?D / (k + 1) = (k * ?c + dval v) / (k + 1)" by (simp add: field_simps)
    moreover have "\<bar>k * ?c + dval v\<bar> \<le> (k + 1) * (2 * M)"
    proof -
      have "\<bar>k * ?c + dval v\<bar> \<le> k * \<bar>?c\<bar> + \<bar>dval v\<bar>" by (metis abs_mult abs_of_nat abs_triangle_ineq)
      also have "\<dots> \<le> k * (2 * M) + M" using c v by (intro add_mono mult_left_mono) auto
      finally show ?thesis using M by (simp add: distrib_right)
    qed
    ultimately show ?thesis by (simp add: pos_divide_le_eq mult.commute)
  qed
  have "\<bar>?c + dval q\<bar> \<le> 7 / 2 * M" using mid q2 \<open>?e \<le> M / 4\<close> M by linarith
  then have "\<bar>dval (dadd (ca a) q) - (?c + dval q)\<bar> \<le> ?e"
    using dadd_near [of "ca a" q] round_err_le [OF _ M] order_trans by blast
  with q2 have "\<bar>dval (dadd (ca a) q) - (?c + ?D / (k + 1))\<bar> \<le> 3 * ?e" by linarith
  with q(1) n show ?thesis by (simp add: ca_put_def Let_def)
qed

lemma ca_puts_snoc: "ca_puts (vs @ [v]) a = Option.bind (ca_puts vs a) (ca_put v)"
proof (induction vs arbitrary: a)
  case (Cons x xs)
  then show ?case by (cases "ca_put x a") auto
next
  case Nil
  show ?case by (cases "ca_put v a") auto
qed

lemma ca_near_mean:
  assumes "1 \<le> M"
  shows "\<forall>v \<in> set vs. \<bar>dval v\<bar> \<le> M \<Longrightarrow> length vs \<le> 2 ^ 49 \<Longrightarrow>
    \<exists>a. ca_puts vs ca_new = Some a \<and> uint (samples a) = int (length vs) \<and>
      \<bar>real (length vs) * dval (ca a) - sum_list (map dval vs)\<bar> \<le>
        3 * M / 2 ^ 51 * (real (length vs) * (real (length vs) + 1) / 2)"
proof (induction vs rule: rev_induct)
  case Nil
  then show ?case by (simp add: ca_new_def dval_def)
next
  case (snoc v vs)
  let ?k = "real (length vs)" and ?s = "sum_list (map dval vs)" and ?e = "3 * M / 2 ^ 51"
  from snoc obtain a where a: "ca_puts vs ca_new = Some a" "uint (samples a) = int (length vs)"
    "\<bar>?k * dval (ca a) - ?s\<bar> \<le> ?e * (?k * (?k + 1) / 2)" by auto
  have sum: "\<bar>?s\<bar> \<le> ?k * M" using snoc.prems(1) by (induction vs) (auto simp: abs_le_iff distrib_right)
  have c: "\<bar>dval (ca a)\<bar> \<le> 2 * M"
  proof (cases "vs = []")
    case True
    then show ?thesis using a(1) assms by (auto simp: ca_new_def dval_def)
  next
    case False
    have "?k * (?k + 1) / 2 \<le> ?k * 2 ^ 49"
      using False snoc.prems(2) by simp
    then have "?e * (?k * (?k + 1) / 2) \<le> ?e * (?k * 2 ^ 49)"
      by (rule mult_left_mono) (use assms in simp)
    also have "\<dots> \<le> ?k * M" using assms by simp
    finally have "\<bar>?k * dval (ca a)\<bar> \<le> ?k * M + ?k * M" using a(3) sum by linarith
    then have "?k * \<bar>dval (ca a)\<bar> \<le> ?k * (2 * M)" by (simp add: abs_mult mult.left_commute mult.commute)
    then show ?thesis using False by (simp add: mult_le_cancel_left)
  qed
  obtain a' where a': "ca_put v a = Some a'" "uint (samples a') = int (length vs + 1)"
    "\<bar>dval (ca a') - (dval (ca a) + (dval v - dval (ca a)) / (?k + 1))\<bar> \<le> ?e"
    using ca_put_step [OF _ assms c a(2)] snoc.prems by (auto simp: add.commute)
  have "(?k + 1) * dval (ca a') - (?s + dval v) =
      (?k * dval (ca a) - ?s) + (?k + 1) * (dval (ca a') - (dval (ca a) + (dval v - dval (ca a)) / (?k + 1)))"
    by (simp add: field_simps)
  also have "\<bar>\<dots>\<bar> \<le> ?e * (?k * (?k + 1) / 2) + (?k + 1) * ?e"
    using a(3) mult_left_mono [OF a'(3), of "?k + 1"]
    by (intro order_trans [OF abs_triangle_ineq] add_mono) (auto simp: abs_mult)
  also have "\<dots> = ?e * ((?k + 1) * (?k + 1 + 1) / 2)" by (simp add: field_simps)
  finally show ?case using a(1) a'(1,2) by (simp add: ca_puts_snoc add.commute)
qed

lemma sum_double_of_int: "\<forall>v \<in> set vs. \<bar>v\<bar> < 2 ^ 53 \<Longrightarrow>
    sum_list (map dval (map double_of_int vs)) = real_of_int (sum_list vs)"
  by (induction vs) (auto simp: double_of_int_exact)

lemma ca_trace_tests:
  "ca_test_int = map Some [0, 2, 4, 6, 4, 3, 5]"
  "ca_test_uint = map Some [0, 2, 4, 6, 4, 4, 5]"
  "ca_test_float = map Some (replicate 7 True)"
  by code_simp+

lemma ca_1_short: "Option.bind (ca_puts (map double_of_int [0, 1, 6, 1]) ca_new) ca_get_int = Some 1"
  by code_simp

text \<open>
  C10: The average of any integers of 32 bits, at most \<open>2 ^ 18\<close> of them: the division is never by zero, the
  conversion to \<^verbatim>\<open>int\<close> is defined, and the answer is less than \<open>1 + n / 2 ^ 18\<close> away from the mean. It is not
  the mean without its fraction: the average of 0, 1, 6, 1 comes out as 1, and the mean is 2. The tests of
  the program succeed.
\<close>

theorem cumulative_average_error:
  assumes "vs \<noteq> []" "length vs < 2 ^ 18" "\<forall>v \<in> set vs. - (2 ^ 31) \<le> v \<and> v < 2 ^ 31"
  shows "(\<exists>r. Option.bind (ca_puts (map double_of_int vs) ca_new) ca_get_int = Some r \<and>
      \<bar>real_of_int r - real_of_int (sum_list vs) / real (length vs)\<bar> < 1 + real (length vs) / 2 ^ 18) \<and>
    Option.bind (ca_puts (map double_of_int [0, 1, 6, 1]) ca_new) ca_get_int = Some 1 \<and>
    ca_test_int = map Some [0, 2, 4, 6, 4, 3, 5] \<and> ca_test_uint = map Some [0, 2, 4, 6, 4, 4, 5] \<and>
    ca_test_float = map Some (replicate 7 True)"
proof -
  let ?ds = "map double_of_int vs" and ?n = "real (length vs)" and ?s = "real_of_int (sum_list vs)"
  have n: "1 \<le> ?n" "?n < 2 ^ 18" using assms(1,2) by (cases vs, auto)
  have exact: "\<forall>v \<in> set vs. dval (double_of_int v) = real_of_int v"
    using assms(3) by (auto intro!: double_of_int_exact simp: abs_less_iff)
  have ds: "sum_list (map dval ?ds) = ?s"
    by (rule sum_double_of_int) (use assms(3) in \<open>fastforce simp: abs_less_iff\<close>)
  have "\<forall>d \<in> set ?ds. \<bar>dval d\<bar> \<le> 2 ^ 31"
  proof
    fix d assume "d \<in> set ?ds"
    then obtain v where v: "v \<in> set vs" "d = double_of_int v" by auto
    then have "\<bar>v\<bar> \<le> 2 ^ 31" using assms(3) by auto
    then have "\<bar>real_of_int v\<bar> \<le> real_of_int (2 ^ 31)" by linarith
    with v exact show "\<bar>dval d\<bar> \<le> 2 ^ 31" by simp
  qed
  from ca_near_mean [OF _ this] assms(2) obtain a where
    a: "ca_puts ?ds ca_new = Some a"
    "\<bar>?n * dval (ca a) - ?s\<bar> \<le> 3 * 2 ^ 31 / 2 ^ 51 * (?n * (?n + 1) / 2)" by (auto simp: ds simp del: map_map)
  have "?n * (?n + 1) / 2 \<le> ?n * ?n"
    using mult_left_mono [of 1 ?n ?n] n(1) by (simp add: distrib_left)
  moreover have "3 * 2 ^ 31 / 2 ^ 51 = (3 / 2 ^ 20 :: real)" by simp
  ultimately have "\<bar>?n * dval (ca a) - ?s\<bar> \<le> 3 / 2 ^ 20 * (?n * ?n)"
    using a(2) mult_left_mono [of "?n * (?n + 1) / 2" "?n * ?n" "3 / 2 ^ 20"] by simp
  also have "\<dots> \<le> 4 / 2 ^ 20 * (?n * ?n)" by (intro mult_right_mono) auto
  finally have "\<bar>?n * dval (ca a) - ?s\<bar> \<le> ?n * (?n / 2 ^ 18)" by simp
  then have "\<bar>(?n * dval (ca a) - ?s) / ?n\<bar> \<le> ?n / 2 ^ 18" using n by (intro abs_div_le) auto
  moreover have "(?n * dval (ca a) - ?s) / ?n = dval (ca a) - ?s / ?n" using assms(1) by (simp add: diff_divide_distrib)
  ultimately have near: "\<bar>dval (ca a) - ?s / ?n\<bar> \<le> ?n / 2 ^ 18" by simp
  have "- (2 ^ 31) * ?n \<le> ?s \<and> ?s \<le> (2 ^ 31 - 1) * ?n"
    using assms(3) by (induction vs) (auto simp: algebra_simps)
  then have "- (2 ^ 31) \<le> ?s / ?n" "?s / ?n \<le> 2 ^ 31 - 1"
    using assms(1) by (simp_all add: pos_le_divide_eq pos_divide_le_eq mult.commute)
  moreover have "?n / 2 ^ 18 < 1" using n by simp
  ultimately have "- (2 ^ 31) - 1 < dval (ca a)" "dval (ca a) < 2 ^ 31" using near by linarith+
  then have "- (2 ^ 31) - 1 < real_of_int (dtrunc (ca a)) \<and> real_of_int (dtrunc (ca a)) < 2 ^ 31"
    using dtrunc_near [of "ca a"] by (cases "0 \<le> dval (ca a)") (auto simp: abs_less_iff abs_le_iff)
  then have "- (2 ^ 31) \<le> dtrunc (ca a)" "dtrunc (ca a) < 2 ^ 31" by (simp_all, linarith?)
  then have "ca_get_int a = Some (dtrunc (ca a))" by (simp add: ca_get_int_def Let_def)
  moreover have "\<bar>real_of_int (dtrunc (ca a)) - ?s / ?n\<bar> < 1 + ?n / 2 ^ 18"
    using near dtrunc_near [of "ca a"] by linarith
  ultimately show ?thesis using a(1) ca_trace_tests ca_1_short by auto
qed

theorem cumulative_average_error_witness:
  "\<exists>r. Option.bind (ca_puts (map double_of_int [2147483647, 5, - 7]) ca_new) ca_get_int = Some r \<and>
     \<bar>real_of_int r - 2147483645 / 3\<bar> < 1 + 3 / 2 ^ 18"
  using cumulative_average_error [of "[2147483647, 5, - 7]"] by simp

end
