(* ===== verification/Optimized_Average.thy ===== *)
theory Optimized_Average
  imports Moving_Average Cumulative_Average
begin

section \<open>The moving average that is updated\<close>

text \<open>
  Models \<^verbatim>\<open>SMA_Optimized\<close> of \<^verbatim>\<open>math/simple_moving_average.cpp\<close> in the arithmetic of theory Doubles, for \<^verbatim>\<open>int\<close>
  and \<^verbatim>\<open>unsigned\<close>. While the window fills, the mean is computed anew; later the difference of the new value
  and the one that leaves the window is added. That difference is computed in the type of the values: the
  argument \<open>sub\<close>, which has no result when a signed difference overflows.
\<close>

record 'a sma_opt =
  base :: "'a sma"
  mean :: double

definition opt_new :: "u64 \<Rightarrow> 'a sma_opt" where
  "opt_new w = \<lparr>base = sma_new w, mean = Dbl 0 0\<rparr>"

text \<open>\<^verbatim>\<open>value_ += i\<close> over the window.\<close>

fun dsum :: "double \<Rightarrow> double list \<Rightarrow> double" where
  "dsum value [] = value"
| "dsum value (i # is) = dsum (dadd value i) is"

definition opt_put ::
    "('a \<Rightarrow> double) \<Rightarrow> ('a \<Rightarrow> 'a \<Rightarrow> 'a option) \<Rightarrow> 'a \<Rightarrow> 'a sma_opt \<Rightarrow> 'a sma_opt option" where
  "opt_put conv sub value this =
     (let q = items (base this) @ [value]
      in if length q \<le> unat (window_size (base this)) then
           do { m \<leftarrow> ddiv (dsum (Dbl 0 0) (map conv q)) (double_of_int (int (length q)));
                Some \<lparr>base = (base this)\<lparr>items := q\<rparr>, mean = m\<rparr> }
         else
           do { diff \<leftarrow> sub value (hd q);
                d \<leftarrow> ddiv (conv diff) (double_of_int (uint (window_size (base this))));
                Some \<lparr>base = (base this)\<lparr>items := tl q\<rparr>, mean = dadd (mean this) d\<rparr> })"

fun opt_puts ::
    "('a \<Rightarrow> double) \<Rightarrow> ('a \<Rightarrow> 'a \<Rightarrow> 'a option) \<Rightarrow> 'a list \<Rightarrow> 'a sma_opt \<Rightarrow> 'a sma_opt option" where
  "opt_puts conv sub [] this = Some this"
| "opt_puts conv sub (v # vs) this = do { this \<leftarrow> opt_put conv sub v this; opt_puts conv sub vs this }"

definition sub_int :: "int \<Rightarrow> int \<Rightarrow> int option" where
  "sub_int a b = add_int a (- b)"

definition sub_uint :: "u32 \<Rightarrow> u32 \<Rightarrow> u32 option" where
  "sub_uint a b = Some (a - b)"

definition opt_get_int :: "'a sma_opt \<Rightarrow> int option" where
  "opt_get_int this =
     (let r = dtrunc (mean this) in if - (2 ^ 31) \<le> r \<and> r < 2 ^ 31 then Some r else None)"

definition opt_get_uint :: "'a sma_opt \<Rightarrow> u32 option" where
  "opt_get_uint this =
     (let r = dtrunc (mean this) in if 0 \<le> r \<and> r < 2 ^ 32 then Some (of_int r) else None)"

abbreviation opt_run_int :: "u64 \<Rightarrow> int list \<Rightarrow> int sma_opt option" where
  "opt_run_int w vs \<equiv> opt_puts double_of_int sub_int vs (opt_new w)"

abbreviation opt_run_uint :: "u64 \<Rightarrow> u32 list \<Rightarrow> u32 sma_opt option" where
  "opt_run_uint w vs \<equiv> opt_puts (\<lambda>v. double_of_int (uint v)) sub_uint vs (opt_new w)"

text \<open>\<^verbatim>\<open>SimpleMovingAverage<double>\<close>: the sum and the quotient are rounded. Its test, for both parameters.\<close>

definition sma_get_double :: "double sma \<Rightarrow> double option" where
  "sma_get_double this = ddiv (dsum (Dbl 0 0) (items this)) (double_of_int (uint (sma_divisor this)))"

definition sma_test_float :: "bool option list" where
  "sma_test_float =
     (let got = sma_trace sma_get_double (sma_new 3) (map tenths [27, 61, 103, 18, 29, 75]);
          plain = [tenths 0, tenths 27, tenths 44];
          rounded = [hundredths 637, hundredths 607, hundredths 500, hundredths 407]
      in map2 (\<lambda>g e. map_option (doubles_eq e) g) (take 3 got) plain @
         map2 (\<lambda>g e. map_option (doubles_eq e) (Option.bind g double_round)) (drop 3 got) rounded)"

subsection \<open>The error of the updated mean\<close>

lemma dsum_near:
  fixes m :: real
  assumes "1 \<le> m" "1 \<le> N" "N \<le> 2 ^ 51"
  shows "\<forall>v \<in> set vs. \<bar>dval v\<bar> \<le> m \<Longrightarrow> real (j + length vs) \<le> N \<Longrightarrow>
    \<bar>dval s - S\<bar> \<le> real j * (N * m / 2 ^ 51) \<Longrightarrow> \<bar>S\<bar> \<le> real j * m \<Longrightarrow>
    \<bar>dval (dsum s vs) - (S + sum_list (map dval vs))\<bar> \<le> real (j + length vs) * (N * m / 2 ^ 51)"
proof (induction vs arbitrary: s S j)
  case (Cons v vs)
  let ?e = "N * m / 2 ^ 51"
  have j: "real j + 1 \<le> N" using Cons.prems(2) by simp
  have v: "\<bar>dval v\<bar> \<le> m" using Cons.prems(1) by simp
  have sum: "\<bar>S + dval v\<bar> \<le> (real j + 1) * m" using Cons.prems(4) v by (simp add: distrib_right)
  also have "\<dots> \<le> N * m" using j assms(1) by (intro mult_right_mono) auto
  finally have S: "\<bar>S + dval v\<bar> \<le> N * m" .
  have "real j * ?e \<le> 2 ^ 51 * ?e" using j assms by (intro mult_right_mono) auto
  then have "real j * ?e \<le> N * m" by simp
  then have "\<bar>dval s + dval v\<bar> \<le> 7 / 2 * (N * m)" using S Cons.prems(3) by linarith
  moreover have "1 \<le> N * m" using assms by (simp add: mult_ge1_I)
  ultimately have "\<bar>dval (dadd s v) - (dval s + dval v)\<bar> \<le> ?e"
    using dadd_near [of s v] round_err_le order_trans by blast
  then have "\<bar>dval (dadd s v) - (S + dval v)\<bar> \<le> real j * ?e + ?e" using Cons.prems(3) by linarith
  then have "\<bar>dval (dadd s v) - (S + dval v)\<bar> \<le> real (Suc j) * ?e" by (simp add: distrib_right)
  from Cons.IH [OF _ _ this] Cons.prems(1,2) sum show ?case by (simp add: add.assoc add.commute)
qed simp

lemma small_int: "\<bar>v\<bar> \<le> 2 ^ 31 \<Longrightarrow> dval (double_of_int v) = real_of_int v"
  by (rule double_of_int_exact) simp

lemma opt_fill_near:
  assumes q: "q \<noteq> []" "\<forall>v \<in> set q. \<bar>v\<bar> \<le> m" and m: "1 \<le> m" "m < 2 ^ 30" and n: "length q \<le> 2 ^ 49"
  shows "\<exists>z. ddiv (dsum (Dbl 0 0) (map double_of_int q)) (double_of_int (int (length q))) = Some z \<and>
    \<bar>dval z - real_of_int (sum_list q) / real (length q)\<bar> \<le> real (length q) * (real_of_int m / 2 ^ 50)"
proof -
  let ?n = "real (length q)" and ?M = "real_of_int m" and ?s = "dsum (Dbl 0 0) (map double_of_int q)"
    and ?S = "real_of_int (sum_list q)"
  have M: "1 \<le> ?M" and n1: "1 \<le> ?n" using m q(1) by (simp, cases q, auto)
  have vals: "\<forall>v \<in> set q. dval (double_of_int v) = real_of_int v"
    using q(2) m(2) by (auto intro!: small_int)
  then have sums: "sum_list (map dval (map double_of_int q)) = ?S" by (induction q) auto
  have "\<forall>v \<in> set (map double_of_int q). \<bar>dval v\<bar> \<le> ?M" using vals q(2) by (auto simp: abs_le_iff)
  from dsum_near [OF M n1 _ this, of 0 "Dbl 0 0" 0] n sums
  have s: "\<bar>dval ?s - ?S\<bar> \<le> ?n * (?n * ?M / 2 ^ 51)" by (simp add: dval_def)
  have dn: "dval (double_of_int (int (length q))) = ?n" using n double_of_int_exact [of "int (length q)"] by simp
  then have "mant (double_of_int (int (length q))) \<noteq> 0" using n1 dval_zero_iff [of "double_of_int (int (length q))"] by auto
  from ddiv_near [OF this, of ?s] dn obtain z where
    z: "ddiv ?s (double_of_int (int (length q))) = Some z" "\<bar>dval z - dval ?s / ?n\<bar> \<le> round_err (dval ?s / ?n)"
    by auto
  have sn: "\<bar>dval ?s / ?n - ?S / ?n\<bar> \<le> ?n * ?M / 2 ^ 51"
  proof -
    have "\<bar>(dval ?s - ?S) / ?n\<bar> \<le> ?n * ?M / 2 ^ 51" by (rule abs_div_le) (use s q(1) in simp_all)
    then show ?thesis by (simp add: diff_divide_distrib)
  qed
  have "\<bar>?S\<bar> \<le> ?n * ?M"
    using q(2) by (induction q) (auto simp: distrib_right abs_le_iff)
  then have "\<bar>?S / ?n\<bar> \<le> ?M" using q(1) by (intro abs_div_le) auto
  moreover have "?n * ?M / 2 ^ 51 \<le> ?M" using n M by (simp add: pos_divide_le_eq)
  ultimately have "\<bar>dval ?s / ?n\<bar> \<le> 7 / 2 * ?M" using sn M by linarith
  then have "\<bar>dval z - dval ?s / ?n\<bar> \<le> ?M / 2 ^ 51" using z(2) round_err_le [OF _ M] order_trans by blast
  from near_trans [OF this sn] have "\<bar>dval z - ?S / ?n\<bar> \<le> ?M / 2 ^ 51 + ?n * ?M / 2 ^ 51" .
  also have "\<dots> \<le> ?n * ?M / 2 ^ 51 + ?n * ?M / 2 ^ 51" using mult_right_mono [of 1 ?n ?M] n1 M
    by (intro add_right_mono divide_right_mono) auto
  also have "\<dots> = ?n * (?M / 2 ^ 50)" by simp
  finally have "\<bar>dval z - ?S / ?n\<bar> \<le> ?n * (?M / 2 ^ 50)" .
  with z(1) show ?thesis by blast
qed

lemma opt_slide_near:
  assumes v: "\<bar>v\<bar> \<le> m" "\<bar>l\<bar> \<le> m" and m: "1 \<le> m" "m < 2 ^ 30" and w: "w \<noteq> 0" "uint (w :: u64) < 2 ^ 53"
    and c: "\<bar>dval x - a\<bar> \<le> e" "\<bar>a + real_of_int (v - l) / real_of_int (uint w)\<bar> \<le> real_of_int m" "e \<le> real_of_int m"
  shows "\<exists>d. sub_int v l = Some (v - l) \<and> ddiv (double_of_int (v - l)) (double_of_int (uint w)) = Some d \<and>
    \<bar>dval (dadd x d) - (a + real_of_int (v - l) / real_of_int (uint w))\<bar> \<le> e + real_of_int m / 2 ^ 50"
proof -
  let ?M = "real_of_int m" and ?w = "real_of_int (uint w)" and ?D = "real_of_int (v - l)"
  have M: "1 \<le> ?M" using m by simp
  have diff: "\<bar>v - l\<bar> \<le> 2 * m" using v by linarith
  then have D: "dval (double_of_int (v - l)) = ?D" using m(2) by (intro small_int) simp
  have sub: "sub_int v l = Some (v - l)" using diff m(2) by (simp add: sub_int_def add_int_def abs_le_iff)
  have "0 < uint w" using w(1) by (metis uint_0_iff uint_ge_0 order_le_less)
  then have w1: "1 \<le> ?w" by linarith
  have dw: "dval (double_of_int (uint w)) = ?w" using w(2) by (intro double_of_int_exact) simp
  then have "mant (double_of_int (uint w)) \<noteq> 0" using w1 dval_zero_iff [of "double_of_int (uint w)"] by auto
  from ddiv_near [OF this, of "double_of_int (v - l)"] D dw obtain d where
    d: "ddiv (double_of_int (v - l)) (double_of_int (uint w)) = Some d" "\<bar>dval d - ?D / ?w\<bar> \<le> round_err (?D / ?w)"
    by auto
  have "\<bar>?D\<bar> \<le> 2 * ?M" using diff by linarith
  also have "\<dots> \<le> ?w * (2 * ?M)" using w1 M mult_right_mono [of 1 ?w "2 * ?M"] by simp
  finally have "\<bar>?D / ?w\<bar> \<le> 2 * ?M" using w1 by (intro abs_div_le) auto
  then have "\<bar>?D / ?w\<bar> \<le> 7 / 2 * ?M" using M by linarith
  then have d1: "\<bar>dval d - ?D / ?w\<bar> \<le> ?M / 2 ^ 51" using d(2) round_err_le [OF _ M] order_trans by blast
  have "?M / 2 ^ 51 \<le> ?M / 4" using M by simp
  then have "\<bar>dval x + dval d\<bar> \<le> 7 / 2 * ?M" using c d1 M by linarith
  then have "\<bar>dval (dadd x d) - (dval x + dval d)\<bar> \<le> ?M / 2 ^ 51"
    using dadd_near [of x d] round_err_le [OF _ M] order_trans by blast
  then have "\<bar>dval (dadd x d) - (a + ?D / ?w)\<bar> \<le> e + (?M / 2 ^ 51 + ?M / 2 ^ 51)" using c(1) d1 by linarith
  also have "?M / 2 ^ 51 + ?M / 2 ^ 51 = ?M / 2 ^ 50" by simp
  finally have "\<bar>dval (dadd x d) - (a + ?D / ?w)\<bar> \<le> e + ?M / 2 ^ 50" .
  with sub d(1) show ?thesis by blast
qed

text \<open>What holds after any puts: the window, and how far the mean may be off.\<close>

definition opt_ok :: "u64 \<Rightarrow> int list \<Rightarrow> int \<Rightarrow> int sma_opt \<Rightarrow> bool" where
  "opt_ok w vs m t \<longleftrightarrow>
     base t = foldl sma_put (sma_new w) vs \<and>
     (vs \<noteq> [] \<longrightarrow>
        \<bar>dval (mean t) - real_of_int (sum_list (window_of w vs)) / real (length (window_of w vs))\<bar>
          \<le> real (length vs) * (real_of_int m / 2 ^ 50))"

lemma mean_bound:
  assumes "q \<noteq> []" "\<forall>v \<in> set q. \<bar>v\<bar> \<le> m"
  shows "\<bar>real_of_int (sum_list q) / real (length q)\<bar> \<le> real_of_int m"
proof -
  have "\<bar>sum_list q\<bar> \<le> int (length q) * m"
    using assms(2) by (induction q) (auto simp: distrib_right abs_le_iff)
  then have "\<bar>real_of_int (sum_list q)\<bar> \<le> real_of_int (int (length q) * m)" by linarith
  then show ?thesis using assms(1) by (intro abs_div_le) auto
qed

lemma opt_put_ok:
  assumes ok: "opt_ok w vs m t" and w: "w \<noteq> 0" "uint w < 2 ^ 49"
    and vs: "\<forall>x \<in> set (vs @ [v]). \<bar>x\<bar> \<le> m" and m: "1 \<le> m" "m < 2 ^ 30" and n: "length vs < 2 ^ 49"
  shows "\<exists>t'. opt_put double_of_int sub_int v t = Some t' \<and> opt_ok w (vs @ [v]) m t'"
proof -
  let ?b = "foldl sma_put (sma_new w) vs" and ?q = "window_of w vs @ [v]"
  have b: "base t = ?b" "items ?b = window_of w vs" "window_size ?b = w"
    using ok sma_puts [of w vs] by (auto simp: opt_ok_def window_of_def)
  have w0: "0 < unat w" using w(1) by (simp add: unat_gt_0)
  show ?thesis
  proof (cases "length ?q \<le> unat w")
    case True
    then have all: "length vs < unat w" by (auto simp: window_of_def)
    then have q: "window_of w vs = vs" "window_of w (vs @ [v]) = vs @ [v]" by (auto simp: window_of_def)
    obtain z where z: "ddiv (dsum (Dbl 0 0) (map double_of_int ?q)) (double_of_int (int (length ?q))) = Some z"
      "\<bar>dval z - real_of_int (sum_list ?q) / real (length ?q)\<bar> \<le> real (length ?q) * (real_of_int m / 2 ^ 50)"
      using opt_fill_near [of "vs @ [v]" m] vs m n q(1) by auto
    let ?t = "\<lparr>base = ?b\<lparr>items := ?q\<rparr>, mean = z\<rparr>"
    have "opt_put double_of_int sub_int v t = Some ?t" using True z(1) by (simp add: opt_put_def b)
    moreover have "opt_ok w (vs @ [v]) m ?t" using z(2) True unfolding opt_ok_def q by (simp add: sma_put_def b Let_def q)
    ultimately show ?thesis by blast
  next
    case False
    then have full: "unat w \<le> length vs" "length (window_of w vs) = unat w" by (auto simp: window_of_def)
    then have ne: "window_of w vs \<noteq> []" "vs \<noteq> []" using w0 by auto
    let ?S = "sum_list (window_of w vs)" and ?l = "hd (window_of w vs)" and ?w = "real_of_int (uint w)"
    have win: "window_of w (vs @ [v]) = tl ?q"
      using full(1) w0 tl_drop_snoc [of "length vs - unat w" vs v] by (simp add: window_of_def Suc_diff_le)
    have S: "sum_list (window_of w (vs @ [v])) = ?S + (v - ?l)" using ne(1) unfolding win by (cases "window_of w vs") auto
    have wn: "?w = real (unat w)" by (metis of_int_of_nat_eq uint_nat)
    have len: "real (length (window_of w (vs @ [v]))) = ?w" "real (length (window_of w vs)) = ?w"
      using ne(1) full(2) w0 unfolding win wn by simp_all
    have in_vs: "\<forall>x \<in> set ?q. \<bar>x\<bar> \<le> m" using vs by (auto simp: window_of_def dest: in_set_dropD)
    have "\<bar>real_of_int ?S / ?w\<bar> \<le> real_of_int m" using mean_bound [OF ne(1)] in_vs len(2) by simp
    have "\<bar>real_of_int (?S + (v - ?l)) / ?w\<bar> \<le> real_of_int m"
      using mean_bound [of "tl ?q" m] in_vs ne(1) len(1) unfolding S [symmetric] win by (auto dest: list.set_sel(2))
    then have new: "\<bar>real_of_int ?S / ?w + real_of_int (v - ?l) / ?w\<bar> \<le> real_of_int m"
      by (simp add: add_divide_distrib)
    have old: "\<bar>dval (mean t) - real_of_int ?S / ?w\<bar> \<le> real (length vs) * (real_of_int m / 2 ^ 50)"
      using ok ne(2) len(2) by (simp add: opt_ok_def)
    have small: "real (length vs) * (real_of_int m / 2 ^ 50) \<le> real_of_int m" using n m by (simp add: mult_left_le)
    have "uint w < 2 ^ 53" using w(2) by simp
    from opt_slide_near [OF _ _ m w(1) this old new small] in_vs ne(1) obtain d where
      d: "sub_int v ?l = Some (v - ?l)" "ddiv (double_of_int (v - ?l)) (double_of_int (uint w)) = Some d"
      "\<bar>dval (dadd (mean t) d) - (real_of_int ?S / ?w + real_of_int (v - ?l) / ?w)\<bar> \<le>
         real (length vs) * (real_of_int m / 2 ^ 50) + real_of_int m / 2 ^ 50" by auto
    let ?t = "\<lparr>base = ?b\<lparr>items := tl ?q\<rparr>, mean = dadd (mean t) d\<rparr>"
    have "opt_put double_of_int sub_int v t = Some ?t"
      using False d(1,2) ne(1) by (simp add: opt_put_def b)
    moreover have "opt_ok w (vs @ [v]) m ?t"
      using d(3) False unfolding opt_ok_def S len(1)
      by (simp add: sma_put_def b Let_def add_divide_distrib distrib_right add.commute)
    ultimately show ?thesis by blast
  qed
qed

lemma opt_puts_snoc: "opt_puts conv sub (vs @ [v]) t = Option.bind (opt_puts conv sub vs t) (opt_put conv sub v)"
proof (induction vs arbitrary: t)
  case Nil
  show ?case by (cases "opt_put conv sub v t") auto
next
  case (Cons x xs)
  then show ?case by (cases "opt_put conv sub x t") auto
qed

lemma opt_run_ok:
  assumes w: "w \<noteq> 0" "uint w < 2 ^ 49" and m: "1 \<le> m" "m < 2 ^ 30"
  shows "\<forall>x \<in> set vs. \<bar>x\<bar> \<le> m \<Longrightarrow> length vs \<le> 2 ^ 49 \<Longrightarrow>
    \<exists>t. opt_run_int w vs = Some t \<and> opt_ok w vs m t"
proof (induction vs rule: rev_induct)
  case Nil
  then show ?case by (simp add: opt_ok_def opt_new_def)
next
  case (snoc v vs)
  then obtain t where "opt_run_int w vs = Some t" "opt_ok w vs m t" by auto
  then show ?case using opt_put_ok [OF _ w snoc.prems(1) m, of t] snoc.prems(2) by (auto simp: opt_puts_snoc)
qed

lemma opt_uint_wraps: "Option.bind (opt_run_uint 3 [2, 6, 10, 1]) opt_get_uint = Some 1431655771"
  by code_simp

lemma sma_test_float_passes: "sma_test_float = map Some (replicate 7 True)"
  by code_simp

text \<open>
  For integers up to \<open>m\<close> below \<open>2 ^ 30\<close>, so that no difference overflows, the average that is updated has
  the window of the plain one, and after \<open>n\<close> puts its value is within \<open>n * m / 2 ^ 50\<close> of the mean of the
  window. For \<^verbatim>\<open>unsigned\<close> the difference wraps as soon as a value is less than the one that leaves the window:
  after 2, 6, 10, 1 with a window of three, whose mean is below 6, the answer is 1431655771. The test of the
  plain average of doubles, which is what both calls of the test run, succeeds.
\<close>

theorem sma_optimized_error:
  assumes "w \<noteq> 0" "uint w < 2 ^ 49" "vs \<noteq> []" "length vs \<le> 2 ^ 49"
    and "1 \<le> m" "m < 2 ^ 30" "\<forall>x \<in> set vs. \<bar>x\<bar> \<le> m"
  shows "(\<exists>t. opt_run_int w vs = Some t \<and> base t = foldl sma_put (sma_new w) vs \<and>
      items (base t) = window_of w vs \<and>
      \<bar>dval (mean t) - real_of_int (sum_list (window_of w vs)) / real (length (window_of w vs))\<bar>
        \<le> real (length vs) * (real_of_int m / 2 ^ 50)) \<and>
    Option.bind (opt_run_uint 3 [2, 6, 10, 1]) opt_get_uint = Some 1431655771 \<and>
    sma_test_float = map Some (replicate 7 True)"
  using opt_run_ok [OF assms(1,2,5,6,7,4)] assms(3) opt_uint_wraps sma_test_float_passes sma_puts [of w vs]
  by (auto simp: opt_ok_def window_of_def)

theorem sma_optimized_error_witness:
  "\<exists>t. opt_run_int 3 [2, 6, 10, - 1] = Some t \<and> items (base t) = [6, 10, - 1] \<and>
     \<bar>dval (mean t) - 5\<bar> \<le> 4 * (10 / 2 ^ 50)"
  using sma_optimized_error [of 3 "[2, 6, 10, - 1]" 10] by (auto simp: window_of_def)

end
