(* ===== verification/Exclusion.thy ===== *)
theory Exclusion
  imports Main
begin

section \<open>Mutual exclusion of interleaved clients\<close>

text \<open>
  Several programs of the repository let threads or processes share a lock. A system of clients is a
  step relation on its states; one step is one atomic operation of one client. The locale is the
  contract of a lock: entering needs the lock to be free and takes it, only a holder gives it back,
  and two clients do not enter in one step. Exclusion is proved once from that.
\<close>

inductive reachable :: "('s \<Rightarrow> 's \<Rightarrow> bool) \<Rightarrow> 's \<Rightarrow> 's \<Rightarrow> bool" for step init where
  start: "reachable step init init"
| next_step: "reachable step init s \<Longrightarrow> step s s' \<Longrightarrow> reachable step init s'"

lemma reachable_invariant:
  assumes "reachable step init s" "I init" "\<And>s s'. I s \<Longrightarrow> step s s' \<Longrightarrow> I s'"
  shows "I s"
  using assms(1) by (induction) (use assms(2,3) in auto)

text \<open>A schedule that can be run step by step leads to a reachable state.\<close>

fun run_schedule :: "('l \<Rightarrow> 's \<Rightarrow> 's option) \<Rightarrow> 'l list \<Rightarrow> 's \<Rightarrow> 's option" where
  "run_schedule exec [] s = Some s"
| "run_schedule exec (l # ls) s = (case exec l s of None \<Rightarrow> None | Some s' \<Rightarrow> run_schedule exec ls s')"

lemma reachable_trans:
  "reachable step b c \<Longrightarrow> reachable step a b \<Longrightarrow> reachable step a c"
  by (induction rule: reachable.induct) (auto intro: reachable.intros)

definition exec_step :: "('l \<Rightarrow> 's \<Rightarrow> 's option) \<Rightarrow> 's \<Rightarrow> 's \<Rightarrow> bool" where
  "exec_step exec s s' \<longleftrightarrow> (\<exists>l. exec l s = Some s')"

lemma run_schedule_reachable:
  "run_schedule exec ls s = Some s' \<Longrightarrow> reachable (exec_step exec) s s'"
proof (induction ls arbitrary: s)
  case (Cons l ls)
  then obtain t where t: "exec l s = Some t" "run_schedule exec ls t = Some s'"
    by (auto split: option.splits)
  then have "exec_step exec s t" by (auto simp: exec_step_def)
  then have "reachable (exec_step exec) s t" by (rule reachable.next_step [OF reachable.start])
  with Cons.IH [OF t(2)] show ?case by (rule reachable_trans)
qed (simp add: reachable.start)

locale exclusion =
  fixes step :: "'s \<Rightarrow> 's \<Rightarrow> bool"
    and init :: "'s"
    and ok :: "'s \<Rightarrow> bool"
    and free :: "'s \<Rightarrow> bool"
    and holds :: "'s \<Rightarrow> 't \<Rightarrow> bool"
  assumes ok_init: "ok init"
    and ok_step: "ok s \<Longrightarrow> step s s' \<Longrightarrow> ok s'"
    and none_init: "\<not> holds init t"
    and enter: "ok s \<Longrightarrow> step s s' \<Longrightarrow> holds s' t \<Longrightarrow> \<not> holds s t \<Longrightarrow> free s \<and> \<not> free s'"
    and enter_one: "ok s \<Longrightarrow> step s s' \<Longrightarrow> holds s' t \<Longrightarrow> \<not> holds s t \<Longrightarrow>
      holds s' u \<Longrightarrow> \<not> holds s u \<Longrightarrow> t = u"
    and leave: "ok s \<Longrightarrow> step s s' \<Longrightarrow> \<not> free s \<Longrightarrow> free s' \<Longrightarrow> \<exists>t. holds s t \<and> \<not> holds s' t"
begin

definition safe :: "'s \<Rightarrow> bool" where
  "safe s \<longleftrightarrow> ok s \<and> (free s \<longrightarrow> (\<forall>t. \<not> holds s t)) \<and> (\<forall>t u. holds s t \<longrightarrow> holds s u \<longrightarrow> t = u)"

lemma safe_step: "safe s \<Longrightarrow> step s s' \<Longrightarrow> safe s'"
  unfolding safe_def using ok_step enter enter_one leave by metis

lemma reachable_safe: "reachable step init s \<Longrightarrow> safe s"
proof (induction rule: reachable.induct)
  case start
  show ?case by (simp add: safe_def ok_init none_init)
next
  case (next_step s s')
  then show ?case by (blast intro: safe_step)
qed

lemma at_most_one: "reachable step init s \<Longrightarrow> holds s t \<Longrightarrow> holds s u \<Longrightarrow> t = u"
  using reachable_safe unfolding safe_def by blast

lemma reachable_ok: "reachable step init s \<Longrightarrow> ok s"
  using reachable_safe unfolding safe_def by blast

end

end
