(* ===== verification/Concurrent_Container.thy ===== *)
theory Concurrent_Container
  imports Exclusion
begin

section \<open>Containers shared between threads\<close>

text \<open>
  Models \<^verbatim>\<open>ConcurrentContainer\<close> and \<^verbatim>\<open>MutexContainer\<close> of \<^verbatim>\<open>concurrent_read_write/concurrency.cpp\<close>.
  Threads are numbers. A thread calls \<^verbatim>\<open>get\<close> or \<^verbatim>\<open>set\<close> and then runs the body, one access to shared
  memory at a time; its position in the body is its program counter. The sleeps have no effect on
  the state and may take any time. A log records what the calls returned, in the order they did.
  The counter of readers is an integer: it is at most the number of threads.
\<close>

datatype 'a request = Get | Set 'a
datatype 'a label = Call nat "'a request" | Run nat
datatype 'a event = Got 'a | Stored 'a

datatype 'a pc =
    Idle
  | Get_check | Get_count | Get_read | Get_leave 'a
  | Set_claim 'a | Set_drain 'a | Set_write 'a | Set_leave 'a

record 'a container =
  cdata :: 'a
  readers :: int
  write_flag :: bool
  pos :: "nat \<Rightarrow> 'a pc"
  returned :: "(nat \<times> 'a event) list"

definition cc_new :: "'a \<Rightarrow> 'a container" where
  "cc_new value =
     \<lparr>cdata = value, readers = 0, write_flag = False, pos = (\<lambda>_. Idle), returned = []\<rparr>"

definition goto :: "nat \<Rightarrow> 'a pc \<Rightarrow> 'a container \<Rightarrow> 'a container" where
  "goto t p s = s\<lparr>pos := (pos s)(t := p)\<rparr>"

definition acquire_read :: "nat \<Rightarrow> 'a container \<Rightarrow> 'a container" where
  "acquire_read t s =
     (case pos s t of
        Get_check \<Rightarrow> if write_flag s then s else goto t Get_count s
      | Get_count \<Rightarrow> goto t Get_read (s\<lparr>readers := readers s + 1\<rparr>)
      | _ \<Rightarrow> s)"

definition release_read :: "'a container \<Rightarrow> 'a container" where
  "release_read s = s\<lparr>readers := readers s - 1\<rparr>"

definition acquire_write :: "nat \<Rightarrow> 'a container \<Rightarrow> 'a container" where
  "acquire_write t s =
     (case pos s t of
        Set_claim v \<Rightarrow>
          if write_flag s then s else goto t (Set_drain v) (s\<lparr>write_flag := True\<rparr>)
      | Set_drain v \<Rightarrow> if readers s > 0 then s else goto t (Set_write v) s
      | _ \<Rightarrow> s)"

definition release_write :: "'a container \<Rightarrow> 'a container" where
  "release_write s = s\<lparr>write_flag := False\<rparr>"

definition cc_get :: "nat \<Rightarrow> 'a container \<Rightarrow> 'a container" where
  "cc_get t s =
     (case pos s t of
        Get_read \<Rightarrow> goto t (Get_leave (cdata s)) s
      | Get_leave v \<Rightarrow> (goto t Idle (release_read s))\<lparr>returned := returned s @ [(t, Got v)]\<rparr>
      | _ \<Rightarrow> acquire_read t s)"

definition cc_set :: "nat \<Rightarrow> 'a container \<Rightarrow> 'a container" where
  "cc_set t s =
     (case pos s t of
        Set_write v \<Rightarrow> goto t (Set_leave v) (s\<lparr>cdata := v\<rparr>)
      | Set_leave v \<Rightarrow> (goto t Idle (release_write s))\<lparr>returned := returned s @ [(t, Stored v)]\<rparr>
      | _ \<Rightarrow> acquire_write t s)"

fun cc_exec :: "'a label \<Rightarrow> 'a container \<Rightarrow> 'a container option" where
  "cc_exec (Call t r) s =
     (if pos s t \<noteq> Idle then None
      else Some (goto t (case r of Get \<Rightarrow> Get_check | Set v \<Rightarrow> Set_claim v) s))"
| "cc_exec (Run t) s =
     (case pos s t of
        Idle \<Rightarrow> None
      | Get_check \<Rightarrow> Some (cc_get t s) | Get_count \<Rightarrow> Some (cc_get t s)
      | Get_read \<Rightarrow> Some (cc_get t s) | Get_leave v \<Rightarrow> Some (cc_get t s)
      | _ \<Rightarrow> Some (cc_set t s))"

subsection \<open>With a mutex\<close>

datatype 'a mpc =
    MIdle
  | MGet_lock | MGet_read | MGet_unlock 'a
  | MSet_lock 'a | MSet_write 'a | MSet_unlock 'a

record 'a mcontainer =
  mdata :: 'a
  mtx :: "nat option"
  mat :: "nat \<Rightarrow> 'a mpc"
  mreturned :: "(nat \<times> 'a event) list"

definition mc_new :: "'a \<Rightarrow> 'a mcontainer" where
  "mc_new value = \<lparr>mdata = value, mtx = None, mat = (\<lambda>_. MIdle), mreturned = []\<rparr>"

definition mgoto :: "nat \<Rightarrow> 'a mpc \<Rightarrow> 'a mcontainer \<Rightarrow> 'a mcontainer" where
  "mgoto t p s = s\<lparr>mat := (mat s)(t := p)\<rparr>"

text \<open>\<^verbatim>\<open>std::lock_guard\<close>: its constructor waits for the mutex, so no step is possible until it is free.\<close>

definition mutex_lock :: "nat \<Rightarrow> 'a mcontainer \<Rightarrow> 'a mcontainer option" where
  "mutex_lock t s = (if mtx s = None then Some (s\<lparr>mtx := Some t\<rparr>) else None)"

definition mutex_unlock :: "'a mcontainer \<Rightarrow> 'a mcontainer" where
  "mutex_unlock s = s\<lparr>mtx := None\<rparr>"

definition mc_get :: "nat \<Rightarrow> 'a mcontainer \<Rightarrow> 'a mcontainer option" where
  "mc_get t s =
     (case mat s t of
        MGet_lock \<Rightarrow> map_option (mgoto t MGet_read) (mutex_lock t s)
      | MGet_read \<Rightarrow> Some (mgoto t (MGet_unlock (mdata s)) s)
      | MGet_unlock v \<Rightarrow> Some ((mgoto t MIdle (mutex_unlock s))\<lparr>mreturned := mreturned s @ [(t, Got v)]\<rparr>)
      | _ \<Rightarrow> None)"

definition mc_set :: "nat \<Rightarrow> 'a mcontainer \<Rightarrow> 'a mcontainer option" where
  "mc_set t s =
     (case mat s t of
        MSet_lock v \<Rightarrow> map_option (mgoto t (MSet_write v)) (mutex_lock t s)
      | MSet_write v \<Rightarrow> Some (mgoto t (MSet_unlock v) (s\<lparr>mdata := v\<rparr>))
      | MSet_unlock v \<Rightarrow> Some ((mgoto t MIdle (mutex_unlock s))\<lparr>mreturned := mreturned s @ [(t, Stored v)]\<rparr>)
      | _ \<Rightarrow> None)"

fun mc_exec :: "'a label \<Rightarrow> 'a mcontainer \<Rightarrow> 'a mcontainer option" where
  "mc_exec (Call t r) s =
     (if mat s t \<noteq> MIdle then None
      else Some (mgoto t (case r of Get \<Rightarrow> MGet_lock | Set v \<Rightarrow> MSet_lock v) s))"
| "mc_exec (Run t) s =
     (case mat s t of
        MIdle \<Rightarrow> None
      | MGet_lock \<Rightarrow> mc_get t s | MGet_read \<Rightarrow> mc_get t s | MGet_unlock v \<Rightarrow> mc_get t s
      | _ \<Rightarrow> mc_set t s)"

end
