(* ===== verification/Container_Benchmark.thy ===== *)
theory Container_Benchmark
  imports Concurrent_Container
begin

section \<open>The benchmark of the containers\<close>

text \<open>
  Models \<^verbatim>\<open>main\<close> of \<^verbatim>\<open>concurrent_read_write/concurrency.cpp\<close>: two threads call \<^verbatim>\<open>set\<close> and \<^verbatim>\<open>get\<close> of one container, and when
  both have ended the program prints its value; the time it measures is left out. The engines of the threads are
  not seeded, so both draw the same numbers, which are an argument. One step is a step of one thread: it starts the
  next call or goes on with the one it is in. The container is given by its operations.
\<close>

record 's bench =
  cont :: 's
  todo :: "nat \<Rightarrow> int list"
  last_val :: "nat \<Rightarrow> int"

definition bench_new :: "'s \<Rightarrow> int list \<Rightarrow> 's bench" where
  "bench_new c numbers = \<lparr>cont = c, todo = (\<lambda>t. if t < 2 then numbers else []), last_val = (\<lambda>_. 0)\<rparr>"

text \<open>The body of the loop: which call a number makes, and what the variable \<^verbatim>\<open>last\<close> is after it.\<close>

definition bench_request :: "int \<Rightarrow> int \<Rightarrow> int request" where
  "bench_request number own = (if number \<le> 2 then Set own else Get)"

fun bench_return :: "int event \<Rightarrow> int \<Rightarrow> int" where
  "bench_return (Got v) own = v"
| "bench_return (Stored v) own = own + 1"

definition bench_exec ::
    "(int label \<Rightarrow> 's \<Rightarrow> 's option) \<Rightarrow> ('s \<Rightarrow> nat \<Rightarrow> bool) \<Rightarrow> ('s \<Rightarrow> (nat \<times> int event) list) \<Rightarrow>
     nat \<Rightarrow> 's bench \<Rightarrow> 's bench option" where
  "bench_exec exec idle log t b =
     (if idle (cont b) t then
        (case todo b t of
           [] \<Rightarrow> None
         | n # ns \<Rightarrow> map_option (\<lambda>c. b\<lparr>cont := c\<rparr>) (exec (Call t (bench_request n (last_val b t))) (cont b)))
      else
        (case exec (Run t) (cont b) of
           None \<Rightarrow> None
         | Some c \<Rightarrow>
             Some (if idle c t then
                     b\<lparr>cont := c, todo := (todo b)(t := tl (todo b t)),
                       last_val := (last_val b)(t := bench_return (snd (last (log c))) (last_val b t))\<rparr>
                   else b\<lparr>cont := c\<rparr>)))"

definition bench_over :: "('s \<Rightarrow> nat \<Rightarrow> bool) \<Rightarrow> 's bench \<Rightarrow> bool" where
  "bench_over idle b \<longleftrightarrow> todo b 0 = [] \<and> todo b 1 = [] \<and> idle (cont b) 0 \<and> idle (cont b) 1"

text \<open>
  Both halves of \<^verbatim>\<open>main\<close>: the threads run as the schedule says, and when they have been joined the main thread, number
  2, calls \<^verbatim>\<open>get\<close>. The result is what is printed, none when the schedule does not end both threads.
\<close>

definition mc_idle :: "'a mcontainer \<Rightarrow> nat \<Rightarrow> bool" where
  "mc_idle c t \<longleftrightarrow> (case mat c t of MIdle \<Rightarrow> True | _ \<Rightarrow> False)"

definition cc_idle :: "'a container \<Rightarrow> nat \<Rightarrow> bool" where
  "cc_idle c t \<longleftrightarrow> (case pos c t of Idle \<Rightarrow> True | _ \<Rightarrow> False)"

definition mutex_bench :: "nat \<Rightarrow> int mcontainer bench \<Rightarrow> int mcontainer bench option" where
  "mutex_bench = bench_exec mc_exec mc_idle mreturned"

definition mutex_main :: "int list \<Rightarrow> nat list \<Rightarrow> int option" where
  "mutex_main numbers sched =
     (case run_schedule mutex_bench sched (bench_new (mc_new 5) numbers) of
        None \<Rightarrow> None
      | Some b \<Rightarrow>
          if \<not> bench_over mc_idle b then None
          else case run_schedule mc_exec [Call 2 Get, Run 2, Run 2, Run 2] (cont b) of
              None \<Rightarrow> None
            | Some c \<Rightarrow> Some (bench_return (snd (last (mreturned c))) 0))"

definition concurrent_bench :: "nat \<Rightarrow> int container bench \<Rightarrow> int container bench option" where
  "concurrent_bench = bench_exec cc_exec cc_idle returned"

definition concurrent_main :: "int list \<Rightarrow> nat list \<Rightarrow> int option" where
  "concurrent_main numbers sched =
     (case run_schedule concurrent_bench sched (bench_new (cc_new 5) numbers) of
        None \<Rightarrow> None
      | Some b \<Rightarrow>
          if \<not> bench_over cc_idle b then None
          else case run_schedule cc_exec [Call 2 Get, Run 2, Run 2, Run 2, Run 2] (cont b) of
              None \<Rightarrow> None
            | Some c \<Rightarrow> Some (bench_return (snd (last (returned c))) 0))"

end
