(* ===== verification/Container_Properties.thy ===== *)
theory Container_Properties
  imports Concurrent_Container Prelude
begin

section \<open>What the shared containers promise\<close>

text \<open>
  Writers of the lock-free container exclude each other and its counter counts the readers, but a
  reader and a writer can be inside together; the container with a mutex is a register: what its
  calls return is what a sequential execution would return.
\<close>

definition cc_free :: "'a container \<Rightarrow> bool" where
  "cc_free s \<longleftrightarrow> \<not> write_flag s"

definition cc_writer :: "'a container \<Rightarrow> nat \<Rightarrow> bool" where
  "cc_writer s t \<longleftrightarrow> (\<exists>v. pos s t \<in> {Set_drain v, Set_write v, Set_leave v})"

definition cc_reader :: "'a container \<Rightarrow> nat \<Rightarrow> bool" where
  "cc_reader s t \<longleftrightarrow> pos s t = Get_read \<or> (\<exists>v. pos s t = Get_leave v)"

definition cc_count_ok :: "'a container \<Rightarrow> bool" where
  "cc_count_ok s \<longleftrightarrow> finite {t. cc_reader s t} \<and> readers s = int (card {t. cc_reader s t})"

lemmas cc_defs = exec_step_def goto_def acquire_read_def acquire_write_def release_read_def
  release_write_def cc_get_def cc_set_def

lemma cc_step_cases:
  assumes "exec_step cc_exec s s'"
  obtains (stay) "s' = s"
  | (move) t p where "s' = s\<lparr>pos := (pos s)(t := p)\<rparr>"
      "\<not> cc_reader s t" "\<not> cc_writer s t" "p \<in> {Get_check, Get_count} \<or> (\<exists>v. p = Set_claim v)"
  | (count) t where "s' = s\<lparr>pos := (pos s)(t := Get_read), readers := readers s + 1\<rparr>" "pos s t = Get_count"
  | (read) t where "s' = s\<lparr>pos := (pos s)(t := Get_leave (cdata s))\<rparr>" "pos s t = Get_read"
  | (left) t v where "s' = s\<lparr>pos := (pos s)(t := Idle), readers := readers s - 1, returned := returned s @ [(t, Got v)]\<rparr>"
      "pos s t = Get_leave v"
  | (claim) t v where "s' = s\<lparr>pos := (pos s)(t := Set_drain v), write_flag := True\<rparr>"
      "pos s t = Set_claim v" "\<not> write_flag s"
  | (drain) t v where "s' = s\<lparr>pos := (pos s)(t := Set_write v)\<rparr>" "pos s t = Set_drain v"
  | (store) t v where "s' = s\<lparr>pos := (pos s)(t := Set_leave v), cdata := v\<rparr>" "pos s t = Set_write v"
  | (release) t v where "s' = s\<lparr>pos := (pos s)(t := Idle), write_flag := False, returned := returned s @ [(t, Stored v)]\<rparr>"
      "pos s t = Set_leave v"
proof -
  from assms obtain l where l: "cc_exec l s = Some s'" by (auto simp: exec_step_def)
  show thesis
  proof (cases l)
    case (Call t r)
    with l show thesis
      by (intro move [where t = t and p = "case r of Get \<Rightarrow> Get_check | Set v \<Rightarrow> Set_claim v"])
        (auto simp: cc_defs cc_reader_def cc_writer_def split: if_splits request.splits)
  next
    case (Run t)
    with l show thesis
      using stay move [where t = t and p = Get_count] count [where t = t] read [where t = t]
        left [where t = t] claim [where t = t] drain [where t = t] store [where t = t]
        release [where t = t]
      by (cases "pos s t") (auto simp: cc_defs cc_reader_def cc_writer_def split: if_splits)
  qed
qed

interpretation cc_writers: exclusion "exec_step cc_exec" "cc_new x" "\<lambda>_. True" cc_free cc_writer
  for x
proof (unfold_locales, goal_cases)
  case (4 s s' t)
  then show ?case
    by (cases rule: cc_step_cases [OF 4(2)]) (auto simp: cc_writer_def cc_free_def split: if_splits)
next
  case (5 s s' t u)
  then show ?case
    by (cases rule: cc_step_cases [OF 5(2)]) (auto simp: cc_writer_def cc_free_def split: if_splits)
next
  case (6 s s')
  then show ?case
  proof (cases rule: cc_step_cases [OF 6(2)])
    case (9 t v)
    then show ?thesis by (intro exI [of _ t]) (simp add: cc_writer_def)
  qed (auto simp: cc_free_def)
qed (auto simp: cc_new_def cc_writer_def)

text \<open>The counter holds the number of threads that are reading.\<close>

lemma cc_count_upd:
  assumes "cc_count_ok s" "pos s' = (pos s)(t := p)"
    and "readers s' = readers s + of_bool (cc_reader s' t) - of_bool (cc_reader s t)"
  shows "cc_count_ok s'"
proof -
  let ?R = "{u. cc_reader s u}"
  have "{u. cc_reader s' u} = (if cc_reader s' t then insert t ?R else ?R - {t})"
    using assms(2) by (auto simp: cc_reader_def split: if_splits)
  moreover have "finite ?R" "readers s = int (card ?R)" using assms(1) by (auto simp: cc_count_ok_def)
  ultimately show ?thesis
    using assms(3) card_Suc_Diff1 [of ?R t]
    by (cases "cc_reader s t"; cases "cc_reader s' t") (auto simp: cc_count_ok_def insert_absorb)
qed

lemma cc_count_step [keeps]:
  assumes "cc_count_ok s" "exec_step cc_exec s s'"
  shows "cc_count_ok s'"
  using assms(2)
proof (cases rule: cc_step_cases)
  case stay
  with assms show ?thesis by simp
next
  case (move t p)
  then show ?thesis using cc_count_upd [OF assms(1), of s' t p] by (auto simp: cc_reader_def)
next
  case (count t)
  then show ?thesis using cc_count_upd [OF assms(1), of s' t] by (simp add: cc_reader_def)
next
  case (read t)
  then show ?thesis using cc_count_upd [OF assms(1), of s' t] by (simp add: cc_reader_def)
next
  case (left t v)
  then show ?thesis using cc_count_upd [OF assms(1), of s' t] by (simp add: cc_reader_def)
next
  case (claim t v)
  then show ?thesis using cc_count_upd [OF assms(1), of s' t] by (simp add: cc_reader_def)
next
  case (drain t v)
  then show ?thesis using cc_count_upd [OF assms(1), of s' t] by (simp add: cc_reader_def)
next
  case (store t v)
  then show ?thesis using cc_count_upd [OF assms(1), of s' t] by (simp add: cc_reader_def)
next
  case (release t v)
  then show ?thesis using cc_count_upd [OF assms(1), of s' t] by (simp add: cc_reader_def)
qed

lemma cc_count_reachable: "reachable (exec_step cc_exec) (cc_new x) s \<Longrightarrow> cc_count_ok s"
proof (induction rule: reachable.induct)
  case start
  show ?case by (simp add: cc_count_ok_def cc_new_def cc_reader_def)
qed (rule cc_count_step)

text \<open>
  C13: In \<^verbatim>\<open>ConcurrentContainer\<close>, whatever calls the threads make and however they interleave, at most one
  thread is between acquiring and releasing the write lock, and \<^verbatim>\<open>readers_\<close> is the number of threads
  that hold the read lock, so it is never negative.
\<close>

theorem cc_writers_exclusive:
  assumes "reachable (exec_step cc_exec) (cc_new x) s"
  shows "(cc_writer s t \<longrightarrow> cc_writer s u \<longrightarrow> t = u) \<and>
    finite {t. cc_reader s t} \<and> readers s = int (card {t. cc_reader s t})"
  using cc_writers.at_most_one [OF assms] cc_count_reachable [OF assms]
  unfolding cc_count_ok_def by blast

definition cc_race :: "nat label list" where
  "cc_race = [Call 0 Get, Run 0, Call 1 (Set 7), Run 1, Run 1, Run 0]"

lemma cc_race_run:
  "run_schedule cc_exec cc_race (cc_new 5) =
     Some \<lparr>cdata = 5, readers = 1, write_flag = True,
       pos = (\<lambda>_. Idle)(0 := Get_read, 1 := Set_write 7), returned = []\<rparr>"
  by (simp add: cc_race_def cc_new_def cc_defs fun_upd_twist fun_upd_upd)

theorem cc_writers_exclusive_witness:
  "\<exists>s. run_schedule cc_exec cc_race (cc_new (5 :: nat)) = Some s \<and> readers s = int (card {t. cc_reader s t})"
proof -
  from run_schedule_reachable [OF cc_race_run]
  have "reachable (exec_step cc_exec) (cc_new (5 :: nat)) \<lparr>cdata = 5, readers = 1, write_flag = True,
       pos = (\<lambda>_. Idle)(0 := Get_read, 1 := Set_write 7), returned = []\<rparr>" .
  from cc_writers_exclusive [OF this] cc_race_run show ?thesis by blast
qed

text \<open>
  Readers and writers of \<^verbatim>\<open>ConcurrentContainer\<close> do not exclude each other: a reader that has seen no
  writer counts itself only afterwards, and a writer that claims the flag in between finds no reader.
  Both are then about to access the data.
\<close>

theorem cc_read_write_race:
  "\<exists>s. reachable (exec_step cc_exec) (cc_new (5 :: nat)) s \<and> pos s 0 = Get_read \<and> pos s 1 = Set_write 7"
  using run_schedule_reachable [OF cc_race_run] by (intro exI conjI) auto

subsection \<open>The container with a mutex\<close>

definition mc_free :: "'a mcontainer \<Rightarrow> bool" where
  "mc_free s \<longleftrightarrow> mtx s = None"

definition mc_inside :: "'a mcontainer \<Rightarrow> nat \<Rightarrow> bool" where
  "mc_inside s t \<longleftrightarrow> (\<exists>v. mat s t \<in> {MGet_read, MGet_unlock v, MSet_write v, MSet_unlock v})"

lemmas mc_defs = exec_step_def mgoto_def mutex_lock_def mutex_unlock_def mc_get_def mc_set_def

lemma mc_step_cases:
  assumes "exec_step mc_exec s s'"
  obtains (call) t r where "s' = s\<lparr>mat := (mat s)(t := case r of Get \<Rightarrow> MGet_lock | Set v \<Rightarrow> MSet_lock v)\<rparr>"
      "mat s t = MIdle"
  | (lock) t p where "s' = s\<lparr>mtx := Some t, mat := (mat s)(t := p)\<rparr>" "mtx s = None"
      "p = MGet_read \<or> (\<exists>v. p = MSet_write v)" "\<not> mc_inside s t"
  | (read) t where "s' = s\<lparr>mat := (mat s)(t := MGet_unlock (mdata s))\<rparr>" "mat s t = MGet_read"
  | (got) t v where "s' = s\<lparr>mat := (mat s)(t := MIdle), mtx := None, mreturned := mreturned s @ [(t, Got v)]\<rparr>"
      "mat s t = MGet_unlock v"
  | (store) t v where "s' = s\<lparr>mat := (mat s)(t := MSet_unlock v), mdata := v\<rparr>" "mat s t = MSet_write v"
  | (stored) t v where "s' = s\<lparr>mat := (mat s)(t := MIdle), mtx := None, mreturned := mreturned s @ [(t, Stored v)]\<rparr>"
      "mat s t = MSet_unlock v"
proof -
  from assms obtain l where l: "mc_exec l s = Some s'" by (auto simp: exec_step_def)
  show thesis
  proof (cases l)
    case (Call t r)
    with l show thesis by (intro call [where t = t and r = r]) (auto simp: mc_defs split: if_splits)
  next
    case (Run t)
    with l show thesis
      using lock [where t = t] read [where t = t] got [where t = t] store [where t = t] stored [where t = t]
      by (cases "mat s t") (auto simp: mc_defs mc_inside_def split: if_splits)
  qed
qed

interpretation mc_mutex: exclusion "exec_step mc_exec" "mc_new x" "\<lambda>_. True" mc_free mc_inside
  for x
proof (unfold_locales, goal_cases)
  case (4 s s' t)
  then show ?case
    by (cases rule: mc_step_cases [OF 4(2)])
      (auto simp: mc_inside_def mc_free_def split: if_splits request.splits)
next
  case (5 s s' t u)
  then show ?case
    by (cases rule: mc_step_cases [OF 5(2)])
      (auto simp: mc_inside_def mc_free_def split: if_splits request.splits)
next
  case (6 s s')
  then show ?case
  proof (cases rule: mc_step_cases [OF 6(2)])
    case (4 t v)
    then show ?thesis by (intro exI [of _ t]) (simp add: mc_inside_def)
  next
    case (6 t v)
    then show ?thesis by (intro exI [of _ t]) (simp add: mc_inside_def)
  qed (auto simp: mc_free_def)
qed (auto simp: mc_new_def mc_inside_def)

text \<open>A register: what a sequence of events would be when one call ran after the other.\<close>

fun register_run :: "'a \<Rightarrow> (nat \<times> 'a event) list \<Rightarrow> 'a option" where
  "register_run v [] = Some v"
| "register_run v ((t, Got w) # es) = (if w = v then register_run v es else None)"
| "register_run v ((t, Stored w) # es) = register_run w es"

lemma register_run_snoc:
  "register_run v (es @ [(t, e)]) =
     (case register_run v es of None \<Rightarrow> None
      | Some u \<Rightarrow> (case e of Got w \<Rightarrow> if w = u then Some u else None | Stored w \<Rightarrow> Some w))"
  by (induction v es rule: register_run.induct) (auto split: event.split)

definition mc_ok :: "'a \<Rightarrow> 'a mcontainer \<Rightarrow> bool" where
  "mc_ok x s \<longleftrightarrow> (\<exists>v. register_run x (mreturned s) = Some v \<and>
     (\<forall>t w. mat s t = MGet_unlock w \<longrightarrow> w = v \<and> mdata s = v) \<and>
     (\<forall>t w. mat s t = MSet_unlock w \<longrightarrow> mdata s = w) \<and>
     ((\<forall>t w. mat s t \<noteq> MSet_unlock w) \<longrightarrow> mdata s = v))"

lemma mc_ok_same:
  assumes "mc_ok x s" "mreturned s' = mreturned s" "mdata s' = mdata s"
    and "\<And>u w. mat s' u = MSet_unlock w \<longleftrightarrow> mat s u = MSet_unlock w"
    and "\<And>u w. mat s' u = MGet_unlock w \<longleftrightarrow> mat s u = MGet_unlock w"
  shows "mc_ok x s'"
  using assms by (simp add: mc_ok_def)

lemma mc_ok_step [keeps]:
  assumes ok: "mc_ok x s" and excl: "\<And>t u. mc_inside s t \<Longrightarrow> mc_inside s u \<Longrightarrow> t = u"
    and step: "exec_step mc_exec s s'"
  shows "mc_ok x s'"
proof -
  from ok obtain v where v: "register_run x (mreturned s) = Some v"
    "\<And>t w. mat s t = MGet_unlock w \<Longrightarrow> w = v \<and> mdata s = v"
    "\<And>t w. mat s t = MSet_unlock w \<Longrightarrow> mdata s = w"
    "(\<forall>t w. mat s t \<noteq> MSet_unlock w) \<Longrightarrow> mdata s = v"
    unfolding mc_ok_def by blast
  have alone: "mat s u \<noteq> MSet_unlock w" "mat s u \<noteq> MGet_unlock w" if "mc_inside s t" "t \<noteq> u" for t u w
    using excl [OF that(1), of u] that(2) by (auto simp: mc_inside_def)
  show ?thesis
    using step
  proof (cases rule: mc_step_cases)
    case (call t r)
    then show ?thesis by (intro mc_ok_same [OF ok]) (auto split: request.splits)
  next
    case (lock t p)
    then show ?thesis by (intro mc_ok_same [OF ok]) (auto simp: mc_inside_def)
  next
    case (read t)
    then have "mc_inside s t" by (simp add: mc_inside_def)
    with read v(4) alone [of t] have "mdata s = v" by (metis mpc.distinct(29))
    with read v show ?thesis unfolding mc_ok_def by (intro exI [of _ v]) auto
  next
    case (got t w)
    with v have "w = v" "mdata s = v" by auto
    moreover have "mc_inside s t" using got by (simp add: mc_inside_def)
    ultimately show ?thesis using got v alone [of t] unfolding mc_ok_def
      by (intro exI [of _ v]) (auto simp: register_run_snoc)
  next
    case (store t w)
    then have "mc_inside s t" by (simp add: mc_inside_def)
    with store v alone [of t] show ?thesis unfolding mc_ok_def by (intro exI [of _ v]) auto
  next
    case (stored t w)
    then have "mc_inside s t" "mdata s = w" using v(3) by (auto simp: mc_inside_def)
    have "register_run x (mreturned s') = Some w" "mdata s' = w"
      using stored v(1) \<open>mdata s = w\<close> by (simp_all add: register_run_snoc)
    moreover have "mat s' u \<noteq> MGet_unlock k" "mat s' u \<noteq> MSet_unlock k" for u k
      using stored alone [OF \<open>mc_inside s t\<close>, of u] by auto
    ultimately show ?thesis unfolding mc_ok_def by blast
  qed
qed

lemma mc_ok_reachable: "reachable (exec_step mc_exec) (mc_new x) s \<Longrightarrow> mc_ok x s"
proof (induction rule: reachable.induct)
  case start
  show ?case by (simp add: mc_ok_def mc_new_def)
next
  case (next_step s s')
  show ?case
    by (rule mc_ok_step [OF next_step.IH mc_mutex.at_most_one [OF next_step.hyps(1)] next_step.hyps(2)])
qed

text \<open>
  C11: \<^verbatim>\<open>MutexContainer\<close> is linearizable: whatever calls the threads make and however they interleave,
  at most one thread is inside, and the calls returned in the order they did are the calls of a
  sequential execution on a register that holds the initial value.
\<close>

theorem mc_linearizable:
  assumes "reachable (exec_step mc_exec) (mc_new x) s"
  shows "register_run x (mreturned s) \<noteq> None \<and> (mc_inside s t \<longrightarrow> mc_inside s u \<longrightarrow> t = u)"
  using mc_ok_reachable [OF assms] mc_mutex.at_most_one [OF assms] unfolding mc_ok_def by blast

theorem mc_linearizable_witness:
  "register_run (5 :: nat) (mreturned (the (run_schedule mc_exec
     [Call 0 Get, Call 1 (Set 7), Run 1, Run 1, Run 1, Run 0, Run 0, Run 0] (mc_new 5)))) \<noteq> None"
proof -
  have "run_schedule mc_exec [Call 0 Get, Call 1 (Set 7), Run 1, Run 1, Run 1, Run 0, Run 0, Run 0]
      (mc_new (5 :: nat)) =
    Some \<lparr>mdata = 7, mtx = None, mat = (\<lambda>_. MIdle)(0 := MIdle, 1 := MIdle),
      mreturned = [(1, Stored 7), (0, Got 7)]\<rparr>"
    by (simp add: mc_new_def mc_defs fun_upd_twist fun_upd_upd)
  from mc_linearizable [OF run_schedule_reachable [OF this]] this show ?thesis by simp
qed

end
