(* ===== verification/Benchmark_Properties.thy ===== *)
theory Benchmark_Properties
  imports Container_Benchmark Container_Properties
begin

section \<open>What the benchmark reaches\<close>

text \<open>
  The locale is what both containers promise a thread about one call, step by step: which value the call will store
  or has read, that the data only change to a value that is being stored, and what the call returns. From it follow
  the bounds of all values, once for both. For the container with a mutex the run is also the run of atomic calls in
  the order of their returns, and it ends after a fixed number of steps.
\<close>

definition writes :: "int list \<Rightarrow> nat" where
  "writes ns = length [n \<leftarrow> ns. n \<le> 2]"

lemma writes_simps [simp]: "writes [] = 0" "writes (n # ns) = (if n \<le> 2 then 1 else 0) + writes ns"
  by (simp_all add: writes_def)

locale bench_container =
  fixes exec :: "int label \<Rightarrow> 's \<Rightarrow> 's option"
    and idle :: "'s \<Rightarrow> nat \<Rightarrow> bool"
    and log :: "'s \<Rightarrow> (nat \<times> int event) list"
    and held :: "'s \<Rightarrow> int"
    and storing :: "'s \<Rightarrow> nat \<Rightarrow> int option"
    and reading :: "'s \<Rightarrow> nat \<Rightarrow> int option"
    and init :: "'s"
  assumes idle_init: "idle init t"
    and idle_none: "idle c t \<Longrightarrow> storing c t = None \<and> reading c t = None"
    and other: "exec (Call t r) c = Some c' \<or> exec (Run t) c = Some c' \<Longrightarrow> u \<noteq> t \<Longrightarrow>
      idle c' u = idle c u \<and> storing c' u = storing c u \<and> reading c' u = reading c u"
    and call: "exec (Call t r) c = Some c' \<Longrightarrow> \<not> idle c' t \<and> held c' = held c \<and> reading c' t = None \<and>
      storing c' t = (case r of Get \<Rightarrow> None | Set v \<Rightarrow> Some v)"
    and inside: "exec (Run t) c = Some c' \<Longrightarrow> \<not> idle c' t \<Longrightarrow>
      (held c' = held c \<or> storing c t = Some (held c')) \<and> storing c' t = storing c t \<and>
      (reading c' t = reading c t \<or> reading c' t = Some (held c))"
    and return: "exec (Run t) c = Some c' \<Longrightarrow> idle c' t \<Longrightarrow> held c' = held c \<and>
      (case storing c t of Some v \<Rightarrow> snd (last (log c')) = Stored v
       | None \<Rightarrow> \<exists>v. reading c t = Some v \<and> snd (last (log c')) = Got v)"
begin

definition rest :: "'s bench \<Rightarrow> nat" where
  "rest b = writes (todo b 0) + writes (todo b 1)"

text \<open>What is between the calls of a thread and its program, and the bounds.\<close>

definition in_call :: "'s bench \<Rightarrow> nat \<Rightarrow> bool" where
  "in_call b t \<longleftrightarrow> idle (cont b) t \<or>
     todo b t \<noteq> [] \<and> storing (cont b) t = (if hd (todo b t) \<le> 2 then Some (last_val b t) else None)"

definition vals :: "'s bench \<Rightarrow> int set" where
  "vals b = {held (cont b)} \<union> range (last_val b) \<union> {v. \<exists>t. reading (cont b) t = Some v}"

definition within :: "int \<Rightarrow> int \<Rightarrow> 's bench \<Rightarrow> bool" where
  "within lo hi b \<longleftrightarrow> (\<forall>v \<in> vals b. lo \<le> v \<and> v + int (rest b) \<le> hi)"

lemma within_step:
  assumes "within lo hi b" "rest b = rest b' + d" "\<And>v'. v' \<in> vals b' \<Longrightarrow> v' \<in> vals b \<or> d = 1 \<and> v' - 1 \<in> vals b"
  shows "within lo hi b'"
  using assms(1,2) assms(3) unfolding within_def by (smt (verit) of_nat_1 of_nat_add of_nat_0_le_iff)

definition bench_ok :: "int \<Rightarrow> int \<Rightarrow> 's bench \<Rightarrow> bool" where
  "bench_ok lo hi b \<longleftrightarrow> (\<forall>t. in_call b t) \<and> (\<forall>t \<ge> 2. todo b t = []) \<and> within lo hi b"

lemma bench_cases:
  assumes "bench_exec exec idle log t b = Some b'"
  obtains (calls) n ns c where "idle (cont b) t" "todo b t = n # ns"
      "exec (Call t (bench_request n (last_val b t))) (cont b) = Some c" "b' = b\<lparr>cont := c\<rparr>"
  | (goes_on) c where "\<not> idle (cont b) t" "exec (Run t) (cont b) = Some c" "\<not> idle c t" "b' = b\<lparr>cont := c\<rparr>"
  | (returns) c where "\<not> idle (cont b) t" "exec (Run t) (cont b) = Some c" "idle c t"
      "b' = b\<lparr>cont := c, todo := (todo b)(t := tl (todo b t)),
         last_val := (last_val b)(t := bench_return (snd (last (log c))) (last_val b t))\<rparr>"
  using assms by (auto simp: bench_exec_def split: if_splits list.splits option.splits)

lemma bench_ok_step [keeps]:
  assumes ok: "bench_ok lo hi b" and step: "bench_exec exec idle log t b = Some b'"
  shows "bench_ok lo hi b'"
  using step
proof (cases rule: bench_cases)
  case (calls n ns c)
  note o = other [of t "bench_request n (last_val b t)" "cont b" c, OF disjI1 [OF calls(3)]]
  have "in_call b' u" for u
    using ok calls call [OF calls(3)] o [of u]
    by (cases "u = t") (auto simp: bench_ok_def in_call_def bench_request_def)
  moreover have "reading (cont b) u = Some v" if "reading c u = Some v" for u v
    using that call [OF calls(3)] o [of u] by (cases "u = t") auto
  then have "vals b' \<subseteq> vals b" using calls(4) call [OF calls(3)] unfolding vals_def by auto
  then have "within lo hi b'"
    using ok calls(4) by (intro within_step [of lo hi b b' 0]) (auto simp: bench_ok_def rest_def)
  ultimately show ?thesis using ok calls(4) by (simp add: bench_ok_def)
next
  case (goes_on c)
  note o = other [of t Get "cont b" c, OF disjI2 [OF goes_on(2)]]
  have "in_call b' u" for u
    using ok goes_on inside [OF goes_on(2,3)] o [of u] by (cases "u = t") (auto simp: bench_ok_def in_call_def)
  moreover have "held c = held (cont b) \<or> held c = last_val b t"
    using ok goes_on(1) inside [OF goes_on(2,3)] by (auto simp: bench_ok_def in_call_def split: if_splits)
  moreover have "reading (cont b) u = Some v \<or> v = held (cont b)" if "reading c u = Some v" for u v
    using that inside [OF goes_on(2,3)] o [of u] by (cases "u = t") auto
  ultimately have "(\<forall>u. in_call b' u) \<and> vals b' \<subseteq> vals b" using goes_on(4) unfolding vals_def by auto
  moreover from this have "within lo hi b'"
    using ok goes_on(4) by (intro within_step [of lo hi b b' 0]) (auto simp: bench_ok_def rest_def)
  ultimately show ?thesis using ok goes_on(4) by (simp add: bench_ok_def)
next
  case (returns c)
  note o = other [of t Get "cont b" c, OF disjI2 [OF returns(2)]]
  let ?l = "bench_return (snd (last (log c))) (last_val b t)"
  have "todo b t \<noteq> []" and st: "storing (cont b) t = (if hd (todo b t) \<le> 2 then Some (last_val b t) else None)"
    using ok returns(1) by (auto simp: bench_ok_def in_call_def)
  then obtain n ns where n: "todo b t = n # ns" by (cases "todo b t") auto
  have "t < 2" using ok n by (metis bench_ok_def list.distinct(1) not_le)
  then have rest: "rest b = rest b' + (if n \<le> 2 then 1 else 0)"
    using n returns(4) by (cases "t = 0") (auto simp: rest_def less_2_cases_iff)
  have l: "n \<le> 2 \<and> ?l = last_val b t + 1 \<or> reading (cont b) t = Some ?l"
    using return [OF returns(2,3)] st n by (auto split: if_splits)
  have "in_call b' u" for u
    using ok returns o [of u] by (cases "u = t") (auto simp: bench_ok_def in_call_def)
  moreover have "reading (cont b) u = Some v" if "reading c u = Some v" for u v
    using that idle_none [OF returns(3)] o [of u] by (cases "u = t") auto
  then have "v \<in> vals b \<or> (if n \<le> 2 then 1 else 0) = (1 :: nat) \<and> v - 1 \<in> vals b" if "v \<in> vals b'" for v
    using that l returns(4) return [OF returns(2,3)] by (fastforce simp: vals_def split: if_splits)
  then have "within lo hi b'" using ok within_step [OF _ rest] by (simp add: bench_ok_def)
  ultimately show ?thesis using ok returns(4) by (auto simp: bench_ok_def)
qed

lemma bench_ok_init:
  assumes "lo \<le> 0" "0 \<le> hi" "lo \<le> held init" "held init \<le> hi"
  shows "bench_ok lo (hi + 2 * int (writes numbers)) (bench_new init numbers)"
  using assms idle_init idle_none [OF idle_init]
  by (auto simp: bench_ok_def in_call_def bench_new_def within_def vals_def rest_def)

lemma bench_ok_run:
  "run_schedule (bench_exec exec idle log) sched b = Some b' \<Longrightarrow> bench_ok lo hi b \<Longrightarrow> bench_ok lo hi b'"
  by (induction sched arbitrary: b) (auto intro: bench_ok_step split: option.splits)

lemma bench_bounds:
  assumes "run_schedule (bench_exec exec idle log) sched (bench_new init numbers) = Some b" "0 \<le> held init"
  shows "0 \<le> held (cont b) \<and> held (cont b) \<le> held init + 2 * int (writes numbers)"
proof -
  from bench_ok_run [OF assms(1) bench_ok_init [of 0 "held init"]] assms(2)
  have "within 0 (held init + 2 * int (writes numbers)) b" by (simp add: bench_ok_def)
  then show ?thesis by (auto simp: within_def vals_def)
qed

end

subsection \<open>Both containers\<close>

definition mc_storing :: "int mcontainer \<Rightarrow> nat \<Rightarrow> int option" where
  "mc_storing c t =
     (case mat c t of MSet_lock v \<Rightarrow> Some v | MSet_write v \<Rightarrow> Some v | MSet_unlock v \<Rightarrow> Some v | _ \<Rightarrow> None)"

definition mc_reading :: "int mcontainer \<Rightarrow> nat \<Rightarrow> int option" where
  "mc_reading c t = (case mat c t of MGet_unlock v \<Rightarrow> Some v | _ \<Rightarrow> None)"

lemmas mc_bench_defs = mc_defs mc_idle_def mc_storing_def mc_reading_def

interpretation mc_bench: bench_container mc_exec mc_idle mreturned mdata mc_storing mc_reading "mc_new x" for x
proof (unfold_locales, goal_cases)
  case (3 t r c c' u)
  then show ?case
    by (cases "mat c t") (auto simp: mc_bench_defs split: if_splits)
next
  case (5 t c c')
  then show ?case by (cases "mat c t") (auto simp: mc_bench_defs split: if_splits)
next
  case (6 t c c')
  then show ?case by (cases "mat c t") (auto simp: mc_bench_defs split: if_splits)
qed (auto simp: mc_bench_defs mc_new_def split: mpc.splits if_splits request.splits)

definition cc_storing :: "int container \<Rightarrow> nat \<Rightarrow> int option" where
  "cc_storing c t =
     (case pos c t of Set_claim v \<Rightarrow> Some v | Set_drain v \<Rightarrow> Some v | Set_write v \<Rightarrow> Some v | Set_leave v \<Rightarrow> Some v
      | _ \<Rightarrow> None)"

definition cc_reading :: "int container \<Rightarrow> nat \<Rightarrow> int option" where
  "cc_reading c t = (case pos c t of Get_leave v \<Rightarrow> Some v | _ \<Rightarrow> None)"

lemmas cc_bench_defs = cc_defs cc_idle_def cc_storing_def cc_reading_def

interpretation cc_bench: bench_container cc_exec cc_idle returned cdata cc_storing cc_reading "cc_new x" for x
proof (unfold_locales, goal_cases)
  case (3 t r c c' u)
  then show ?case
    by (cases "pos c t") (auto simp: cc_bench_defs split: if_splits)
next
  case (5 t c c')
  then show ?case by (cases "pos c t") (auto simp: cc_bench_defs split: if_splits)
next
  case (6 t c c')
  then show ?case by (cases "pos c t") (auto simp: cc_bench_defs split: if_splits)
qed (auto simp: cc_bench_defs cc_new_def split: pc.splits if_splits request.splits)

subsection \<open>The container with a mutex: calls are atomic\<close>

definition atomic_step :: "nat \<Rightarrow> int \<times> (nat \<Rightarrow> int list) \<times> (nat \<Rightarrow> int) \<Rightarrow> int \<times> (nat \<Rightarrow> int list) \<times> (nat \<Rightarrow> int)" where
  "atomic_step t = (\<lambda>(v, td, own).
     if hd (td t) \<le> 2 then (own t, td(t := tl (td t)), own(t := own t + 1))
     else (v, td(t := tl (td t)), own(t := v)))"

definition atomic_run :: "nat list \<Rightarrow> int \<Rightarrow> int list \<Rightarrow> int \<times> (nat \<Rightarrow> int list) \<times> (nat \<Rightarrow> int)" where
  "atomic_run order x numbers = fold atomic_step order (x, \<lambda>t. if t < 2 then numbers else [], \<lambda>_. 0)"

lemma bench_step_reachable:
  "bench_exec exec idle log t b = Some b' \<Longrightarrow> reachable (exec_step exec) c0 (cont b) \<Longrightarrow> reachable (exec_step exec) c0 (cont b')"
  by (auto simp: bench_exec_def exec_step_def split: if_splits list.splits option.splits
      intro!: reachable.next_step [of "exec_step exec" c0 "cont b"])

lemma mc_call_log: "mc_exec (Call t r) c = Some c' \<Longrightarrow> mreturned c' = mreturned c"
  by (auto simp: mc_defs split: if_splits)

lemma mc_inside_log: "mc_exec (Run t) c = Some c' \<Longrightarrow> \<not> mc_idle c' t \<Longrightarrow> mreturned c' = mreturned c"
  by (cases "mat c t") (auto simp: mc_bench_defs split: if_splits)

lemma mc_return_log:
  assumes "mc_exec (Run t) c = Some c'" "mc_idle c' t"
  obtains (got) v where "mreturned c' = mreturned c @ [(t, Got v)]" "mat c t = MGet_unlock v" "mc_storing c t = None"
  | (stored) v where "mreturned c' = mreturned c @ [(t, Stored v)]" "mc_storing c t = Some v"
  using assms by (cases "mat c t") (auto simp: mc_bench_defs split: if_splits)

definition mutex_ok :: "int \<Rightarrow> int list \<Rightarrow> int mcontainer bench \<Rightarrow> bool" where
  "mutex_ok x numbers b \<longleftrightarrow> reachable (exec_step mc_exec) (mc_new x) (cont b) \<and>
     mc_bench.bench_ok 0 (x + 2 * int (writes numbers)) b \<and>
     (\<forall>t. length (todo b t) + count_list (map fst (mreturned (cont b))) t = (if t < 2 then length numbers else 0)) \<and>
     (\<exists>v. register_run x (mreturned (cont b)) = Some v \<and>
        atomic_run (map fst (mreturned (cont b))) x numbers = (v, todo b, last_val b))"

lemma atomic_run_snoc: "atomic_run (ts @ [t]) x numbers = atomic_step t (atomic_run ts x numbers)"
  by (simp add: atomic_run_def)

lemma mutex_ok_step [keeps]:
  assumes ok: "mutex_ok x numbers b" and step: "mutex_bench t b = Some b'"
  shows "mutex_ok x numbers b'"
proof -
  have bench: "mc_bench.bench_ok 0 (x + 2 * int (writes numbers)) b'"
    using mc_bench.bench_ok_step step ok unfolding mutex_ok_def mutex_bench_def by blast
  have reach: "reachable (exec_step mc_exec) (mc_new x) (cont b')"
    by (rule bench_step_reachable [OF step [unfolded mutex_bench_def]]) (use ok in \<open>simp add: mutex_ok_def\<close>)
  have count: "length (todo b u) + count_list (map fst (mreturned (cont b))) u = (if u < 2 then length numbers else 0)" for u
    using ok by (auto simp: mutex_ok_def)
  obtain v where v: "register_run x (mreturned (cont b)) = Some v"
    "atomic_run (map fst (mreturned (cont b))) x numbers = (v, todo b, last_val b)"
    using ok by (auto simp: mutex_ok_def)
  from step [unfolded mutex_bench_def] show ?thesis
  proof (cases rule: mc_bench.bench_cases)
    case (calls n ns c)
    with mc_call_log [OF calls(3)] v bench reach count show ?thesis by (simp add: mutex_ok_def)
  next
    case (goes_on c)
    with mc_inside_log [OF goes_on(2,3)] v bench reach count show ?thesis by (simp add: mutex_ok_def)
  next
    case (returns c)
    have st: "todo b t \<noteq> []" "mc_storing (cont b) t = (if hd (todo b t) \<le> 2 then Some (last_val b t) else None)"
      using ok returns(1) by (auto simp: mutex_ok_def mc_bench.bench_ok_def mc_bench.in_call_def)
    have count': "length (todo b' u) + count_list (map fst (mreturned (cont b) @ [(t, e)])) u =
        (if u < 2 then length numbers else 0)" for u e
      using count [of u] st(1) returns(4) by (cases "todo b t"; cases "u = t") auto
    have ok': "mutex_ok x numbers b'" if "mreturned c = mreturned (cont b) @ [(t, e)]"
      "register_run x (mreturned c) = Some v'" "atomic_step t (v, todo b, last_val b) = (v', todo b', last_val b')" for e v'
      unfolding mutex_ok_def using that reach bench count' v(2) returns(4) by (simp add: atomic_run_snoc)
    from returns(2,3) show ?thesis
    proof (cases rule: mc_return_log)
      case (got w)
      have "w = v" using ok mc_ok_reachable v(1) got(2) by (fastforce simp: mutex_ok_def mc_ok_def)
      with got st(2) returns(4) v(1) show ?thesis
        by (intro ok' [OF got(1), of v]) (auto simp: register_run_snoc atomic_step_def split: if_splits)
    next
      case (stored w)
      with st(2) returns(4) v(1) show ?thesis
        by (intro ok' [OF stored(1), of w]) (auto simp: register_run_snoc atomic_step_def split: if_splits)
    qed
  qed
qed

lemma mutex_ok_new: "0 \<le> x \<Longrightarrow> mutex_ok x numbers (bench_new (mc_new x) numbers)"
  using mc_bench.bench_ok_init [of 0 x x numbers]
  by (simp add: mutex_ok_def bench_new_def atomic_run_def mc_new_def reachable.start)

lemma mutex_ok_run:
  "run_schedule mutex_bench sched b = Some b' \<Longrightarrow> mutex_ok x numbers b \<Longrightarrow> mutex_ok x numbers b'"
  by (induction sched arbitrary: b) (auto intro: mutex_ok_step split: option.splits)

subsection \<open>How long it takes\<close>

text \<open>Every call takes four steps, and the thread that has the mutex can always take one.\<close>

definition phase :: "int mcontainer \<Rightarrow> nat \<Rightarrow> nat" where
  "phase c t = (case mat c t of
     MIdle \<Rightarrow> 0 | MGet_lock \<Rightarrow> 1 | MSet_lock v \<Rightarrow> 1 | MGet_read \<Rightarrow> 2 | MSet_write v \<Rightarrow> 2
   | MGet_unlock v \<Rightarrow> 3 | MSet_unlock v \<Rightarrow> 3)"

definition steps_left :: "int mcontainer bench \<Rightarrow> nat \<Rightarrow> int" where
  "steps_left b t = 4 * int (length (todo b t)) - int (phase (cont b) t)"

lemma phase_call: "mc_exec (Call t r) c = Some c' \<Longrightarrow> phase c t = 0 \<and> phase c' t = 1"
  by (auto simp: mc_defs phase_def split: if_splits request.splits)

lemma phase_inside: "mc_exec (Run t) c = Some c' \<Longrightarrow> \<not> mc_idle c' t \<Longrightarrow> phase c' t = phase c t + 1"
  by (cases "mat c t") (auto simp: mc_bench_defs phase_def split: if_splits)

lemma phase_return: "mc_exec (Run t) c = Some c' \<Longrightarrow> mc_idle c' t \<Longrightarrow> phase c t = 3 \<and> phase c' t = 0"
  by (cases "mat c t") (auto simp: mc_bench_defs phase_def split: if_splits)

lemma phase_other:
  "mc_exec (Call t r) c = Some c' \<or> mc_exec (Run t) c = Some c' \<Longrightarrow> u \<noteq> t \<Longrightarrow> phase c' u = phase c u"
  by (cases "mat c t") (auto simp: mc_defs phase_def split: if_splits)

lemma steps_left_step:
  assumes "mutex_ok x numbers b" "mutex_bench t b = Some b'"
  shows "steps_left b' u = steps_left b u - of_bool (u = t)"
  using assms(2) [unfolded mutex_bench_def]
proof (cases rule: mc_bench.bench_cases)
  case (calls n ns c)
  with phase_call [OF calls(3)] phase_other [OF disjI1 [OF calls(3)]] show ?thesis by (simp add: steps_left_def)
next
  case (goes_on c)
  with phase_inside [OF goes_on(2,3)] phase_other [OF disjI2 [OF goes_on(2)]] show ?thesis by (simp add: steps_left_def)
next
  case (returns c)
  then have "todo b t \<noteq> []"
    using assms(1) by (auto simp: mutex_ok_def mc_bench.bench_ok_def mc_bench.in_call_def)
  with returns phase_return [OF returns(2,3)] phase_other [OF disjI2 [OF returns(2)]] show ?thesis
    by (cases "todo b t") (auto simp: steps_left_def)
qed

lemma steps_left_nonneg:
  assumes "mutex_ok x numbers b"
  shows "0 \<le> steps_left b t" "steps_left b t = 0 \<longleftrightarrow> todo b t = [] \<and> mc_idle (cont b) t"
proof -
  have "mc_idle (cont b) t \<or> todo b t \<noteq> []"
    using assms by (auto simp: mutex_ok_def mc_bench.bench_ok_def mc_bench.in_call_def)
  then show "0 \<le> steps_left b t" "steps_left b t = 0 \<longleftrightarrow> todo b t = [] \<and> mc_idle (cont b) t"
    by (cases "todo b t"; auto simp: steps_left_def phase_def mc_idle_def split: mpc.splits)+
qed

lemma mutex_bench_thread:
  assumes "mutex_ok x numbers b" "mutex_bench t b = Some b'"
  shows "t < 2"
proof (rule ccontr)
  assume "\<not> t < 2"
  then have "todo b t = []" "mc_idle (cont b) t"
    using assms(1) by (auto simp: mutex_ok_def mc_bench.bench_ok_def mc_bench.in_call_def)
  with assms(2) show False by (simp add: mutex_bench_def bench_exec_def)
qed

lemma steps_left_run:
  "run_schedule mutex_bench sched b = Some b' \<Longrightarrow> mutex_ok x numbers b \<Longrightarrow>
    steps_left b' 0 + steps_left b' 1 + int (length sched) = steps_left b 0 + steps_left b 1"
proof (induction sched arbitrary: b)
  case (Cons t ts)
  then obtain c where c: "mutex_bench t b = Some c" "run_schedule mutex_bench ts c = Some b'"
    by (auto split: option.splits)
  have "t < 2" using mutex_bench_thread [OF Cons.prems(2) c(1)] .
  then have "t = 0 \<or> t = 1" by auto
  with Cons.IH [OF c(2) mutex_ok_step [OF Cons.prems(2) c(1)]] steps_left_step [OF Cons.prems(2) c(1)]
  show ?case by auto
qed simp

lemma mc_owner_inside:
  "reachable (exec_step mc_exec) (mc_new x) c \<Longrightarrow> mtx c = Some t \<Longrightarrow> mc_inside c t"
proof (induction arbitrary: t rule: reachable.induct)
  case start
  then show ?case by (simp add: mc_new_def)
next
  case (next_step s s')
  from next_step.hyps(2) show ?case
    by (cases rule: mc_step_cases) (use next_step.IH next_step.prems in \<open>fastforce simp: mc_inside_def\<close>)+
qed

lemma mc_can_run: "\<not> mc_idle c t \<Longrightarrow> mtx c = None \<or> mc_inside c t \<Longrightarrow> \<exists>c'. mc_exec (Run t) c = Some c'"
  by (cases "mat c t") (auto simp: mc_bench_defs mc_inside_def)

lemma bench_runs: "\<not> mc_idle (cont b) t \<Longrightarrow> mc_exec (Run t) (cont b) = Some c \<Longrightarrow> \<exists>b'. mutex_bench t b = Some b'"
  by (simp add: mutex_bench_def bench_exec_def)

lemma mutex_bench_progress:
  assumes ok: "mutex_ok x numbers b" and left: "steps_left b t \<noteq> 0"
  shows "\<exists>u. mutex_bench u b \<noteq> None"
proof (cases "mtx (cont b)")
  case None
  have not_over: "\<not> (todo b t = [] \<and> mc_idle (cont b) t)" using steps_left_nonneg(2) [OF ok] left by blast
  show ?thesis
  proof (cases "mc_idle (cont b) t")
    case True
    then obtain n ns where "todo b t = n # ns" using not_over by (cases "todo b t") auto
    then have "mutex_bench t b \<noteq> None"
      using True by (simp add: mutex_bench_def bench_exec_def mc_idle_def split: mpc.splits)
    then show ?thesis ..
  next
    case False
    from mc_can_run [OF this disjI1 [OF None]] bench_runs [OF False] show ?thesis by blast
  qed
next
  case (Some u)
  have "mc_inside (cont b) u" using mc_owner_inside Some ok by (auto simp: mutex_ok_def)
  moreover from this have "\<not> mc_idle (cont b) u" by (auto simp: mc_inside_def mc_idle_def)
  ultimately show ?thesis using mc_can_run bench_runs by blast
qed

lemma mc_get_alone:
  "mtx c = None \<Longrightarrow> mc_idle c t \<Longrightarrow> \<exists>c'. run_schedule mc_exec [Call t Get, Run t, Run t, Run t] c = Some c' \<and>
     mreturned c' = mreturned c @ [(t, Got (mdata c))]"
  by (simp add: mc_bench_defs split: mpc.splits)

lemma mutex_main_over:
  assumes "run_schedule mutex_bench sched (bench_new (mc_new 5) numbers) = Some b" "mutex_ok 5 numbers b"
    and "steps_left b 0 = 0" "steps_left b 1 = 0"
  shows "mutex_main numbers sched = Some (mdata (cont b)) \<and>
    mdata (cont b) = fst (atomic_run (map fst (mreturned (cont b))) 5 numbers)"
proof -
  note over = assms(3,4) [unfolded steps_left_nonneg(2) [OF assms(2)]]
  have idle: "mc_idle (cont b) t" for t
  proof -
    have "t = 0 \<or> t = 1 \<or> t \<ge> 2" by linarith
    with over assms(2) show ?thesis by (auto simp: mutex_ok_def mc_bench.bench_ok_def mc_bench.in_call_def)
  qed
  have reach: "reachable (exec_step mc_exec) (mc_new 5) (cont b)" using assms(2) by (simp add: mutex_ok_def)
  have "mtx (cont b) = None"
  proof (rule ccontr)
    assume "mtx (cont b) \<noteq> None"
    then obtain u where "mc_inside (cont b) u" using mc_owner_inside [OF reach] by blast
    with idle [of u] show False by (auto simp: mc_inside_def mc_idle_def)
  qed
  from mc_get_alone [OF this idle [of 2]] assms(1) over have "mutex_main numbers sched = Some (mdata (cont b))"
    by (auto simp: mutex_main_def bench_over_def simp del: run_schedule.simps)
  moreover have "mat (cont b) t \<noteq> MSet_unlock w" for t w using idle [of t] by (auto simp: mc_idle_def)
  then have "register_run 5 (mreturned (cont b)) = Some (mdata (cont b))"
    using mc_ok_reachable [OF reach] by (auto simp: mc_ok_def)
  ultimately show ?thesis using assms(2) by (auto simp: mutex_ok_def)
qed

text \<open>
  C12: The benchmark of \<^verbatim>\<open>MutexContainer\<close>, however its two threads are scheduled: every call takes four steps, as long as
  fewer have been made some thread can go on, so the program ends after exactly eight steps per number. Then it
  prints what a program with atomic calls would print that makes the calls in some order, each thread its own in the
  order of its numbers, and this lies between 0 and 5 plus the number of calls of \<^verbatim>\<open>set\<close>.
\<close>

theorem mutex_benchmark:
  assumes "run_schedule mutex_bench sched (bench_new (mc_new 5) numbers) = Some b"
  shows "length sched \<le> 8 * length numbers \<and>
    (length sched < 8 * length numbers \<longrightarrow> (\<exists>t. mutex_bench t b \<noteq> None)) \<and>
    (length sched = 8 * length numbers \<longrightarrow>
      (\<exists>order v. (\<forall>t. count_list order t = (if t < 2 then length numbers else 0)) \<and>
         fst (atomic_run order 5 numbers) = v \<and> mutex_main numbers sched = Some v \<and>
         0 \<le> v \<and> v \<le> 5 + 2 * int (writes numbers)))"
proof -
  have new: "mutex_ok 5 numbers (bench_new (mc_new 5) numbers)" by (simp add: mutex_ok_new)
  then have ok: "mutex_ok 5 numbers b" by (rule mutex_ok_run [OF assms])
  have left: "steps_left b 0 + steps_left b 1 + int (length sched) = 8 * int (length numbers)"
    using steps_left_run [OF assms new] by (simp add: steps_left_def bench_new_def mc_new_def phase_def)
  note nonneg = steps_left_nonneg(1) [OF ok, of 0] steps_left_nonneg(1) [OF ok, of 1]
  have "\<exists>t. mutex_bench t b \<noteq> None" if "length sched < 8 * length numbers"
  proof -
    have "steps_left b 0 \<noteq> 0 \<or> steps_left b 1 \<noteq> 0" using left that by linarith
    then show ?thesis using mutex_bench_progress [OF ok] by blast
  qed
  moreover have "\<exists>order v. (\<forall>t. count_list order t = (if t < 2 then length numbers else 0)) \<and>
         fst (atomic_run order 5 numbers) = v \<and> mutex_main numbers sched = Some v \<and>
         0 \<le> v \<and> v \<le> 5 + 2 * int (writes numbers)" if "length sched = 8 * length numbers"
  proof -
    have zero: "steps_left b 0 = 0" "steps_left b 1 = 0" using left that nonneg by linarith+
    have "length (todo b t) = 0" for t
      using zero steps_left_nonneg(2) [OF ok] ok less_2_cases [of t]
      by (auto simp: mutex_ok_def mc_bench.bench_ok_def) (metis not_le)
    then have "count_list (map fst (mreturned (cont b))) t = (if t < 2 then length numbers else 0)" for t
      using ok unfolding mutex_ok_def by (metis add_0)
    moreover have "0 \<le> mdata (cont b) \<and> mdata (cont b) \<le> 5 + 2 * int (writes numbers)"
      using mc_bench.bench_bounds [of sched 5 numbers b] assms by (simp add: mutex_bench_def mc_new_def)
    ultimately show ?thesis using mutex_main_over [OF assms ok zero] by metis
  qed
  moreover have "length sched \<le> 8 * length numbers" using left nonneg by linarith
  ultimately show ?thesis by blast
qed

theorem mutex_benchmark_witness:
  "\<exists>order v. (\<forall>t. count_list order t = (if t < 2 then length [1, 7 :: int] else 0)) \<and> fst (atomic_run order 5 [1, 7]) = v \<and>
     mutex_main [1, 7] [0, 0, 1, 0, 0, 1, 0, 1, 1, 0, 0, 1, 0, 1, 1, 1] = Some v \<and> 0 \<le> v \<and> v \<le> 7"
proof -
  have "\<exists>b. run_schedule mutex_bench [0, 0, 1, 0, 0, 1, 0, 1, 1, 0, 0, 1, 0, 1, 1, 1] (bench_new (mc_new 5) [1, 7]) = Some b"
    by (simp add: mutex_bench_def bench_exec_def bench_new_def bench_request_def mc_new_def mc_bench_defs)
  then obtain b where "run_schedule mutex_bench [0, 0, 1, 0, 0, 1, 0, 1, 1, 0, 0, 1, 0, 1, 1, 1] (bench_new (mc_new 5) [1, 7]) = Some b"
    by blast
  from mutex_benchmark [OF this] show ?thesis by (simp del: One_nat_def)
qed

subsection \<open>The lock-free container\<close>

text \<open>Its threads may spin, so a schedule can be of any length; the values have the same bounds.\<close>

lemma cc_flag_writer:
  "reachable (exec_step cc_exec) (cc_new x) c \<Longrightarrow> write_flag c \<Longrightarrow> \<exists>t. cc_writer c t"
proof (induction rule: reachable.induct)
  case start
  then show ?case by (simp add: cc_new_def)
next
  case (next_step s s')
  show ?case
  proof (cases "write_flag s")
    case True
    then obtain u where u: "cc_writer s u" using next_step.IH by blast
    from next_step.hyps(2) have "cc_writer s' u"
      by (cases rule: cc_step_cases) (use u next_step.prems in \<open>auto simp: cc_writer_def\<close>)
    then show ?thesis ..
  next
    case False
    from next_step.hyps(2) show ?thesis
    proof (cases rule: cc_step_cases)
      case (claim t v)
      then show ?thesis by (intro exI [of _ t]) (simp add: cc_writer_def)
    qed (use False next_step.prems in auto)
  qed
qed

lemma cc_get_alone:
  "\<not> write_flag c \<Longrightarrow> cc_idle c t \<Longrightarrow> \<exists>c'. run_schedule cc_exec [Call t Get, Run t, Run t, Run t, Run t] c = Some c' \<and>
     returned c' = returned c @ [(t, Got (cdata c))]"
  by (simp add: cc_bench_defs split: pc.splits)

lemma cc_bench_reachable:
  "run_schedule concurrent_bench sched b = Some b' \<Longrightarrow> reachable (exec_step cc_exec) c0 (cont b) \<Longrightarrow>
    reachable (exec_step cc_exec) c0 (cont b')"
  by (induction sched arbitrary: b)
    (auto simp: concurrent_bench_def intro: bench_step_reachable split: option.splits)

theorem concurrent_benchmark:
  assumes "concurrent_main numbers sched = Some v"
  shows "0 \<le> v \<and> v \<le> 5 + 2 * int (writes numbers)"
proof -
  obtain b where b: "run_schedule concurrent_bench sched (bench_new (cc_new 5) numbers) = Some b" "bench_over cc_idle b"
    using assms by (auto simp: concurrent_main_def simp del: run_schedule.simps split: option.splits if_splits)
  have reach: "reachable (exec_step cc_exec) (cc_new 5) (cont b)"
    using cc_bench_reachable [OF b(1)] by (simp add: bench_new_def reachable.start)
  have ok: "cc_bench.bench_ok 0 (5 + 2 * int (writes numbers)) b"
    using cc_bench.bench_ok_run [of sched _ b 0] b(1) cc_bench.bench_ok_init [of 0 5 5 numbers]
    by (simp add: concurrent_bench_def cc_new_def)
  have idle: "cc_idle (cont b) t" for t
  proof -
    have "t = 0 \<or> t = 1 \<or> t \<ge> 2" by linarith
    with b(2) ok show ?thesis by (auto simp: bench_over_def cc_bench.bench_ok_def cc_bench.in_call_def)
  qed
  have "\<not> write_flag (cont b)"
  proof
    assume "write_flag (cont b)"
    then obtain t where "cc_writer (cont b) t" using cc_flag_writer [OF reach] by blast
    with idle [of t] show False by (auto simp: cc_writer_def cc_idle_def)
  qed
  from cc_get_alone [OF this idle [of 2]] assms b have "v = cdata (cont b)"
    by (auto simp: concurrent_main_def simp del: run_schedule.simps)
  with ok show ?thesis by (auto simp: cc_bench.bench_ok_def cc_bench.within_def cc_bench.vals_def)
qed

end
