(* ===== verification/Global_Lock.thy ===== *)
theory Global_Lock
  imports Exclusion Prelude
begin

section \<open>Locks between processes\<close>

text \<open>
  Models \<^verbatim>\<open>GlobalLock\<close> of \<^verbatim>\<open>global_lock/file_lock.cpp\<close>, a lock on a file, and \<^verbatim>\<open>GlobalLock\<close> and
  \<^verbatim>\<open>GlobalScopedLock\<close> of \<^verbatim>\<open>global_lock/semaphore.cpp\<close>, a lock on a named POSIX semaphore.
\<close>

subsection \<open>The file lock\<close>

text \<open>
  The state is the descriptor \<^verbatim>\<open>fd_\<close>. What \<^verbatim>\<open>open\<close> and \<^verbatim>\<open>flock\<close> answer are arguments.
\<close>

datatype file_call = Acquire int int | Release

definition file_lock_new :: int where
  "file_lock_new = 0"

definition file_acquire :: "int \<Rightarrow> int \<Rightarrow> int \<Rightarrow> int \<times> bool" where
  "file_acquire opened flocked fd =
     (if fd \<noteq> 0 then (fd, False)
      else (opened, \<not> (opened \<le> 0 \<or> flocked \<noteq> 0)))"

definition file_release :: "int \<Rightarrow> int" where
  "file_release fd = (if fd > 0 then 0 else fd)"

definition file_lock_destroy :: "int \<Rightarrow> int" where
  "file_lock_destroy fd = file_release fd"

definition file_locked :: "int \<Rightarrow> bool" where
  "file_locked fd \<longleftrightarrow> fd > 0"

fun file_calls :: "file_call list \<Rightarrow> int \<Rightarrow> bool list \<Rightarrow> int \<times> bool list" where
  "file_calls [] fd answers = (fd, answers)"
| "file_calls (Acquire opened flocked # cs) fd answers =
     (case file_acquire opened flocked fd of (fd', r) \<Rightarrow> file_calls cs fd' (answers @ [r]))"
| "file_calls (Release # cs) fd answers = file_calls cs (file_release fd) answers"

text \<open>What the program prints, and the descriptor it ends with.\<close>

definition file_lock_main :: "int \<Rightarrow> int \<Rightarrow> string list \<times> int" where
  "file_lock_main opened flocked =
     (case file_acquire opened flocked file_lock_new of
        (fd, True) \<Rightarrow> ([''Lock acquired'', ''Working...'', ''Done''], file_lock_destroy (file_release fd))
      | (fd, False) \<Rightarrow> ([''Lock failed''], file_lock_destroy (file_release fd)))"

subsection \<open>Named semaphores\<close>

text \<open>
  The part of POSIX the lock uses: a name leads to a semaphore or to none, a semaphore is a counter.
  An unlinked semaphore lives on for those who have it open. \<^verbatim>\<open>sem_wait\<close> blocks at zero, which is
  \<^const>\<open>None\<close>; it may be interrupted. \<^verbatim>\<open>sem_timedwait\<close> that would block refuses a deadline whose
  nanoseconds are out of range, and otherwise blocks until the deadline has passed.
\<close>

record sem_os =
  sem_names :: "string \<Rightarrow> nat option"
  sem_vals :: "nat list"

definition os_sem_open :: "string \<Rightarrow> sem_os \<Rightarrow> sem_os \<times> nat \<times> bool" where
  "os_sem_open n os =
     (case sem_names os n of
        Some i \<Rightarrow> (os, i, False)
      | None \<Rightarrow>
          (os\<lparr>sem_names := (sem_names os)(n \<mapsto> length (sem_vals os)), sem_vals := sem_vals os @ [1]\<rparr>,
           length (sem_vals os), True))"

definition os_sem_unlink :: "string \<Rightarrow> sem_os \<Rightarrow> sem_os" where
  "os_sem_unlink n os = os\<lparr>sem_names := (sem_names os)(n := None)\<rparr>"

definition os_sem_post :: "nat \<Rightarrow> sem_os \<Rightarrow> sem_os" where
  "os_sem_post i os = os\<lparr>sem_vals := (sem_vals os)[i := sem_vals os ! i + 1]\<rparr>"

definition os_sem_trywait :: "nat \<Rightarrow> sem_os \<Rightarrow> sem_os \<times> bool" where
  "os_sem_trywait i os =
     (if sem_vals os ! i > 0 then (os\<lparr>sem_vals := (sem_vals os)[i := sem_vals os ! i - 1]\<rparr>, True)
      else (os, False))"

definition os_sem_wait :: "bool \<Rightarrow> nat \<Rightarrow> sem_os \<Rightarrow> (sem_os \<times> bool) option" where
  "os_sem_wait interrupted i os =
     (if interrupted then Some (os, False)
      else if sem_vals os ! i > 0 then Some (os_sem_trywait i os)
      else None)"

definition os_sem_timedwait :: "bool \<Rightarrow> int \<times> int \<Rightarrow> nat \<Rightarrow> sem_os \<Rightarrow> (sem_os \<times> bool) option" where
  "os_sem_timedwait expired ts i os =
     (if sem_vals os ! i > 0 then Some (os_sem_trywait i os)
      else if snd ts < 0 \<or> snd ts \<ge> 1000000000 then Some (os, False)
      else if expired then Some (os, False)
      else None)"

subsection \<open>The semaphore lock\<close>

record glock =
  gl_sem :: "nat option"
  gl_held :: bool
  gl_name :: string

text \<open>\<^const>\<open>None\<close> in place of the semaphore is \<^verbatim>\<open>SEM_FAILED\<close>; creation is what \<^verbatim>\<open>errno == ENOENT\<close> tells.\<close>

definition gl_new :: "bool \<Rightarrow> string \<Rightarrow> sem_os \<Rightarrow> sem_os \<times> glock" where
  "gl_new fails n os =
     (if fails then (os, \<lparr>gl_sem = None, gl_held = False, gl_name = []\<rparr>)
      else (case os_sem_open n os of (os', i, created) \<Rightarrow>
              (os', \<lparr>gl_sem = Some i, gl_held = False, gl_name = (if created then n else [])\<rparr>)))"

definition gl_bool :: "glock \<Rightarrow> bool" where
  "gl_bool this \<longleftrightarrow> gl_sem this \<noteq> None"

definition gl_locked :: "sem_os \<Rightarrow> glock \<Rightarrow> bool" where
  "gl_locked os this \<longleftrightarrow>
     gl_bool this \<and> (gl_held this \<or> sem_vals os ! the (gl_sem this) \<le> 0)"

definition gl_lock :: "bool \<Rightarrow> sem_os \<Rightarrow> glock \<Rightarrow> (sem_os \<times> glock \<times> bool) option" where
  "gl_lock interrupted os this =
     (case gl_sem this of
        None \<Rightarrow> Some (os, this, False)
      | Some i \<Rightarrow>
          if gl_held this then Some (os, this, False)
          else do { (os', r) \<leftarrow> os_sem_wait interrupted i os; Some (os', this\<lparr>gl_held := r\<rparr>, r) })"

definition gl_try_lock :: "sem_os \<Rightarrow> glock \<Rightarrow> sem_os \<times> glock \<times> bool" where
  "gl_try_lock os this =
     (case gl_sem this of
        None \<Rightarrow> (os, this, False)
      | Some i \<Rightarrow>
          if gl_held this then (os, this, False)
          else (case os_sem_trywait i os of (os', r) \<Rightarrow> (os', this\<lparr>gl_held := r\<rparr>, r)))"

definition gl_deadline :: "u32 \<Rightarrow> int \<times> int \<Rightarrow> int \<times> int" where
  "gl_deadline millisec ts =
     (let reminder = millisec mod 1000
      in (fst ts + uint (millisec div 1000), snd ts + uint (reminder * 1000000)))"

definition gl_try_lock_for ::
    "u32 \<Rightarrow> (int \<times> int) option \<Rightarrow> bool \<Rightarrow> sem_os \<Rightarrow> glock \<Rightarrow> (sem_os \<times> glock \<times> bool) option" where
  "gl_try_lock_for millisec now expired os this =
     (case gl_sem this of
        None \<Rightarrow> Some (os, this, False)
      | Some i \<Rightarrow>
          if gl_held this then Some (os, this, False)
          else do { (os', r) \<leftarrow> (case now of
                        Some ts \<Rightarrow> os_sem_timedwait expired (gl_deadline millisec ts) i os
                      | None \<Rightarrow> Some (os_sem_trywait i os));
                    Some (os', this\<lparr>gl_held := r\<rparr>, r) })"

definition gl_unlock :: "sem_os \<Rightarrow> glock \<Rightarrow> sem_os \<times> glock \<times> bool" where
  "gl_unlock os this =
     (case gl_sem this of
        None \<Rightarrow> (os, this, False)
      | Some i \<Rightarrow>
          if \<not> gl_held this then (os, this, False)
          else (os_sem_post i os, this\<lparr>gl_held := False\<rparr>, True))"

definition gl_delete :: "sem_os \<Rightarrow> glock \<Rightarrow> sem_os" where
  "gl_delete os this =
     (if gl_bool this then
        let os' = fst (gl_unlock os this)
        in if gl_name this \<noteq> [] then os_sem_unlink (gl_name this) os' else os'
      else os)"

definition scoped_new :: "bool \<Rightarrow> bool \<Rightarrow> string \<Rightarrow> sem_os \<Rightarrow> (sem_os \<times> glock) option" where
  "scoped_new fails interrupted n os =
     (case gl_new fails n os of (os', l) \<Rightarrow>
        map_option (\<lambda>(os'', l', _). (os'', l')) (gl_lock interrupted os' l))"

definition scoped_delete :: "sem_os \<Rightarrow> glock \<Rightarrow> sem_os" where
  "scoped_delete os l = (case gl_unlock os l of (os', l', _) \<Rightarrow> gl_delete os' l')"

definition scoped_bool :: "glock \<Rightarrow> bool" where
  "scoped_bool l = gl_bool l"

text \<open>
  The program, alone with the semaphore: its lines, its exit status and what it leaves. The arguments tell which
  creations fail, whether the wait of the scoped lock is interrupted, and what the timed lock meets.
\<close>

definition sem_main ::
    "bool \<Rightarrow> bool \<Rightarrow> bool \<Rightarrow> (int \<times> int) option \<Rightarrow> bool \<Rightarrow> sem_os \<Rightarrow> (string list \<times> int \<times> sem_os) option" where
  "sem_main scoped_fails interrupted fails now expired os =
     do { (os, l) \<leftarrow> scoped_new scoped_fails interrupted ''/test'' os;
          let out = [''Working...'', ''Done scoped lock''];
          (os, lck) \<leftarrow> Some (gl_new fails ''/test'' (scoped_delete os l));
          if \<not> gl_bool lck then Some (out @ [''Failed to create lock''], 1, gl_delete os lck)
          else (case gl_try_lock os lck of
              (os, lck, True) \<Rightarrow> Some (out @ [''Working...'', ''Done''], 0, gl_delete os lck)
            | (os, lck, False) \<Rightarrow>
                do { (os, lck, r) \<leftarrow> gl_try_lock_for 3000 now expired os lck;
                     (if r \<and> gl_locked os lck
                      then Some (out @ [''Already locked'', ''Working...'', ''Done''], 0, gl_delete (fst (gl_unlock os lck)) (fst (snd (gl_unlock os lck))))
                      else Some (out @ [''Already locked'', ''Done''], 0, gl_delete os lck)) }) }"

subsection \<open>Processes that share a name\<close>

text \<open>
  Every process has at most one lock object, all on the same name. One step is one call of a process;
  a blocked call is not a step, it is made again later.
\<close>

datatype gl_call =
    Open nat
  | Lock nat bool
  | Try nat
  | Try_for nat u32 "(int \<times> int) option" bool
  | Unlock nat
  | Destroy nat

record gl_world =
  gl_os :: sem_os
  gl_objs :: "nat \<Rightarrow> glock option"

fun gl_process :: "gl_call \<Rightarrow> nat" where
  "gl_process (Open p) = p"
| "gl_process (Lock p _) = p"
| "gl_process (Try p) = p"
| "gl_process (Try_for p _ _ _) = p"
| "gl_process (Unlock p) = p"
| "gl_process (Destroy p) = p"

fun gl_call_result :: "string \<Rightarrow> gl_call \<Rightarrow> sem_os \<Rightarrow> glock option \<Rightarrow> (sem_os \<times> glock option) option" where
  "gl_call_result n (Open p) os None = (case gl_new False n os of (os', l) \<Rightarrow> Some (os', Some l))"
| "gl_call_result n (Lock p i) os (Some l) = map_option (\<lambda>(os', l', _). (os', Some l')) (gl_lock i os l)"
| "gl_call_result n (Try p) os (Some l) = (case gl_try_lock os l of (os', l', _) \<Rightarrow> Some (os', Some l'))"
| "gl_call_result n (Try_for p ms now e) os (Some l) =
     map_option (\<lambda>(os', l', _). (os', Some l')) (gl_try_lock_for ms now e os l)"
| "gl_call_result n (Unlock p) os (Some l) = (case gl_unlock os l of (os', l', _) \<Rightarrow> Some (os', Some l'))"
| "gl_call_result n (Destroy p) os (Some l) = Some (gl_delete os l, None)"
| "gl_call_result n _ os _ = None"

definition gl_exec :: "string \<Rightarrow> gl_call \<Rightarrow> gl_world \<Rightarrow> gl_world option" where
  "gl_exec n c w =
     map_option (\<lambda>(os', l). w\<lparr>gl_os := os', gl_objs := (gl_objs w)(gl_process c := l)\<rparr>)
       (gl_call_result n c (gl_os w) (gl_objs w (gl_process c)))"

text \<open>Two initial worlds: the semaphore exists, put there by another program, or it does not.\<close>

definition gl_existing :: "string \<Rightarrow> gl_world" where
  "gl_existing n = \<lparr>gl_os = \<lparr>sem_names = [n \<mapsto> 0], sem_vals = [1]\<rparr>, gl_objs = (\<lambda>_. None)\<rparr>"

definition gl_absent :: gl_world where
  "gl_absent = \<lparr>gl_os = \<lparr>sem_names = Map.empty, sem_vals = []\<rparr>, gl_objs = (\<lambda>_. None)\<rparr>"

end
