(* ===== verification/Lock_Properties.thy ===== *)
theory Lock_Properties
  imports Global_Lock
begin

section \<open>What the global locks promise\<close>

text \<open>
  The file lock reports what it did only as long as nothing fails. The semaphore lock excludes other
  processes as long as no creator of the semaphore goes away; when one does, the name leads others to
  a fresh semaphore. A timed lock may give up at once.
\<close>

subsection \<open>The file lock\<close>

lemma file_stuck:
  "file_calls cs (- 1) answers = (- 1, answers @ replicate (length [c \<leftarrow> cs. c \<noteq> Release]) False)"
  by (induction cs "- 1 :: int" answers rule: file_calls.induct)
    (auto simp: file_acquire_def file_release_def replicate_append_same [symmetric])

text \<open>
  \<^verbatim>\<open>acquire\<close> answers true exactly when the object had no descriptor, the file was opened and the
  lock was granted; releasing then returns to the initial state. When the file opened but the lock was
  refused, \<^verbatim>\<open>acquire\<close> answers false while \<^verbatim>\<open>locked\<close> answers true. When the file could not be opened,
  every later \<^verbatim>\<open>acquire\<close> fails, whatever is called in between and even if the file could be opened.
\<close>

theorem file_lock_answers:
  "(snd (file_acquire opened flocked fd) \<longleftrightarrow> fd = 0 \<and> opened > 0 \<and> flocked = 0) \<and>
   (snd (file_acquire opened flocked fd) \<longrightarrow>
      file_release (fst (file_acquire opened flocked fd)) = file_lock_new) \<and>
   (file_acquire 3 (- 1) file_lock_new = (3, False) \<and> file_locked 3) \<and>
   snd (file_calls (Acquire (- 1) 0 # cs) file_lock_new []) =
     replicate (1 + length [c \<leftarrow> cs. c \<noteq> Release]) False"
  by (auto simp: file_acquire_def file_release_def file_lock_new_def file_locked_def file_stuck
      split: if_splits)

subsection \<open>Exclusion between processes\<close>

definition gl_holds :: "gl_world \<Rightarrow> nat \<Rightarrow> bool" where
  "gl_holds w p \<longleftrightarrow> (\<exists>l. gl_objs w p = Some l \<and> gl_held l)"

definition gl_inv :: "string \<Rightarrow> gl_world \<Rightarrow> bool" where
  "gl_inv n w \<longleftrightarrow>
     sem_names (gl_os w) n = Some 0 \<and> length (sem_vals (gl_os w)) = 1 \<and>
     (\<forall>p l. gl_objs w p = Some l \<longrightarrow> gl_sem l = Some 0 \<and> gl_name l = []) \<and>
     finite {p. gl_holds w p} \<and> sem_vals (gl_os w) ! 0 + card {p. gl_holds w p} = 1"

text \<open>A call changes the counter by the change of what its process holds.\<close>

lemma gl_inv_upd:
  assumes inv: "gl_inv n w" and w': "w' = w\<lparr>gl_os := os', gl_objs := (gl_objs w)(p := l')\<rparr>"
    and os': "sem_names os' n = Some 0" "length (sem_vals os') = 1"
    and obj: "\<And>l. l' = Some l \<Longrightarrow> gl_sem l = Some 0 \<and> gl_name l = []"
    and count: "sem_vals os' ! 0 + of_bool (gl_holds w' p) = sem_vals (gl_os w) ! 0 + of_bool (gl_holds w p)"
  shows "gl_inv n w'"
proof -
  let ?H = "{q. gl_holds w q}"
  have H': "{q. gl_holds w' q} = (if gl_holds w' p then insert p ?H else ?H - {p})"
    using w' by (auto simp: gl_holds_def split: if_splits)
  have fin: "finite ?H" and sum: "sem_vals (gl_os w) ! 0 + card ?H = 1"
    using inv by (auto simp: gl_inv_def)
  have "card {q. gl_holds w' q} + of_bool (gl_holds w p) = card ?H + of_bool (gl_holds w' p)"
    using fin card_Suc_Diff1 [of ?H p] unfolding H'
    by (cases "gl_holds w p"; cases "gl_holds w' p") (simp_all add: insert_absorb)
  with sum count have "sem_vals os' ! 0 + card {q. gl_holds w' q} = 1" by linarith
  moreover have "finite {q. gl_holds w' q}" unfolding H' using fin by simp
  moreover have "\<forall>q l. gl_objs w' q = Some l \<longrightarrow> gl_sem l = Some 0 \<and> gl_name l = []"
    using inv obj w' by (auto simp: gl_inv_def)
  ultimately show ?thesis using os' w' by (simp add: gl_inv_def)
qed

lemmas gl_os_defs = os_sem_post_def os_sem_trywait_def os_sem_wait_def os_sem_timedwait_def
  os_sem_open_def

lemma gl_call_count:
  assumes "gl_call_result n c os l = Some (os', l')"
    and "sem_names os n = Some 0" "length (sem_vals os) = 1"
    and "\<And>k. l = Some k \<Longrightarrow> gl_sem k = Some 0 \<and> gl_name k = []"
  shows "sem_names os' n = Some 0 \<and> length (sem_vals os') = 1 \<and>
    (\<forall>k. l' = Some k \<longrightarrow> gl_sem k = Some 0 \<and> gl_name k = []) \<and>
    sem_vals os' ! 0 + of_bool (\<exists>k. l' = Some k \<and> gl_held k) =
    sem_vals os ! 0 + of_bool (\<exists>k. l = Some k \<and> gl_held k)"
proof (cases l)
  case None
  with assms show ?thesis
    by (cases c) (auto simp: gl_new_def os_sem_open_def split: prod.splits)
next
  case (Some k)
  with assms(4) have k: "gl_sem k = Some 0" "gl_name k = []" by auto
  with Some assms(1-3) show ?thesis
    by (cases c)
      (auto simp: gl_lock_def gl_try_lock_def gl_try_lock_for_def gl_unlock_def gl_delete_def gl_bool_def
        gl_os_defs split: if_splits option.splits)
qed

lemma gl_inv_step [keeps]:
  assumes "gl_inv n w" "exec_step (gl_exec n) w w'"
  shows "gl_inv n w'"
proof -
  obtain c os' l' where c: "gl_call_result n c (gl_os w) (gl_objs w (gl_process c)) = Some (os', l')"
    and w': "w' = w\<lparr>gl_os := os', gl_objs := (gl_objs w)(gl_process c := l')\<rparr>"
    using assms(2) by (auto simp: exec_step_def gl_exec_def)
  have "sem_names (gl_os w) n = Some 0" "length (sem_vals (gl_os w)) = 1"
    "\<And>k. gl_objs w (gl_process c) = Some k \<Longrightarrow> gl_sem k = Some 0 \<and> gl_name k = []"
    using assms(1) by (auto simp: gl_inv_def)
  from gl_call_count [OF c this] show ?thesis
    by (intro gl_inv_upd [OF assms(1) w']) (auto simp: gl_holds_def w')
qed

lemma gl_inv_existing: "gl_inv n (gl_existing n)"
  by (simp add: gl_inv_def gl_existing_def gl_holds_def)

lemma gl_inv_reachable: "reachable (exec_step (gl_exec n)) (gl_existing n) w \<Longrightarrow> gl_inv n w"
proof (induction rule: reachable.induct)
  case start
  show ?case by (rule gl_inv_existing)
qed (rule gl_inv_step)

text \<open>
  C14: When the semaphore exists before any of the processes opens it, then whatever they call and
  however their calls interleave, at most one of them holds the lock, and the counter of the semaphore
  is 1 when none does and 0 when one does.
\<close>

theorem gl_exclusive:
  assumes "reachable (exec_step (gl_exec n)) (gl_existing n) w" "gl_holds w p"
  shows "sem_vals (gl_os w) ! 0 = 0 \<and> (\<forall>q. gl_holds w q \<longrightarrow> q = p)"
proof -
  from gl_inv_reachable [OF assms(1)] have *: "finite {q. gl_holds w q}"
    "sem_vals (gl_os w) ! 0 + card {q. gl_holds w q} = 1" by (auto simp: gl_inv_def)
  have "card {q. gl_holds w q} \<noteq> 0" using *(1) assms(2) by auto
  with *(2) have "sem_vals (gl_os w) ! 0 = 0" "card {q. gl_holds w q} = 1" by linarith+
  moreover from this obtain x where "{q. gl_holds w q} = {x}" by (auto simp: card_1_singleton_iff)
  ultimately show ?thesis using assms(2) by (metis mem_Collect_eq singleton_iff)
qed

definition gl_run :: "string \<Rightarrow> gl_call list \<Rightarrow> gl_world \<Rightarrow> gl_world option" where
  "gl_run n = run_schedule (gl_exec n)"

lemma gl_run_reachable: "gl_run n cs w = Some w' \<Longrightarrow> reachable (exec_step (gl_exec n)) w w'"
  by (simp add: gl_run_def run_schedule_reachable)

lemmas gl_eval = gl_run_def gl_exec_def gl_new_def os_sem_open_def gl_lock_def gl_try_lock_def
  gl_try_lock_for_def gl_unlock_def gl_delete_def gl_bool_def gl_os_defs os_sem_unlink_def
  gl_existing_def gl_absent_def gl_holds_def

theorem gl_exclusive_witness:
  "\<exists>w. gl_run ''/test'' [Open 0, Open 1, Lock 0 False, Try 1] (gl_existing ''/test'') = Some w \<and>
     sem_vals (gl_os w) ! 0 = 0 \<and> \<not> gl_holds w 1"
proof -
  obtain w where w: "gl_run ''/test'' [Open 0, Open 1, Lock 0 False, Try 1] (gl_existing ''/test'') = Some w"
    "gl_holds w 0" by (simp add: gl_eval)
  from gl_exclusive [OF gl_run_reachable [OF w(1)] w(2)] w(1) show ?thesis by auto
qed

text \<open>
  The destructor of the object that created the semaphore removes its name while others still have
  it open. The next process to open the name creates a second semaphore, and two processes then hold
  the lock at the same time.
\<close>

theorem gl_unlink_breaks_exclusion:
  "\<exists>w. reachable (exec_step (gl_exec ''/test'')) gl_absent w \<and> gl_holds w 1 \<and> gl_holds w 2"
proof -
  obtain w where w: "gl_run ''/test'' [Open 0, Open 1, Destroy 0, Lock 1 False, Open 2, Lock 2 False]
      gl_absent = Some w" "gl_holds w 1" "gl_holds w 2" by (simp add: gl_eval)
  from gl_run_reachable [OF w(1)] w(2,3) show ?thesis by blast
qed

text \<open>
  With the semaphore taken and the clock running, a timed lock waits only when the nanoseconds of
  the clock and of the remainder of the timeout add up to less than a second; otherwise it gives up at
  once, before its timeout.
\<close>

theorem gl_timed_lock_waits:
  assumes "gl_sem l = Some i" "\<not> gl_held l" "sem_vals os ! i = 0" "0 \<le> nsec"
  shows "gl_try_lock_for ms (Some (sec, nsec)) False os l =
    (if nsec + uint (ms mod 1000) * 1000000 < 1000000000 then None else Some (os, l\<lparr>gl_held := False\<rparr>, False))"
proof -
  have "uint (ms mod 1000) < 1000" by (simp add: uint_mod)
  then have "uint (ms mod 1000 * 1000000) = uint (ms mod 1000) * 1000000"
    by (simp add: uint_word_ariths(3) mod_pos_pos_trivial)
  moreover have "0 \<le> uint (ms mod 1000) * 1000000" by simp
  ultimately show ?thesis using assms(1-3) add_nonneg_nonneg [OF assms(4)]
    by (simp add: not_less gl_try_lock_for_def gl_deadline_def os_sem_timedwait_def Let_def)
qed

theorem gl_timed_lock_waits_witness:
  "gl_try_lock_for 999 (Some (7, 500000000)) False \<lparr>sem_names = Map.empty, sem_vals = [0]\<rparr>
     \<lparr>gl_sem = Some 0, gl_held = False, gl_name = []\<rparr> =
   Some (\<lparr>sem_names = Map.empty, sem_vals = [0]\<rparr>, \<lparr>gl_sem = Some 0, gl_held = False, gl_name = []\<rparr>, False)"
  using gl_timed_lock_waits [of "\<lparr>gl_sem = Some 0, gl_held = False, gl_name = []\<rparr>" 0
      "\<lparr>sem_names = Map.empty, sem_vals = [0]\<rparr>" 500000000 999 7]
  by (simp add: uint_mod)

text \<open>
  The program alone: it works twice; a semaphore that was not there is gone again. When the scoped lock cannot have its
  semaphore, the program works all the same, without a lock.
\<close>

lemma sem_main_alone:
  "sem_main False False False now e \<lparr>sem_names = Map.empty, sem_vals = []\<rparr> =
     Some ([''Working...'', ''Done scoped lock'', ''Working...'', ''Done''], 0, \<lparr>sem_names = Map.empty, sem_vals = [1, 1]\<rparr>)"
  "sem_main True i False now e \<lparr>sem_names = [''/test'' \<mapsto> 0], sem_vals = [0]\<rparr> =
     map_option (\<lambda>(lines, rest). ([''Working...'', ''Done scoped lock'', ''Already locked''] @ lines, rest))
       (map_option (\<lambda>(os, l, r). ([''Done''], 0, gl_delete os l))
         (gl_try_lock_for 3000 now e \<lparr>sem_names = [''/test'' \<mapsto> 0], sem_vals = [0]\<rparr>
            \<lparr>gl_sem = Some 0, gl_held = False, gl_name = []\<rparr>))"
  by (auto simp: sem_main_def scoped_new_def scoped_delete_def gl_new_def os_sem_open_def gl_lock_def os_sem_wait_def
      gl_try_lock_def os_sem_trywait_def gl_unlock_def os_sem_post_def gl_delete_def gl_bool_def os_sem_unlink_def
      gl_try_lock_for_def os_sem_timedwait_def split: option.splits)

end
