(* ===== verification/Led_Driver.thy ===== *)
theory Led_Driver
  imports Exclusion Prelude
begin

section \<open>The LED character driver\<close>

text \<open>
  Models \<^verbatim>\<open>LinuxGpioLedDriver/ledgpio.c\<close> and the command of \<^verbatim>\<open>ledgpio.h\<close>. The state holds the static
  variables, the kernel memory the driver allocates (an address leads to the array of ports it holds,
  or to nothing once freed) and the output pins. What kernel functions answer is an argument. A
  result of \<^const>\<open>None\<close> is a memory error: a null pointer used, or memory freed twice or used after
  it was freed.
\<close>

datatype led_operation = LED_OP_START | LED_OP_STOP | LED_OP_SET | LED_OP_GET | LED_OP_other

record led_cmd =
  operation :: led_operation
  leds_of :: "26 word"

definition sizeof_led_cmd :: nat where "sizeof_led_cmd = 4"
definition GPIO_MIN_PORT :: nat where "GPIO_MIN_PORT = 2"
definition GPIO_MAX_PORT :: nat where "GPIO_MAX_PORT = 27"
definition GPIO_NUM :: nat where "GPIO_NUM = 26"
definition EBUSY :: int where "EBUSY = 16"
definition EFAULT :: int where "EFAULT = 14"

record driver =
  initialized :: bool
  leds_number :: nat
  leds :: "nat option"
  led_state :: "26 word"
  heap :: "nat \<Rightarrow> nat list option"
  next_address :: nat
  pins :: "nat \<Rightarrow> bool"

definition driver_loaded :: driver where
  "driver_loaded =
     \<lparr>initialized = False, leds_number = 0, leds = None, led_state = 0, heap = Map.empty,
      next_address = 1, pins = (\<lambda>_. False)\<rparr>"

subsection \<open>Loading and unloading\<close>

text \<open>
  The kernel objects registered, and what each registration answers: a negative number is an error.
  \<^verbatim>\<open>drv_init\<close> returns its result and what is registered then.
\<close>

datatype kernel_object = Chrdev | Class | Device | Mutex

definition drv_init :: "int \<Rightarrow> int \<Rightarrow> int \<Rightarrow> int \<times> kernel_object list" where
  "drv_init major class_err device_err =
     (if major < 0 then (major, [])
      else
        let objs = [Chrdev]
        in if class_err < 0 then (class_err, remove1 Chrdev objs)
           else
             let objs = Class # objs
             in if device_err < 0 then (device_err, remove1 Chrdev (remove1 Class objs))
                else (0, Mutex # Device # objs))"

definition drv_exit :: "kernel_object list \<Rightarrow> kernel_object list" where
  "drv_exit objs =
     (let objs = remove1 Device objs;
          objs = remove1 Class objs;
          objs = remove1 Class objs;
          objs = remove1 Chrdev objs
      in remove1 Mutex objs)"

text \<open>\<^verbatim>\<open>open\<close> and \<^verbatim>\<open>release\<close> of the device; the state is whether the mutex is locked.\<close>

definition dev_open :: "bool \<Rightarrow> bool \<times> int" where
  "dev_open device_mutex = (if device_mutex then (device_mutex, - EBUSY) else (True, 0))"

definition dev_release :: "bool \<Rightarrow> bool \<times> int" where
  "dev_release device_mutex = (False, 0)"

subsection \<open>Commands\<close>

definition led_ports :: "26 word \<Rightarrow> nat list" where
  "led_ports msk = [i + GPIO_MIN_PORT. i \<leftarrow> [0..<GPIO_NUM], msk AND push_bit i 1 \<noteq> 0]"

definition set_pins :: "nat list \<Rightarrow> (nat \<Rightarrow> bool) \<Rightarrow> driver \<Rightarrow> driver" where
  "set_pins ports value d = foldl (\<lambda>d p. d\<lparr>pins := (pins d)(p := value p)\<rparr>) d ports"

definition kmalloc :: "bool \<Rightarrow> driver \<Rightarrow> driver" where
  "kmalloc succeeds d =
     (if succeeds then
        d\<lparr>leds := Some (next_address d), heap := (heap d)(next_address d \<mapsto> []),
          next_address := next_address d + 1\<rparr>
      else d\<lparr>leds := None\<rparr>)"

text \<open>The first \<^verbatim>\<open>leds_number\<close> elements of the array the pointer leads to.\<close>

definition leds_array :: "driver \<Rightarrow> nat list option" where
  "leds_array d =
     (if leds_number d = 0 then Some []
      else do { a \<leftarrow> leds d; heap d a })"

definition led_gpio_init :: "bool \<Rightarrow> int \<Rightarrow> led_cmd \<Rightarrow> driver \<Rightarrow> (driver \<times> int) option" where
  "led_gpio_init alloc_ok requested cmd d =
     (if initialized d then Some (d, 1)
      else
        let l = led_ports (leds_of cmd);
            d = d\<lparr>leds_number := length l\<rparr>;
            d = (if leds_number d \<noteq> 0 then kmalloc alloc_ok d else d)
        in do { d \<leftarrow> (if leds_number d = 0 then Some d
                     else do { a \<leftarrow> leds d; _ \<leftarrow> heap d a; Some (d\<lparr>heap := (heap d)(a \<mapsto> l)\<rparr>) });
                ports \<leftarrow> leds_array d;
                d \<leftarrow> Some (set_pins ports (\<lambda>_. False) d);
                Some (d\<lparr>initialized := True\<rparr>, requested) })"

definition kfree :: "nat \<Rightarrow> driver \<Rightarrow> driver option" where
  "kfree a d = (if heap d a = None then None else Some (d\<lparr>heap := (heap d)(a := None)\<rparr>))"

definition led_gpio_shutdown :: "driver \<Rightarrow> (driver \<times> int) option" where
  "led_gpio_shutdown d =
     (if \<not> initialized d then Some (d, 1)
      else do { ports \<leftarrow> leds_array d;
                d \<leftarrow> Some (set_pins ports (\<lambda>_. False) d);
                d \<leftarrow> (case leds d of None \<Rightarrow> Some d | Some a \<Rightarrow> kfree a d);
                Some (d\<lparr>initialized := False\<rparr>, 0) })"

definition led_gpio_set :: "led_cmd \<Rightarrow> driver \<Rightarrow> (driver \<times> int) option" where
  "led_gpio_set cmd d =
     (if \<not> initialized d then Some (d, 1)
      else do { ports \<leftarrow> leds_array d;
                d \<leftarrow> Some (set_pins ports (\<lambda>p. leds_of cmd AND push_bit (p - GPIO_MIN_PORT) 1 \<noteq> 0) d);
                Some (d\<lparr>led_state := leds_of cmd\<rparr>, 0) })"

definition led_gpio_get :: "led_cmd \<Rightarrow> driver \<Rightarrow> led_cmd \<times> int" where
  "led_gpio_get cmd d =
     (if \<not> initialized d then (cmd, 1) else (cmd\<lparr>leds_of := led_state d\<rparr>, 0))"

text \<open>The buffer of the caller is the command that is read into; the result is the number of bytes.\<close>

definition dev_read :: "bool \<Rightarrow> nat \<Rightarrow> led_cmd \<Rightarrow> driver \<Rightarrow> led_cmd \<times> int" where
  "dev_read copy_fails len buf d =
     (if len \<noteq> sizeof_led_cmd then (buf, - EFAULT)
      else
        case led_gpio_get buf d of (buf, got) \<Rightarrow>
          let ret = (if got \<noteq> 0 then - EFAULT else 0);
              ret = (if ret = 0 \<and> copy_fails then - EFAULT else ret);
              ret = int len
          in (buf, ret))"

definition dev_write :: "bool \<Rightarrow> int \<Rightarrow> nat \<Rightarrow> led_cmd \<Rightarrow> driver \<Rightarrow> (driver \<times> int) option" where
  "dev_write alloc_ok requested len cmd d =
     (if len \<noteq> sizeof_led_cmd then Some (d, - EFAULT)
      else
        case operation cmd of
          LED_OP_START \<Rightarrow> map_option (\<lambda>(d, r). (d, if r \<noteq> 0 then - EFAULT else 0)) (led_gpio_init alloc_ok requested cmd d)
        | LED_OP_STOP \<Rightarrow> map_option (\<lambda>(d, r). (d, if r \<noteq> 0 then - EFAULT else 0)) (led_gpio_shutdown d)
        | LED_OP_SET \<Rightarrow> map_option (\<lambda>(d, r). (d, if r \<noteq> 0 then - EFAULT else 0)) (led_gpio_set cmd d)
        | _ \<Rightarrow> Some (d, - EFAULT))"

subsection \<open>Processes that open the device\<close>

record device_world =
  device_mutex :: bool
  device_files :: "nat set"

datatype device_call = Dev_open nat | Dev_release nat

text \<open>The kernel calls \<^verbatim>\<open>release\<close> only for a file whose \<^verbatim>\<open>open\<close> succeeded.\<close>

fun device_exec :: "device_call \<Rightarrow> device_world \<Rightarrow> device_world option" where
  "device_exec (Dev_open p) w =
     (case dev_open (device_mutex w) of (m, r) \<Rightarrow>
        Some (w\<lparr>device_mutex := m, device_files := (if r = 0 then insert p (device_files w) else device_files w)\<rparr>))"
| "device_exec (Dev_release p) w =
     (if p \<in> device_files w then
        Some (w\<lparr>device_mutex := fst (dev_release (device_mutex w)), device_files := device_files w - {p}\<rparr>)
      else None)"

definition device_closed :: device_world where
  "device_closed = \<lparr>device_mutex = False, device_files = {}\<rparr>"

end
