(* ===== verification/Led_Client.thy ===== *)
theory Led_Client
  imports Led_Driver
begin

section \<open>The client of the LED driver\<close>

text \<open>
  Models \<^verbatim>\<open>LinuxGpioLedDriver/ledgpio_client.cpp\<close> and the program \<^verbatim>\<open>test.cpp\<close>. The system calls of the
  client end in the handlers of the driver, whose state the operations thread. The answer of \<^verbatim>\<open>open\<close>
  is an argument; it is the descriptor or \<open>- 1\<close>.
\<close>

type_synonym port_mask = u32

definition Led_min :: nat where "Led_min = GPIO_MIN_PORT"
definition Led_max :: nat where "Led_max = GPIO_MAX_PORT"

definition State_set :: "nat \<Rightarrow> bool \<Rightarrow> port_mask \<Rightarrow> port_mask \<times> bool" where
  "State_set port on msk =
     (if port < Led_min \<or> port > Led_max then (msk, False)
      else
        let m = push_bit (port - GPIO_MIN_PORT) 1;
            res = (msk AND m \<noteq> 0)
        in (if on then msk OR m else msk XOR m, res))"

definition State_get :: "nat \<Rightarrow> port_mask \<Rightarrow> bool" where
  "State_get port msk =
     (if port < Led_min \<or> port > Led_max then False
      else msk AND push_bit (port - 2) 1 \<noteq> 0)"

definition State_clean :: "port_mask \<Rightarrow> port_mask" where
  "State_clean msk = 0"

text \<open>The mask goes into a bit field of 26 bits.\<close>

definition led_cmd_of :: "led_operation \<Rightarrow> port_mask \<Rightarrow> led_cmd" where
  "led_cmd_of op msk = \<lparr>operation = op, leds_of = ucast msk\<rparr>"

definition Led_new :: "int \<Rightarrow> bool \<Rightarrow> int \<Rightarrow> port_mask \<Rightarrow> driver \<Rightarrow> (int \<times> driver) option" where
  "Led_new opened alloc_ok requested msk d =
     (if opened \<ge> 0 then
        do { (d, written) \<leftarrow> dev_write alloc_ok requested sizeof_led_cmd (led_cmd_of LED_OP_START msk) d;
             Some (if written < 0 then (0, d) else (opened, d)) }
      else Some (opened, d))"

definition Led_delete :: "int \<Rightarrow> driver \<Rightarrow> driver option" where
  "Led_delete f d =
     (if f = 0 then Some d
      else if f < 0 then Some d
      else map_option fst (dev_write True 0 sizeof_led_cmd (led_cmd_of LED_OP_STOP 0) d))"

definition Led_is_open :: "int \<Rightarrow> bool" where
  "Led_is_open f \<longleftrightarrow> f \<noteq> 0"

text \<open>On the descriptor \<open>- 1\<close> the kernel refuses every call without reaching the driver.\<close>

definition Led_get :: "int \<Rightarrow> bool \<Rightarrow> port_mask \<Rightarrow> driver \<Rightarrow> port_mask \<times> bool" where
  "Led_get f copy_fails msk d =
     (if f = 0 then (msk, False)
      else
        let cmd = led_cmd_of LED_OP_GET msk;
            (cmd, ret) = (if f < 0 then (cmd, - 1) else dev_read copy_fails sizeof_led_cmd cmd d)
        in (ucast (leds_of cmd), ret \<ge> 0))"

definition Led_set :: "int \<Rightarrow> port_mask \<Rightarrow> driver \<Rightarrow> (driver \<times> bool) option" where
  "Led_set f msk d =
     (if f = 0 then Some (d, False)
      else if f < 0 then Some (d, False)
      else
        map_option (\<lambda>(d, ret). (d, ret \<ge> 0))
          (dev_write True 0 sizeof_led_cmd (led_cmd_of LED_OP_SET msk) d))"

text \<open>
  The test program: its exit code, the pins while it sleeps, before its last statement and after the
  destructor ran.
\<close>

definition led_test :: "int \<Rightarrow> driver \<Rightarrow> (int \<times> (nat \<Rightarrow> bool) list) option" where
  "led_test opened d =
     (let leds = fst (State_set 18 True 0);
          leds = fst (State_set 12 True leds)
      in do {
        (ports, d) \<leftarrow> Led_new opened True 0 leds d;
        if \<not> Led_is_open ports then Some (1, [])
        else
          let leds = fst (State_set 18 True (State_clean leds))
          in do {
            (d1, ok) \<leftarrow> Led_set ports leds d;
            if \<not> ok then do { d1 \<leftarrow> Led_delete ports d1; Some (1, [pins d1]) }
            else
              let (leds, got) = Led_get ports False leds d1
              in if \<not> got then do { d2 \<leftarrow> Led_delete ports d1; Some (1, [pins d1, pins d2]) }
                 else do {
                   (d2, ok) \<leftarrow> Led_set ports (fst (State_set 18 False leds)) d1;
                   d3 \<leftarrow> Led_delete ports d2;
                   Some (if ok then 0 else 1, [pins d1, pins d2, pins d3]) } } })"

end
