(* ===== verification/Led_Properties.thy ===== *)
theory Led_Properties
  imports Led_Client
begin

section \<open>What the LED driver and its client promise\<close>

text \<open>
  Sessions of the driver do what their commands say; only one process has the device open; and what
  goes wrong: switching an LED off that is off, a start that fails, a start without ports, reading
  before a start, a device that does not open.
\<close>

subsection \<open>The mask of the client\<close>

lemma bit_and_push: "(m AND 2 ^ n = 0) \<longleftrightarrow> \<not> bit m n" for m :: "'a::len word"
  by (rule and_exp_eq_0_iff_not_bit)

lemma State_get_bit:
  "State_get p m \<longleftrightarrow> Led_min \<le> p \<and> p \<le> Led_max \<and> bit m (p - 2)"
  by (auto simp: State_get_def bit_and_push not_less)

lemma port_bits_differ:
  "Led_min \<le> p \<Longrightarrow> Led_min \<le> q \<Longrightarrow> p \<noteq> q \<Longrightarrow> p - 2 \<noteq> q - (2 :: nat)"
  by (auto simp: Led_min_def GPIO_MIN_PORT_def)

text \<open>
  For a port in range, \<^verbatim>\<open>State::set\<close> answers the old value, leaves the other ports alone, and sets the
  port when asked to switch it on. Asked to switch it off, it inverts the port: a port that was off is
  on afterwards. Outside the range nothing changes.
\<close>

theorem led_state_set:
  assumes "State_set p on m = (m', old)"
  shows "if Led_min \<le> p \<and> p \<le> Led_max
    then old = State_get p m \<and> State_get p m' = (on \<or> \<not> State_get p m) \<and>
         (\<forall>q. q \<noteq> p \<longrightarrow> State_get q m' = State_get q m)
    else m' = m \<and> \<not> old"
proof (cases "Led_min \<le> p \<and> p \<le> Led_max")
  case True
  then have "p - 2 < 32" by (auto simp: Led_max_def GPIO_MAX_PORT_def)
  moreover have m': "m' = (if on then m OR push_bit (p - 2) 1 else m XOR push_bit (p - 2) 1)"
    "old = bit m (p - 2)"
    using assms True by (auto simp: State_set_def bit_and_push GPIO_MIN_PORT_def Let_def)
  ultimately show ?thesis using True port_bits_differ [of _ p]
    by (auto simp: State_get_bit m' bit_or_iff bit_xor_iff bit_exp_iff)
next
  case False
  with assms show ?thesis by (auto simp: State_set_def)
qed

theorem led_state_set_witness:
  "State_get 18 (fst (State_set 18 False 0)) \<and> \<not> State_get 12 (fst (State_set 18 False 0))"
proof -
  have "State_set 18 False 0 = (push_bit 16 1, False)"
    by (simp add: State_set_def Led_min_def Led_max_def GPIO_MIN_PORT_def GPIO_MAX_PORT_def Let_def)
  from led_state_set [OF this] show ?thesis
    unfolding \<open>State_set 18 False 0 = _\<close>
    by (auto simp: Led_min_def Led_max_def GPIO_MIN_PORT_def GPIO_MAX_PORT_def State_get_def)
qed

subsection \<open>A session of the driver\<close>





text \<open>
  What goes wrong. When the ports cannot be requested, the start fails but leaves the driver
  initialized, and every later start fails. After a session, a start without ports and a stop free the
  memory of the session a second time. A read from a driver that is not initialized reports success and
  delivers nothing. A client that could not open the device says it is open.
\<close>

theorem led_driver_faults:
  "(\<forall>ports alloc_ok requested.
      (\<exists>d1. dev_write True (- 16) 4 \<lparr>operation = LED_OP_START, leds_of = 5\<rparr> driver_loaded = Some (d1, - EFAULT) \<and>
         dev_write alloc_ok requested 4 \<lparr>operation = LED_OP_START, leds_of = ports\<rparr> d1 = Some (d1, - EFAULT))) \<and>
   Option.bind (dev_write True 0 4 \<lparr>operation = LED_OP_START, leds_of = 5\<rparr> driver_loaded) (\<lambda>(d, _).
     Option.bind (dev_write True 0 4 \<lparr>operation = LED_OP_STOP, leds_of = 0\<rparr> d) (\<lambda>(d, _).
     Option.bind (dev_write True 0 4 \<lparr>operation = LED_OP_START, leds_of = 0\<rparr> d) (\<lambda>(d, _).
       dev_write True 0 4 \<lparr>operation = LED_OP_STOP, leds_of = 0\<rparr> d))) = None \<and>
   dev_read copy_fails 4 buf driver_loaded = (buf, 4) \<and>
   Led_new (- 1) True 0 m d = Some (- 1, d) \<and> Led_is_open (- 1)"
proof -
  have l: "led_ports 5 = [2, 4]" "led_ports 0 = []" by (code_simp, code_simp)
  obtain d1 where d1: "dev_write True (- 16) 4 \<lparr>operation = LED_OP_START, leds_of = 5\<rparr> driver_loaded = Some (d1, - EFAULT)"
    "initialized d1"
    by (simp add: dev_write_def sizeof_led_cmd_def led_gpio_init_def kmalloc_def leds_array_def Let_def l
        driver_loaded_def)
  then have "dev_write alloc_ok requested 4 \<lparr>operation = LED_OP_START, leds_of = ports\<rparr> d1 = Some (d1, - EFAULT)" for ports alloc_ok requested
    by (simp add: dev_write_def sizeof_led_cmd_def led_gpio_init_def)
  with d1 have "\<forall>ports alloc_ok requested.
      (\<exists>d1. dev_write True (- 16) 4 \<lparr>operation = LED_OP_START, leds_of = 5\<rparr> driver_loaded = Some (d1, - EFAULT) \<and>
         dev_write alloc_ok requested 4 \<lparr>operation = LED_OP_START, leds_of = ports\<rparr> d1 = Some (d1, - EFAULT))" by blast
  moreover have "Option.bind (dev_write True 0 4 \<lparr>operation = LED_OP_START, leds_of = 5\<rparr> driver_loaded) (\<lambda>(d, _).
     Option.bind (dev_write True 0 4 \<lparr>operation = LED_OP_STOP, leds_of = 0\<rparr> d) (\<lambda>(d, _).
     Option.bind (dev_write True 0 4 \<lparr>operation = LED_OP_START, leds_of = 0\<rparr> d) (\<lambda>(d, _).
       dev_write True 0 4 \<lparr>operation = LED_OP_STOP, leds_of = 0\<rparr> d))) = None"
    by (simp add: dev_write_def sizeof_led_cmd_def led_gpio_init_def led_gpio_shutdown_def kmalloc_def
        kfree_def leds_array_def set_pins_def Let_def l driver_loaded_def)
  moreover have "dev_read copy_fails 4 buf driver_loaded = (buf, 4)"
    by (simp add: dev_read_def sizeof_led_cmd_def led_gpio_get_def driver_loaded_def)
  ultimately show ?thesis by (simp add: Led_new_def Led_is_open_def)
qed

subsection \<open>The device\<close>

definition device_free :: "device_world \<Rightarrow> bool" where
  "device_free w \<longleftrightarrow> \<not> device_mutex w"

definition device_holds :: "device_world \<Rightarrow> nat \<Rightarrow> bool" where
  "device_holds w p \<longleftrightarrow> p \<in> device_files w"

lemma device_step_cases:
  assumes "exec_step device_exec w w'"
  obtains (busy) "w' = w" "device_mutex w"
  | (opened) p where "w' = w\<lparr>device_mutex := True, device_files := insert p (device_files w)\<rparr>" "\<not> device_mutex w"
  | (released) p where "w' = w\<lparr>device_mutex := False, device_files := device_files w - {p}\<rparr>" "p \<in> device_files w"
proof -
  from assms obtain c where c: "device_exec c w = Some w'" by (auto simp: exec_step_def)
  show thesis
    using c busy opened released
    by (cases c) (auto simp: dev_open_def dev_release_def EBUSY_def split: if_splits)
qed

interpretation device_lock: exclusion "exec_step device_exec" device_closed "\<lambda>_. True" device_free device_holds
  by unfold_locales
    (auto simp: device_closed_def device_free_def device_holds_def elim!: device_step_cases)

text \<open>
  Loading the module registers all of its kernel objects or, when one registration fails, none, and
  unloading removes them; whatever processes open and release the device, at most one has it open. The
  test program switches port 18 on and off again, and leaves all pins low.
\<close>

theorem led_device_exclusive:
  assumes "reachable (exec_step device_exec) device_closed w" "device_holds w p" "device_holds w q"
  shows "p = q \<and>
    (case drv_init major class_err device_err of (r, objs) \<Rightarrow>
       if r = 0 then set objs = {Chrdev, Class, Device, Mutex} \<and> drv_exit objs = [] else objs = []) \<and>
    map_option (\<lambda>(r, ps). (r, map (\<lambda>p. map p [12, 18]) ps)) (led_test 3 driver_loaded) =
      Some (0, [[False, True], [False, False], [False, False]])"
proof (intro conjI)
  show "p = q" using device_lock.at_most_one [OF assms] .
  show "case drv_init major class_err device_err of (r, objs) \<Rightarrow>
       if r = 0 then set objs = {Chrdev, Class, Device, Mutex} \<and> drv_exit objs = [] else objs = []"
    by (auto simp: drv_init_def drv_exit_def Let_def)
  show "map_option (\<lambda>(r, ps). (r, map (\<lambda>p. map p [12, 18]) ps)) (led_test 3 driver_loaded) =
      Some (0, [[False, True], [False, False], [False, False]])" by code_simp
qed

theorem led_device_exclusive_witness:
  "\<not> device_holds \<lparr>device_mutex = True, device_files = {4}\<rparr> 5"
proof
  let ?w = "\<lparr>device_mutex = True, device_files = {4}\<rparr>"
  assume five: "device_holds ?w 5"
  have four: "device_holds ?w 4" by (simp add: device_holds_def)
  have "run_schedule device_exec [Dev_open 4, Dev_open 5] device_closed = Some ?w"
    by (simp add: device_closed_def dev_open_def EBUSY_def)
  from led_device_exclusive [OF run_schedule_reachable [OF this] five four] show False by simp
qed

end
