(* ===== verification/Thread_Pool.thy ===== *)
theory Thread_Pool
  imports Exclusion
begin

section \<open>The thread pool\<close>

text \<open>
  Models \<^verbatim>\<open>thread_pool/thread_pool.hpp\<close> and \<^verbatim>\<open>thread_pool.cpp\<close>, and the copy in \<^verbatim>\<open>PostgresProxy\<close>, whose
  \<^verbatim>\<open>get\<close> gives up the mutex of the pool between two passes over the workers. Clients are numbers. One
  step is one critical section of a worker's mutex, or one access to the mutex of the pool; the sleeps
  have no effect. A task is known by a number, in the order of the calls of \<^verbatim>\<open>run\<close>; its thread runs until
  it finishes. Assigning to a \<^verbatim>\<open>std::thread\<close> that has not been joined calls \<^verbatim>\<open>std::terminate\<close>, which is
  the flag \<open>terminated\<close>.
\<close>

record worker =
  started :: bool
  finished :: bool
  thread :: "nat option"

datatype client_pc = Idle | Getting nat | Waiting | Got nat | Joining nat | Destroying nat | Destroyed

record pool =
  workers :: "worker list"
  joining :: bool
  pool_mtx :: "nat option"
  client :: "nat \<Rightarrow> client_pc"
  active :: "(nat \<times> nat) list"
  completed :: "nat list"
  next_task :: nat
  terminated :: bool

definition worker_new :: worker where
  "worker_new = \<lparr>started = False, finished = False, thread = None\<rparr>"

definition worker_free :: "worker \<Rightarrow> bool" where
  "worker_free w \<longleftrightarrow> \<not> started w \<or> (started w \<and> finished w)"

definition worker_swap :: "worker \<Rightarrow> worker \<Rightarrow> worker \<times> worker" where
  "worker_swap w rhs = (rhs, w)"

text \<open>One turn of the loop of \<^verbatim>\<open>Worker::join\<close>: the worker and whether the loop ends.\<close>

definition worker_join :: "worker \<Rightarrow> worker \<times> bool" where
  "worker_join w =
     (if \<not> started w then (w, True)
      else if finished w then (\<lparr>started = False, finished = False, thread = None\<rparr>, True)
      else (w, False))"

definition pool_new :: "nat \<Rightarrow> pool" where
  "pool_new n =
     \<lparr>workers = replicate n worker_new, joining = False, pool_mtx = None, client = (\<lambda>_. Idle),
      active = [], completed = [], next_task = 0, terminated = False\<rparr>"

definition set_client :: "nat \<Rightarrow> client_pc \<Rightarrow> pool \<Rightarrow> pool" where
  "set_client c p s = s\<lparr>client := (client s)(c := p)\<rparr>"

text \<open>
  \<^verbatim>\<open>run\<close> and the wrapper in the thread it starts, which sets \<^verbatim>\<open>done_\<close> of the worker it was started on.
\<close>

definition worker_run :: "nat \<Rightarrow> pool \<Rightarrow> pool" where
  "worker_run i s =
     (let w = workers s ! i
      in if thread w \<noteq> None then s\<lparr>terminated := True\<rparr>
         else s\<lparr>workers := (workers s)[i := w\<lparr>started := True, thread := Some (next_task s)\<rparr>],
                active := active s @ [(next_task s, i)], next_task := next_task s + 1\<rparr>)"

definition worker_wrapper :: "nat \<times> nat \<Rightarrow> pool \<Rightarrow> pool" where
  "worker_wrapper = (\<lambda>(t, i) s.
     s\<lparr>workers := (workers s)[i := (workers s ! i)\<lparr>finished := True\<rparr>],
       active := remove1 (t, i) (active s), completed := completed s @ [t]\<rparr>)"

text \<open>
  \<^verbatim>\<open>get\<close> at one worker: a free worker is swapped with a new one, the old one is joined by its destructor
  (its thread has finished), and the mutex is released.
\<close>

definition get_at :: "nat \<Rightarrow> nat \<Rightarrow> pool \<Rightarrow> pool" where
  "get_at c i s =
     (if worker_free (workers s ! i) then
        let (w, tmp) = worker_swap (workers s ! i) worker_new;
            _ = worker_join tmp
        in set_client c (Got i) (s\<lparr>workers := (workers s)[i := w], pool_mtx := None\<rparr>)
      else set_client c (Getting (i + 1)) s)"

text \<open>
  \<^verbatim>\<open>join\<close> and the destructor of the pool join one worker after the other: \<^verbatim>\<open>join\<close> with the mutex of the pool, the
  destructor, which the compiler writes, through the destructors of the workers.
\<close>

definition join_worker_at :: "(nat \<Rightarrow> client_pc) \<Rightarrow> nat \<Rightarrow> nat \<Rightarrow> pool \<Rightarrow> pool" where
  "join_worker_at pc c i s =
     (case worker_join (workers s ! i) of (w, done) \<Rightarrow>
        (if done then set_client c (pc (i + 1)) else id) (s\<lparr>workers := (workers s)[i := w]\<rparr>))"

definition pool_join_at :: "nat \<Rightarrow> nat \<Rightarrow> pool \<Rightarrow> pool" where
  "pool_join_at = join_worker_at Joining"

definition worker_destroy_at :: "nat \<Rightarrow> nat \<Rightarrow> pool \<Rightarrow> pool" where
  "worker_destroy_at = join_worker_at Destroying"

datatype pool_label = Call_get nat | Call_run nat | Call_join nat | Call_destroy nat | Go nat | Thread_ends "nat \<times> nat"

fun pool_exec :: "pool_label \<Rightarrow> pool \<Rightarrow> pool option" where
  "pool_exec (Call_get c) s =
     (if client s c = Idle \<and> pool_mtx s = None
      then Some (set_client c (Getting 0) (s\<lparr>pool_mtx := Some c\<rparr>)) else None)"
| "pool_exec (Call_join c) s =
     (if client s c = Idle \<and> pool_mtx s = None
      then Some (if joining s then s
                 else set_client c (Joining 0) (s\<lparr>pool_mtx := Some c, joining := True\<rparr>)) else None)"
| "pool_exec (Call_destroy c) s = (if client s c = Idle then Some (set_client c (Destroying 0) s) else None)"
| "pool_exec (Call_run c) s =
     (case client s c of Got i \<Rightarrow> Some (set_client c Idle (worker_run i s)) | _ \<Rightarrow> None)"
| "pool_exec (Thread_ends t) s = (if t \<in> set (active s) then Some (worker_wrapper t s) else None)"
| "pool_exec (Go c) s =
     (case client s c of
        Getting i \<Rightarrow>
          Some (if i < length (workers s) then get_at c i s else set_client c (Getting 0) s)
      | Joining i \<Rightarrow>
          Some (if i < length (workers s) then pool_join_at c i s
                else set_client c Idle (s\<lparr>pool_mtx := None\<rparr>))
      | Destroying i \<Rightarrow>
          Some (if i < length (workers s) then worker_destroy_at c i s else set_client c Destroyed s)
      | _ \<Rightarrow> None)"

text \<open>The pool of the proxy: at the end of a pass the mutex is released and taken again.\<close>

definition proxy_pool_exec :: "pool_label \<Rightarrow> pool \<Rightarrow> pool option" where
  "proxy_pool_exec l s =
     (case l of
        Go c \<Rightarrow>
          (case client s c of
             Getting i \<Rightarrow>
               Some (if i < length (workers s) then get_at c i s
                     else set_client c Waiting (s\<lparr>pool_mtx := None\<rparr>))
           | Waiting \<Rightarrow>
               (if pool_mtx s = None then Some (set_client c (Getting 0) (s\<lparr>pool_mtx := Some c\<rparr>)) else None)
           | _ \<Rightarrow> pool_exec l s)
      | _ \<Rightarrow> pool_exec l s)"

end
