(* ===== verification/Pool_Properties.thy ===== *)
theory Pool_Properties
  imports Thread_Pool Prelude
begin

section \<open>What the thread pool promises\<close>

text \<open>
  The mutex of the pool lets one client at a time into \<^verbatim>\<open>get\<close> and \<^verbatim>\<open>join\<close>. With one client every task
  runs once, never more tasks than workers, and \<^verbatim>\<open>join\<close> waits for all of them. With two clients a worker
  can be handed out twice.
\<close>

definition pool_free :: "pool \<Rightarrow> bool" where
  "pool_free s \<longleftrightarrow> pool_mtx s = None"

definition pool_inside :: "pool \<Rightarrow> nat \<Rightarrow> bool" where
  "pool_inside s c \<longleftrightarrow> (\<exists>i. client s c = Getting i \<or> client s c = Joining i)"

lemmas pool_defs = get_at_def pool_join_at_def worker_destroy_at_def join_worker_at_def set_client_def worker_run_def worker_wrapper_def worker_swap_def
  worker_join_def Let_def

lemma pool_inside_step:
  assumes "pool_exec l s = Some s' \<or> proxy_pool_exec l s = Some s'"
  obtains (same) "pool_mtx s' = pool_mtx s" "\<And>c. pool_inside s' c = pool_inside s c"
  | (enter) c where "pool_mtx s = None" "pool_mtx s' = Some c" "\<not> pool_inside s c"
      "\<And>d. pool_inside s' d \<longleftrightarrow> d = c \<or> pool_inside s d"
  | (leave) c where "pool_mtx s' = None" "pool_inside s c" "\<And>d. pool_inside s' d \<longleftrightarrow> d \<noteq> c \<and> pool_inside s d"
proof -
  have "(pool_mtx s' = pool_mtx s \<and> (\<forall>c. pool_inside s' c = pool_inside s c)) \<or>
    (\<exists>c. pool_mtx s = None \<and> pool_mtx s' = Some c \<and> \<not> pool_inside s c \<and> (\<forall>d. pool_inside s' d \<longleftrightarrow> d = c \<or> pool_inside s d)) \<or>
    (\<exists>c. pool_mtx s' = None \<and> pool_inside s c \<and> (\<forall>d. pool_inside s' d \<longleftrightarrow> d \<noteq> c \<and> pool_inside s d))"
  proof (cases l)
    case (Call_get c)
    with assms show ?thesis
      by (auto simp: proxy_pool_exec_def pool_defs pool_inside_def split: if_splits)
  next
    case (Call_join c)
    with assms show ?thesis
      by (auto simp: proxy_pool_exec_def pool_defs pool_inside_def split: if_splits)
  next
    case (Call_destroy c)
    with assms show ?thesis
      by (auto simp: proxy_pool_exec_def pool_defs pool_inside_def split: if_splits)
  next
    case (Call_run c)
    with assms show ?thesis
      by (auto simp: proxy_pool_exec_def pool_defs pool_inside_def split: client_pc.splits if_splits)
  next
    case (Thread_ends t)
    with assms show ?thesis
      by (auto simp: proxy_pool_exec_def pool_defs pool_inside_def split: if_splits prod.splits)
  next
    case (Go c)
    show ?thesis
    proof (cases "client s c")
      case (Getting i)
      with Go assms show ?thesis
        by (auto simp: proxy_pool_exec_def pool_defs pool_inside_def split: if_splits)
    next
      case (Joining i)
      with Go assms show ?thesis
        by (auto simp: proxy_pool_exec_def pool_defs pool_inside_def split: if_splits)
    next
      case (Destroying i)
      with Go assms show ?thesis
        by (auto simp: proxy_pool_exec_def pool_defs pool_inside_def split: if_splits)
    qed (use Go assms in \<open>auto simp: proxy_pool_exec_def pool_defs pool_inside_def split: if_splits\<close>)
  qed
  with same enter leave show thesis by metis
qed

lemma pool_laws:
  assumes "exec_step pool_exec s s' \<or> exec_step proxy_pool_exec s s'"
  shows "pool_inside s' t \<Longrightarrow> \<not> pool_inside s t \<Longrightarrow> pool_free s \<and> \<not> pool_free s'"
    and "pool_inside s' t \<Longrightarrow> \<not> pool_inside s t \<Longrightarrow> pool_inside s' u \<Longrightarrow> \<not> pool_inside s u \<Longrightarrow> t = u"
    and "\<not> pool_free s \<Longrightarrow> pool_free s' \<Longrightarrow> \<exists>t. pool_inside s t \<and> \<not> pool_inside s' t"
proof -
  from assms obtain l where "pool_exec l s = Some s' \<or> proxy_pool_exec l s = Some s'"
    by (auto simp: exec_step_def)
  note step = pool_inside_step [OF this]
  show "pool_inside s' t \<Longrightarrow> \<not> pool_inside s t \<Longrightarrow> pool_free s \<and> \<not> pool_free s'"
    by (rule step) (auto simp: pool_free_def)
  show "pool_inside s' t \<Longrightarrow> \<not> pool_inside s t \<Longrightarrow> pool_inside s' u \<Longrightarrow> \<not> pool_inside s u \<Longrightarrow> t = u"
    by (rule step) auto
  show "\<not> pool_free s \<Longrightarrow> pool_free s' \<Longrightarrow> \<exists>t. pool_inside s t \<and> \<not> pool_inside s' t"
    by (rule step) (auto simp: pool_free_def)
qed

interpretation pool_mutex: exclusion "exec_step pool_exec" "pool_new n" "\<lambda>_. True" pool_free pool_inside for n
proof (unfold_locales, goal_cases)
  case (4 s s' t)
  then show ?case using pool_laws(1) [OF disjI1] by simp
next
  case (5 s s' t u)
  then show ?case using pool_laws(2) [OF disjI1] by simp
next
  case (6 s s')
  then show ?case using pool_laws(3) [OF disjI1] by simp
qed (simp_all add: pool_new_def pool_inside_def)

interpretation proxy_pool_mutex: exclusion "exec_step proxy_pool_exec" "pool_new n" "\<lambda>_. True" pool_free pool_inside for n
proof (unfold_locales, goal_cases)
  case (4 s s' t)
  then show ?case using pool_laws(1) [OF disjI2] by simp
next
  case (5 s s' t u)
  then show ?case using pool_laws(2) [OF disjI2] by simp
next
  case (6 s s')
  then show ?case using pool_laws(3) [OF disjI2] by simp
qed (simp_all add: pool_new_def pool_inside_def)

subsection \<open>One client\<close>

fun label_client :: "pool_label \<Rightarrow> nat option" where
  "label_client (Call_get c) = Some c"
| "label_client (Call_run c) = Some c"
| "label_client (Call_join c) = Some c"
| "label_client (Call_destroy c) = Some c"
| "label_client (Go c) = Some c"
| "label_client (Thread_ends t) = None"

definition one_client :: "(pool_label \<Rightarrow> pool \<Rightarrow> pool option) \<Rightarrow> pool_label \<Rightarrow> pool \<Rightarrow> pool option" where
  "one_client exec l s = (if label_client l \<in> {None, Some 0} then exec l s else None)"

definition worker_ok :: "(nat \<times> nat) list \<Rightarrow> nat \<Rightarrow> worker \<Rightarrow> bool" where
  "worker_ok act i w \<longleftrightarrow> (finished w \<longrightarrow> started w) \<and> (started w \<longleftrightarrow> thread w \<noteq> None) \<and>
     (\<forall>t. (t, i) \<in> set act \<longleftrightarrow> started w \<and> \<not> finished w \<and> thread w = Some t)"

definition workers_ok :: "worker list \<Rightarrow> (nat \<times> nat) list \<Rightarrow> bool" where
  "workers_ok ws act \<longleftrightarrow> (\<forall>i < length ws. worker_ok act i (ws ! i)) \<and> (\<forall>(t, i) \<in> set act. i < length ws)"

definition joined_below :: "nat \<Rightarrow> pool \<Rightarrow> bool" where
  "joined_below j s \<longleftrightarrow> (\<forall>i < length (workers s). i < j \<longrightarrow> \<not> started (workers s ! i))"

definition client_ok :: "pool \<Rightarrow> bool" where
  "client_ok s \<longleftrightarrow> (case client s 0 of
     Got i \<Rightarrow> i < length (workers s) \<and> thread (workers s ! i) = None
   | Joining j \<Rightarrow> joined_below j s
   | Destroying j \<Rightarrow> joined_below j s
   | Destroyed \<Rightarrow> joined_below (length (workers s)) s
   | _ \<Rightarrow> True)"

definition pool_ok :: "nat \<Rightarrow> pool \<Rightarrow> bool" where
  "pool_ok n s \<longleftrightarrow> \<not> terminated s \<and> length (workers s) = n \<and> workers_ok (workers s) (active s) \<and>
     mset (map fst (active s)) + mset (completed s) = mset [0..<next_task s] \<and> client_ok s"

lemma workers_ok_upd:
  "workers_ok ws act \<Longrightarrow> i < length ws \<Longrightarrow> worker_ok act i w \<Longrightarrow> workers_ok (ws[i := w]) act"
  by (auto simp: workers_ok_def nth_list_update)

lemma worker_free_idle: "worker_ok act i w \<Longrightarrow> worker_free w \<Longrightarrow> (t, i) \<notin> set act"
  by (auto simp: worker_ok_def worker_free_def)

lemma worker_ok_new: "(\<And>t. (t, i) \<notin> set act) \<Longrightarrow> worker_ok act i worker_new"
  by (simp add: worker_ok_def worker_new_def)

lemma pool_ok_active_distinct: "pool_ok n s \<Longrightarrow> distinct (map fst (active s) @ completed s)"
proof -
  assume "pool_ok n s"
  then have "mset (map fst (active s) @ completed s) = mset [0..<next_task s]"
    by (simp add: pool_ok_def)
  then show ?thesis using mset_eq_imp_distinct_iff distinct_upt by blast
qed

lemma get_at_ok [keeps]:
  assumes ok: "pool_ok n s" and c: "client s 0 = Getting i" and i: "i < length (workers s)"
  shows "pool_ok n (get_at 0 i s)"
proof (cases "worker_free (workers s ! i)")
  case True
  have w: "worker_ok (active s) i (workers s ! i)" using ok i by (simp add: pool_ok_def workers_ok_def)
  have "workers_ok ((workers s)[i := worker_new]) (active s)"
    using ok i by (intro workers_ok_upd worker_ok_new worker_free_idle [OF w True]) (auto simp: pool_ok_def)
  with ok i True show ?thesis
    by (simp add: pool_ok_def get_at_def worker_swap_def set_client_def client_ok_def worker_new_def)
next
  case False
  with ok show ?thesis by (simp add: pool_ok_def get_at_def set_client_def client_ok_def)
qed

lemma join_worker_ok:
  assumes ok: "pool_ok n s" and c: "client s 0 = pc i" "pc \<in> {Joining, Destroying}" and i: "i < length (workers s)"
  shows "pool_ok n (join_worker_at pc 0 i s)"
proof -
  have w: "worker_ok (active s) i (workers s ! i)" using ok i by (simp add: pool_ok_def workers_ok_def)
  obtain w' d where j: "worker_join (workers s ! i) = (w', d)" by fastforce
  have "worker_ok (active s) i w'"
    using w j by (auto simp: worker_join_def worker_ok_def split: if_splits)
  with ok i have "workers_ok ((workers s)[i := w']) (active s)"
    by (intro workers_ok_upd) (auto simp: pool_ok_def)
  moreover have "\<not> started w'" if d using j that by (auto simp: worker_join_def split: if_splits)
  moreover have "w' = workers s ! i" if "\<not> d" using j that by (auto simp: worker_join_def split: if_splits)
  ultimately show ?thesis using ok c i j
    by (auto simp: pool_ok_def join_worker_at_def set_client_def client_ok_def joined_below_def nth_list_update less_Suc_eq)
qed

lemma join_at_ok [keeps]:
  "pool_ok n s \<Longrightarrow> client s 0 = Joining i \<Longrightarrow> i < length (workers s) \<Longrightarrow> pool_ok n (pool_join_at 0 i s)"
  unfolding pool_join_at_def by (rule join_worker_ok) auto

lemma destroy_at_ok [keeps]:
  "pool_ok n s \<Longrightarrow> client s 0 = Destroying i \<Longrightarrow> i < length (workers s) \<Longrightarrow> pool_ok n (worker_destroy_at 0 i s)"
  unfolding worker_destroy_at_def by (rule join_worker_ok) auto

lemma destroyed_ok [keeps]:
  "pool_ok n s \<Longrightarrow> client s 0 = Destroying i \<Longrightarrow> \<not> i < length (workers s) \<Longrightarrow> pool_ok n (set_client 0 Destroyed s)"
  by (simp add: pool_ok_def set_client_def client_ok_def joined_below_def)

lemma run_ok [keeps]:
  assumes ok: "pool_ok n s" and c: "client s 0 = Got i"
  shows "pool_ok n (set_client 0 Idle (worker_run i s))"
proof -
  let ?w = "workers s ! i" and ?act = "active s @ [(next_task s, i)]"
  have i: "i < length (workers s)" "thread ?w = None" using ok c by (auto simp: pool_ok_def client_ok_def)
  have oks: "\<And>j. j < length (workers s) \<Longrightarrow> worker_ok (active s) j (workers s ! j)"
    "\<And>t j. (t, j) \<in> set (active s) \<Longrightarrow> j < length (workers s)"
    using ok by (auto simp: pool_ok_def workers_ok_def)
  have "worker_ok ?act i (?w\<lparr>started := True, thread := Some (next_task s)\<rparr>)"
    using oks(1) [OF i(1)] i(2) by (auto simp: worker_ok_def)
  moreover have "worker_ok ?act j (workers s ! j)" if "j < length (workers s)" "j \<noteq> i" for j
    using oks(1) [OF that(1)] that(2) by (auto simp: worker_ok_def)
  ultimately have "workers_ok ((workers s)[i := ?w\<lparr>started := True, thread := Some (next_task s)\<rparr>]) ?act"
    using oks(2) i(1) by (auto simp: workers_ok_def nth_list_update)
  with ok i show ?thesis
    by (simp add: pool_ok_def worker_run_def set_client_def client_ok_def)
qed

lemma wrapper_fields:
  "workers (worker_wrapper (t, i) s) = (workers s)[i := (workers s ! i)\<lparr>finished := True\<rparr>]"
  "active (worker_wrapper (t, i) s) = remove1 (t, i) (active s)"
  "completed (worker_wrapper (t, i) s) = completed s @ [t]"
  "next_task (worker_wrapper (t, i) s) = next_task s"
  "terminated (worker_wrapper (t, i) s) = terminated s"
  by (simp_all add: worker_wrapper_def)

lemma wrapper_ok [keeps]:
  assumes ok: "pool_ok n s" and t: "(t, i) \<in> set (active s)"
  shows "pool_ok n (worker_wrapper (t, i) s)"
proof -
  let ?w = "workers s ! i" and ?act = "remove1 (t, i) (active s)"
  have oks: "\<And>j. j < length (workers s) \<Longrightarrow> worker_ok (active s) j (workers s ! j)"
    "\<And>t j. (t, j) \<in> set (active s) \<Longrightarrow> j < length (workers s)"
    using ok by (auto simp: pool_ok_def workers_ok_def)
  have i: "i < length (workers s)" using oks(2) t .
  have "distinct (active s)" using pool_ok_active_distinct [OF ok] by (simp add: distinct_map)
  then have mem: "x \<in> set ?act \<longleftrightarrow> x \<in> set (active s) \<and> x \<noteq> (t, i)" for x by simp
  have "worker_ok ?act i (?w\<lparr>finished := True\<rparr>)"
    using oks(1) [OF i] t unfolding worker_ok_def mem by auto
  moreover have "worker_ok ?act j (workers s ! j)" if "j < length (workers s)" "j \<noteq> i" for j
    using oks(1) [OF that(1)] that(2) unfolding worker_ok_def mem by auto
  ultimately have "workers_ok ((workers s)[i := ?w\<lparr>finished := True\<rparr>]) ?act"
    using oks(2) mem i by (auto simp: workers_ok_def nth_list_update)
  moreover have "mset (map fst ?act) + mset (completed s @ [t]) = mset [0..<next_task s]"
  proof -
    have "mset (map fst (active s)) = add_mset t (mset (map fst ?act))"
    proof -
      have "mset (active s) = add_mset (t, i) (mset ?act)" using t by simp
      then show ?thesis by (simp only: mset_map image_mset_add_mset fst_conv)
    qed
    then have "mset (map fst ?act) + mset (completed s @ [t]) = mset (map fst (active s)) + mset (completed s)"
      by simp
    with ok show ?thesis by (simp add: pool_ok_def)
  qed
  moreover have "client_ok (worker_wrapper (t, i) s)"
    using ok i by (auto simp: pool_ok_def client_ok_def joined_below_def worker_wrapper_def nth_list_update split: client_pc.splits)
  ultimately show ?thesis using ok
    unfolding pool_ok_def wrapper_fields by simp
qed

lemma pool_ok_client: "pool_ok n s \<Longrightarrow> (case p of Got _ \<Rightarrow> False | Joining j \<Rightarrow> j = 0 | Destroying j \<Rightarrow> j = 0 | Destroyed \<Rightarrow> False | _ \<Rightarrow> True) \<Longrightarrow>
   pool_ok n (set_client 0 p (s\<lparr>pool_mtx := m, joining := jn\<rparr>))"
  by (auto simp: pool_ok_def set_client_def client_ok_def joined_below_def split: client_pc.splits)

lemma pool_ok_mutex: "pool_ok n s \<Longrightarrow> (case p of Idle \<Rightarrow> True | Getting _ \<Rightarrow> True | Waiting \<Rightarrow> True | _ \<Rightarrow> False) \<Longrightarrow>
   pool_ok n (set_client 0 p (s\<lparr>pool_mtx := m\<rparr>))"
  by (auto simp: pool_ok_def set_client_def client_ok_def joined_below_def split: client_pc.splits)

lemma pool_ok_idle: "pool_ok n s \<Longrightarrow> (case p of Idle \<Rightarrow> True | Getting _ \<Rightarrow> True | Waiting \<Rightarrow> True | Destroying j \<Rightarrow> j = 0 | _ \<Rightarrow> False) \<Longrightarrow>
   pool_ok n (set_client 0 p s)"
  by (auto simp: pool_ok_def set_client_def client_ok_def joined_below_def split: client_pc.splits)

lemma pool_ok_exec [keeps]:
  assumes "pool_ok n s" "label_client l \<in> {None, Some 0}" "pool_exec l s = Some s'"
  shows "pool_ok n s'"
proof (cases l)
  case (Go c)
  with assms show ?thesis
    by (auto simp: pool_ok_idle pool_ok_mutex get_at_ok join_at_ok destroy_at_ok destroyed_ok split: client_pc.splits if_splits)
qed (use assms in \<open>auto simp: pool_ok_client pool_ok_mutex pool_ok_idle run_ok wrapper_ok split: client_pc.splits if_splits\<close>)

lemma pool_ok_proxy_exec [keeps]:
  assumes "pool_ok n s" "label_client l \<in> {None, Some 0}" "proxy_pool_exec l s = Some s'"
  shows "pool_ok n s'"
proof (cases l)
  case (Go c)
  show ?thesis
  proof (cases "client s c")
    case (Joining i)
    with Go assms pool_ok_exec [OF assms(1,2)] show ?thesis by (simp add: proxy_pool_exec_def)
  next
    case (Destroying i)
    with Go assms pool_ok_exec [OF assms(1,2)] show ?thesis by (simp add: proxy_pool_exec_def)
  qed (use Go assms in \<open>auto simp: proxy_pool_exec_def pool_ok_mutex get_at_ok split: if_splits\<close>)
qed (use assms pool_ok_exec [OF assms(1,2)] in \<open>auto simp: proxy_pool_exec_def\<close>)

lemma pool_ok_new: "pool_ok n (pool_new n)"
  by (simp add: pool_ok_def pool_new_def workers_ok_def worker_ok_def worker_new_def client_ok_def)

lemma pool_ok_reachable:
  assumes "reachable (exec_step (one_client exec)) (pool_new n) s" "exec \<in> {pool_exec, proxy_pool_exec}"
  shows "pool_ok n s"
  using assms(1)
proof (induction rule: reachable.induct)
  case (next_step s s')
  then obtain l where "label_client l \<in> {None, Some 0}" "exec l s = Some s'"
    by (auto simp: exec_step_def one_client_def split: if_splits)
  with next_step.IH assms(2) show ?case by (auto intro: pool_ok_exec pool_ok_proxy_exec)
qed (rule pool_ok_new)

lemma active_bound: "pool_ok n s \<Longrightarrow> length (active s) \<le> n"
proof -
  assume ok: "pool_ok n s"
  have "inj_on snd (set (active s))"
  proof (rule inj_onI)
    fix x y assume xy: "x \<in> set (active s)" "y \<in> set (active s)" "snd x = snd y"
    obtain t i u where x: "x = (t, i)" and y: "y = (u, i)" using xy(3) by (cases x; cases y) auto
    have "worker_ok (active s) i (workers s ! i)"
      using ok xy(1) x by (auto simp: pool_ok_def workers_ok_def)
    with xy x y show "x = y" by (auto simp: worker_ok_def)
  qed
  moreover have "distinct (active s)" using pool_ok_active_distinct [OF ok] by (simp add: distinct_map)
  ultimately have "length (active s) = card (snd ` set (active s))"
    by (simp add: card_image distinct_card)
  also have "\<dots> \<le> card {..<n}"
    using ok by (intro card_mono) (auto simp: pool_ok_def workers_ok_def)
  finally show ?thesis by simp
qed

lemma joined_idle:
  assumes ok: "pool_ok n s" and joined: "client s 0 \<in> {Joining n, Destroyed}"
  shows "active s = []"
proof (rule ccontr)
  assume "active s \<noteq> []"
  then obtain t i where "(t, i) \<in> set (active s)" by (cases "active s") auto
  then have "i < n" "worker_ok (active s) i (workers s ! i)" "(t, i) \<in> set (active s)"
    using ok by (auto simp: pool_ok_def workers_ok_def)
  moreover have "joined_below n s" using ok joined by (auto simp: pool_ok_def client_ok_def)
  ultimately show False using ok by (auto simp: pool_ok_def joined_below_def worker_ok_def)
qed

text \<open>
  C16: A pool of \<open>n\<close> workers with one client, in either version: no thread is assigned over one that has
  not been joined, every task that was run either has ended or has its thread, exactly one of them and
  once, at most \<open>n\<close> threads run at a time, and when \<^verbatim>\<open>join\<close> has passed all workers, or the pool is destroyed, no
  thread is left.
\<close>

theorem pool_runs_each_task:
  assumes "reachable (exec_step (one_client exec)) (pool_new n) s" "exec \<in> {pool_exec, proxy_pool_exec}"
  shows "\<not> terminated s \<and> mset (map fst (active s)) + mset (completed s) = mset [0..<next_task s] \<and>
    length (active s) \<le> n \<and>
    (client s 0 \<in> {Joining n, Destroyed} \<longrightarrow> active s = [] \<and> mset (completed s) = mset [0..<next_task s])"
proof -
  have ok: "pool_ok n s" using pool_ok_reachable assms .
  then have "active s = []" if "client s 0 \<in> {Joining n, Destroyed}" using that by (rule joined_idle)
  with ok active_bound [OF ok] show ?thesis by (auto simp: pool_ok_def)
qed

lemma pool_two_tasks:
  "run_schedule (one_client pool_exec) [Call_get 0, Go 0, Call_run 0, Call_get 0, Go 0, Go 0, Call_run 0, Thread_ends (1, 1)]
     (pool_new 2) =
   Some \<lparr>workers = [\<lparr>started = True, finished = False, thread = Some 0\<rparr>, \<lparr>started = True, finished = True, thread = Some 1\<rparr>],
     joining = False, pool_mtx = None, client = (\<lambda>_. Idle)(0 := Idle), active = [(0, 0)], completed = [1],
     next_task = 2, terminated = False\<rparr>"
  by (simp add: one_client_def pool_new_def pool_defs worker_new_def worker_free_def fun_upd_idem numeral_2_eq_2)

theorem pool_runs_each_task_witness:
  "length [(0, 0)] \<le> (2 :: nat) \<and> mset [0] + mset [1] = mset [0..<2 :: nat]"
  using pool_runs_each_task [OF run_schedule_reachable [OF pool_two_tasks]] by simp

text \<open>
  Two clients can be handed the same worker, in either version: between the \<^verbatim>\<open>get\<close> of the first and
  its \<^verbatim>\<open>run\<close> the worker still counts as free. The second \<^verbatim>\<open>run\<close> assigns to a thread that was not
  joined, which terminates the program.
\<close>

theorem pool_shared_worker:
  "\<forall>exec \<in> {pool_exec, proxy_pool_exec}. \<exists>s. reachable (exec_step exec) (pool_new 3) s \<and> terminated s"
proof
  fix exec :: "pool_label \<Rightarrow> pool \<Rightarrow> pool option"
  assume exec: "exec \<in> {pool_exec, proxy_pool_exec}"
  obtain s where s: "run_schedule exec [Call_get 0, Go 0, Call_get 1, Go 1, Call_run 0, Call_run 1] (pool_new 3) = Some s"
    "terminated s"
    using exec by (auto simp: proxy_pool_exec_def pool_new_def pool_defs worker_new_def worker_free_def numeral_3_eq_3)
  from run_schedule_reachable [OF s(1)] s(2)
  show "\<exists>s. reachable (exec_step exec) (pool_new 3) s \<and> terminated s" by blast
qed

text \<open>
  The demonstration in \<^verbatim>\<open>thread_pool/main.cpp\<close>: fifty tasks on a pool of three workers, five kinds of callables
  with ten numbers each. Every task prints one line.
\<close>

definition task_kinds :: "string list" where
  "task_kinds = [''foo'', ''bind foo'', ''Test::test'', ''bind Test::foo'', ''bind Test::test'']"

definition task_line :: "nat \<Rightarrow> string" where
  "task_line t = ''<'' @ string_of_nat (t mod 10) @ '': '' @ task_kinds ! (t div 10) @ ''>''"

definition pool_main_lines :: "string list" where
  "pool_main_lines = concat (map (\<lambda>k. map (\<lambda>i. ''<'' @ string_of_nat i @ '': '' @ k @ ''>'') [0..<10]) task_kinds)"

text \<open>When the client has handed out fifty tasks and joined, each of the fifty lines was printed once.\<close>

theorem pool_main_prints:
  assumes "reachable (exec_step (one_client pool_exec)) (pool_new 3) s" "next_task s = 50" "client s 0 = Joining 3"
  shows "mset (map task_line (completed s)) = mset pool_main_lines"
proof -
  have ok: "pool_ok 3 s" using pool_ok_reachable [OF assms(1)] by simp
  then have "active s = []" using assms(3) by (intro joined_idle) simp_all
  with ok assms(2) have "mset (completed s) = mset [0..<50]" by (auto simp: pool_ok_def)
  then have "mset (map task_line (completed s)) = mset (map task_line [0..<50])" by simp
  also have "map task_line [0..<50] = pool_main_lines" by code_simp
  finally show ?thesis .
qed

end
