(* ===== verification/Pool_Progress.thy ===== *)
theory Pool_Progress
  imports Pool_Properties
begin

section \<open>The thread pool makes progress\<close>

text \<open>
  With one client nothing waits for ever: when the running tasks end, every call of the client returns, after a
  number of turns that the number of workers bounds. The second part has what \<^verbatim>\<open>join\<close> does not do.
\<close>

text \<open>Whoever has the mutex of the pool is inside \<^verbatim>\<open>get\<close> or \<^verbatim>\<open>join\<close>.\<close>

definition pool_owner_ok :: "pool \<Rightarrow> bool" where
  "pool_owner_ok s \<longleftrightarrow> (\<forall>c. pool_mtx s = Some c \<longrightarrow> pool_inside s c)"

lemma pool_owner_step [keeps]:
  assumes "pool_owner_ok s" "pool_exec l s = Some s' \<or> proxy_pool_exec l s = Some s'"
  shows "pool_owner_ok s'"
  by (rule pool_inside_step [OF assms(2)]) (use assms(1) in \<open>auto simp: pool_owner_ok_def\<close>)

lemma pool_others_idle:
  assumes "reachable (exec_step (one_client exec)) (pool_new n) s" "exec \<in> {pool_exec, proxy_pool_exec}"
  shows "pool_owner_ok s \<and> (\<forall>c. c \<noteq> 0 \<longrightarrow> client s c = Idle) \<and> (exec = pool_exec \<longrightarrow> client s 0 \<noteq> Waiting)"
  using assms(1)
proof (induction rule: reachable.induct)
  case start
  show ?case by (simp add: pool_owner_ok_def pool_new_def)
next
  case (next_step s s')
  then obtain l where l: "label_client l \<in> {None, Some 0}" "exec l s = Some s'"
    by (auto simp: exec_step_def one_client_def split: if_splits)
  have "client s' c = client s c" if "c \<noteq> 0" for c
    using l assms(2) that
    by (cases l) (auto simp: proxy_pool_exec_def pool_defs split: if_splits client_pc.splits)
  moreover have "client s' 0 \<noteq> Waiting" if "exec = pool_exec" "client s 0 \<noteq> Waiting"
    using l that by (cases l) (auto simp: pool_defs split: if_splits client_pc.splits)
  ultimately show ?case using l next_step.IH assms(2) by (auto intro: pool_owner_step)
qed

lemma waiting_mutex_free:
  assumes "pool_owner_ok s" "\<forall>c. c \<noteq> 0 \<longrightarrow> client s c = Idle" "client s 0 = Waiting"
  shows "pool_mtx s = None"
proof (rule ccontr)
  assume "pool_mtx s \<noteq> None"
  then obtain c where "pool_inside s c" using assms(1) by (auto simp: pool_owner_ok_def)
  with assms(2,3) show False by (cases "c = 0") (simp_all add: pool_inside_def)
qed

subsection \<open>The tasks end\<close>

lemma run_schedule_append:
  "run_schedule exec (ls @ ms) s = Option.bind (run_schedule exec ls s) (run_schedule exec ms)"
  by (induction ls arbitrary: s) (auto split: option.splits)

lemma tasks_end:
  assumes "exec \<in> {pool_exec, proxy_pool_exec}"
  shows "pool_ok n s \<Longrightarrow> \<exists>s'. run_schedule (one_client exec) (map Thread_ends (active s)) s = Some s' \<and>
    pool_ok n s' \<and> active s' = [] \<and> client s' = client s \<and> pool_mtx s' = pool_mtx s"
proof (induction "active s" arbitrary: s)
  case Nil
  then show ?case by auto
next
  case (Cons t ts)
  obtain k i where t: "t = (k, i)" by (cases t)
  have mem: "(k, i) \<in> set (active s)" using Cons.hyps(2) t by (metis list.set_intros(1))
  let ?s = "worker_wrapper (k, i) s"
  have "active ?s = ts" unfolding wrapper_fields using Cons.hyps(2) t by (metis remove1.simps(2))
  moreover have "client ?s = client s" "pool_mtx ?s = pool_mtx s" by (simp_all add: worker_wrapper_def)
  moreover have "one_client exec (Thread_ends t) s = Some ?s"
    using assms mem t by (auto simp: one_client_def proxy_pool_exec_def)
  ultimately show ?case using Cons.hyps(1) [of ?s] wrapper_ok [OF Cons.prems mem]
    by (auto simp flip: Cons.hyps(2))
qed

text \<open>Then every worker is free, and the turns of the client go through.\<close>

definition quiet :: "nat \<Rightarrow> pool \<Rightarrow> bool" where
  "quiet n s \<longleftrightarrow> length (workers s) = n \<and> active s = [] \<and> (\<forall>i < n. worker_free (workers s ! i))"

lemma pool_ok_quiet: "pool_ok n s \<Longrightarrow> active s = [] \<Longrightarrow> quiet n s"
  by (auto simp: pool_ok_def workers_ok_def worker_ok_def quiet_def worker_free_def)

lemma quiet_simps [simp]:
  "quiet n (set_client c p s) = quiet n s" "quiet n (s\<lparr>pool_mtx := m\<rparr>) = quiet n s"
  by (simp_all add: quiet_def set_client_def)

lemma join_worker_quiet:
  assumes "quiet n s" "i < n"
  shows "\<exists>s'. join_worker_at pc 0 i s = s' \<and> quiet n s' \<and> client s' 0 = pc (i + 1)"
proof -
  have "worker_free (workers s ! i)" "length (workers s) = n" using assms by (auto simp: quiet_def)
  then obtain w where w: "worker_join (workers s ! i) = (w, True)" "worker_free w"
    by (cases "started (workers s ! i)") (simp_all add: worker_join_def worker_free_def)
  then have "quiet n (s\<lparr>workers := (workers s)[i := w]\<rparr>)"
    using assms by (auto simp: quiet_def nth_list_update)
  then show ?thesis using w(1) by (auto simp: join_worker_at_def set_client_def quiet_def)
qed

definition call_done :: "pool \<Rightarrow> bool" where
  "call_done s \<longleftrightarrow> client s 0 = Idle \<or> (\<exists>i. client s 0 = Got i) \<or> client s 0 = Destroyed"

definition returns_within :: "(pool_label \<Rightarrow> pool \<Rightarrow> pool option) \<Rightarrow> nat \<Rightarrow> pool \<Rightarrow> bool" where
  "returns_within exec k s \<longleftrightarrow> (\<exists>m \<le> k. \<exists>s'. run_schedule (one_client exec) (replicate m (Go 0)) s = Some s' \<and>
     call_done s' \<and> active s' = [])"

lemma returns_now: "quiet n s \<Longrightarrow> call_done s \<Longrightarrow> returns_within exec k s"
  by (auto simp: returns_within_def quiet_def intro!: exI [of _ 0])

lemma returns_later:
  assumes "exec (Go 0) s = Some s'" "returns_within exec k s'"
  shows "returns_within exec (Suc k) s"
proof -
  from assms(2) obtain m s2 where "m \<le> k" "run_schedule (one_client exec) (replicate m (Go 0)) s' = Some s2"
    "call_done s2" "active s2 = []" by (auto simp: returns_within_def)
  with assms(1) show ?thesis unfolding returns_within_def
    by (intro exI [of _ "Suc m"]) (auto simp: one_client_def)
qed

lemma returns_mono: "returns_within exec j s \<Longrightarrow> j \<le> k \<Longrightarrow> returns_within exec k s"
  unfolding returns_within_def by (meson order_trans)

lemma joining_returns:
  assumes "exec \<in> {pool_exec, proxy_pool_exec}" "pc \<in> {Joining, Destroying}"
  shows "quiet n s \<Longrightarrow> client s 0 = pc i \<Longrightarrow> returns_within exec (n - i + 1) s"
proof (induction "n - i" arbitrary: s i)
  case 0
  let ?s = "if pc = Joining then set_client 0 Idle (s\<lparr>pool_mtx := None\<rparr>) else set_client 0 Destroyed s"
  have "Joining 0 \<noteq> Destroying 0" by simp
  then have "Joining \<noteq> Destroying" by metis
  then have "exec (Go 0) s = Some ?s"
    using assms 0 by (auto simp: proxy_pool_exec_def quiet_def)
  moreover have "returns_within exec 0 ?s"
    using 0(2) by (intro returns_now [of n]) (simp_all add: call_done_def set_client_def quiet_def)
  ultimately show ?case using 0(1) by (simp add: returns_later)
next
  case (Suc k)
  then have i: "i < n" "length (workers s) = n" "k = n - (i + 1)" by (auto simp: quiet_def)
  obtain s' where s': "join_worker_at pc 0 i s = s'" "quiet n s'" "client s' 0 = pc (i + 1)"
    using join_worker_quiet [OF Suc.prems(1) i(1)] by blast
  then have "exec (Go 0) s = Some s'"
    using assms Suc.prems(2) i by (auto simp: proxy_pool_exec_def pool_join_at_def worker_destroy_at_def)
  from returns_later [OF this Suc.hyps(1) [OF i(3) s'(2,3)]] show ?case using Suc.hyps(2) i by simp
qed

lemma getting_returns:
  assumes "exec \<in> {pool_exec, proxy_pool_exec}" "quiet n s" "client s 0 = Getting i" "i < n"
  shows "returns_within exec 1 s"
proof -
  let ?s = "get_at 0 i s"
  have "worker_free (workers s ! i)" "length (workers s) = n" "active s = []" using assms(2,4) by (auto simp: quiet_def)
  then have "call_done ?s" "active ?s = []" by (auto simp: call_done_def pool_defs)
  moreover have "exec (Go 0) s = Some ?s"
    using assms by (auto simp: proxy_pool_exec_def quiet_def)
  ultimately show ?thesis unfolding returns_within_def by (intro exI [of _ 1]) (simp add: one_client_def)
qed

lemma waiting_returns:
  assumes "quiet n s" "client s 0 = Waiting" "pool_mtx s = None" "0 < n"
  shows "returns_within proxy_pool_exec 2 s"
proof -
  let ?s = "set_client 0 (Getting 0) (s\<lparr>pool_mtx := Some 0\<rparr>)"
  have "returns_within proxy_pool_exec 1 ?s"
    using assms by (intro getting_returns [of _ n _ 0]) (simp_all add: set_client_def quiet_def)
  then show ?thesis using assms(2,3) returns_later [of proxy_pool_exec s ?s 1]
    by (simp add: proxy_pool_exec_def numeral_2_eq_2)
qed

lemma pass_returns:
  assumes "exec \<in> {pool_exec, proxy_pool_exec}" "quiet n s" "client s 0 = Getting i" "\<not> i < n" "0 < n"
  shows "returns_within exec 3 s"
proof (cases "exec = pool_exec")
  case True
  let ?s = "set_client 0 (Getting 0) s"
  have "returns_within exec 1 ?s"
    using assms by (intro getting_returns [of _ n _ 0]) (simp_all add: set_client_def quiet_def)
  moreover have "exec (Go 0) s = Some ?s" using assms True by (simp add: quiet_def)
  ultimately have "returns_within exec 2 s" by (metis returns_later Suc_1)
  then show ?thesis by (rule returns_mono) simp
next
  case False
  let ?s = "set_client 0 Waiting (s\<lparr>pool_mtx := None\<rparr>)"
  have exec: "exec = proxy_pool_exec" using False assms(1) by simp
  have "returns_within exec 2 ?s"
    unfolding exec using assms by (intro waiting_returns [of n]) (simp_all add: set_client_def quiet_def)
  moreover have "exec (Go 0) s = Some ?s" using assms exec by (simp add: quiet_def proxy_pool_exec_def)
  ultimately show ?thesis by (metis returns_later eval_nat_numeral(3))
qed

lemma quiet_returns:
  assumes "exec \<in> {pool_exec, proxy_pool_exec}" "quiet n s" "0 < n"
    and "client s 0 = Waiting \<Longrightarrow> exec = proxy_pool_exec \<and> pool_mtx s = None"
  shows "returns_within exec (n + 2) s"
proof (cases "client s 0")
  case (Getting i)
  show ?thesis
  proof (cases "i < n")
    case True
    from getting_returns [OF assms(1,2) Getting this] show ?thesis by (rule returns_mono) simp
  next
    case False
    from pass_returns [OF assms(1,2) Getting this assms(3)] show ?thesis by (rule returns_mono) (use assms(3) in simp)
  qed
next
  case Waiting
  with assms(4) waiting_returns [OF assms(2) Waiting _ assms(3)] have "returns_within exec 2 s" by simp
  then show ?thesis by (rule returns_mono) simp
next
  case (Joining i)
  have "returns_within exec (n - i + 1) s"
    by (rule joining_returns [OF assms(1) _ assms(2), of Joining]) (simp_all add: Joining)
  then show ?thesis by (rule returns_mono) simp
next
  case (Destroying i)
  have "returns_within exec (n - i + 1) s"
    by (rule joining_returns [OF assms(1) _ assms(2), of Destroying]) (simp_all add: Destroying)
  then show ?thesis by (rule returns_mono) simp
qed (use returns_now [OF assms(2)] in \<open>simp_all add: call_done_def\<close>)

text \<open>
  C17: With one client no call waits for ever, in either version: from every state that can be reached, once the
  threads that run have ended, at most \<open>n + 2\<close> turns of the client bring \<^verbatim>\<open>get\<close>, \<^verbatim>\<open>join\<close> or the destructor to its
  return, and no thread is left. This needs a worker: a pool without workers never hands one out.
\<close>

theorem pool_calls_return:
  assumes "reachable (exec_step (one_client exec)) (pool_new n) s" "exec \<in> {pool_exec, proxy_pool_exec}"
  shows "(0 < n \<longrightarrow> (\<exists>m s'. m \<le> n + 2 \<and>
      run_schedule (one_client exec) (map Thread_ends (active s) @ replicate m (Go 0)) s = Some s' \<and>
      call_done s' \<and> active s' = [])) \<and>
    (n = 0 \<longrightarrow> (\<forall>i. client s 0 \<noteq> Got i))"
proof (intro conjI impI allI)
  have ok: "pool_ok n s" using pool_ok_reachable assms .
  show "client s 0 \<noteq> Got i" if "n = 0" for i using ok that by (auto simp: pool_ok_def client_ok_def)
  assume n: "0 < n"
  from tasks_end [OF assms(2) ok] obtain s1 where s1:
    "run_schedule (one_client exec) (map Thread_ends (active s)) s = Some s1"
    "pool_ok n s1" "active s1 = []" "client s1 = client s" "pool_mtx s1 = pool_mtx s" by blast
  have "returns_within exec (n + 2) s1"
    using pool_others_idle [OF assms] waiting_mutex_free assms(2) s1(4,5)
    by (intro quiet_returns [OF assms(2) pool_ok_quiet [OF s1(2,3)] n]) auto
  then show "\<exists>m s'. m \<le> n + 2 \<and>
      run_schedule (one_client exec) (map Thread_ends (active s) @ replicate m (Go 0)) s = Some s' \<and>
      call_done s' \<and> active s' = []"
    using s1(1) by (auto simp: returns_within_def run_schedule_append)
qed

theorem pool_calls_return_witness:
  "\<exists>m s'. m \<le> 4 \<and> run_schedule (one_client pool_exec) (Thread_ends (0, 0) # replicate m (Go 0))
     (the (run_schedule (one_client pool_exec) [Call_get 0, Go 0, Call_run 0, Call_get 0, Go 0, Go 0, Call_run 0, Thread_ends (1, 1)]
       (pool_new 2))) = Some s' \<and> call_done s' \<and> active s' = []"
  using pool_calls_return [OF run_schedule_reachable [OF pool_two_tasks]]
  unfolding pool_two_tasks option.sel by (simp del: run_schedule.simps One_nat_def)

text \<open>
  \<^verbatim>\<open>join\<close> waits only the first time: \<^verbatim>\<open>joining_\<close> is never reset, so a later call returns at once although the tasks
  that were given to the pool in between still run.
\<close>

lemma pool_joins_once:
  assumes "exec \<in> {pool_exec, proxy_pool_exec}"
  shows "\<exists>s. reachable (exec_step (one_client exec)) (pool_new 1) s \<and> active s \<noteq> [] \<and> client s 0 = Idle \<and>
    one_client exec (Call_join 0) s = Some s"
proof -
  have "\<exists>s. run_schedule (one_client exec) [Call_join 0, Go 0, Go 0, Call_get 0, Go 0, Call_run 0] (pool_new 1) = Some s \<and>
      active s \<noteq> [] \<and> client s 0 = Idle \<and> one_client exec (Call_join 0) s = Some s"
    using assms by (auto simp: one_client_def proxy_pool_exec_def pool_new_def pool_defs worker_new_def worker_free_def)
  then show ?thesis by (meson run_schedule_reachable)
qed

end
