(* ===== verification/Tcp_Socket.thy ===== *)
theory Tcp_Socket
  imports Prelude
begin

section \<open>TCP sockets\<close>

text \<open>
  Models \<^verbatim>\<open>PostgresProxy/socket.cpp\<close>. The kernel's end of a connection is explicit: the segments that
  will arrive, one after the other, what follows them (the peer closes, or an error), how many
  bytes each call of \<^verbatim>\<open>send\<close> will take (a negative number is an error; past the list it takes all), and
  the bytes sent so far. \<^verbatim>\<open>recv\<close> delivers from one segment at a time, as much as is asked for.
\<close>

type_synonym byte = u8

record channel =
  incoming :: "byte list list"
  broken :: bool
  send_takes :: "int list"
  sent :: "byte list"

definition recv :: "nat \<Rightarrow> channel \<Rightarrow> (byte list option) \<times> channel" where
  "recv n ch =
     (case [s \<leftarrow> incoming ch. s \<noteq> []] of
        [] \<Rightarrow> (if broken ch then (None, ch) else (Some [], ch))
      | seg # segs \<Rightarrow>
          (Some (take n seg), ch\<lparr>incoming := (if n < length seg then drop n seg # segs else segs)\<rparr>))"

record tcp =
  fd :: int
  port :: u16
  ip :: string

text \<open>The answer of \<^verbatim>\<open>socket\<close> is an argument.\<close>

definition tcp_new :: "int \<Rightarrow> tcp" where
  "tcp_new opened = \<lparr>fd = opened, port = 0, ip = []\<rparr>"

definition tcp_of_fd :: "int \<Rightarrow> string \<Rightarrow> u16 \<Rightarrow> tcp" where
  "tcp_of_fd f i p = \<lparr>fd = f, port = p, ip = i\<rparr>"

definition tcp_move :: "tcp \<Rightarrow> tcp \<times> tcp" where
  "tcp_move rhs = (rhs, rhs\<lparr>fd := 0, port := 0, ip := []\<rparr>)"

definition tcp_bool :: "tcp \<Rightarrow> bool" where
  "tcp_bool s \<longleftrightarrow> fd s > 0"

definition tcp_swap :: "tcp \<Rightarrow> tcp \<Rightarrow> tcp \<times> tcp" where
  "tcp_swap s rhs = (s\<lparr>fd := fd rhs\<rparr>, rhs\<lparr>fd := fd s\<rparr>)"

definition tcp_close :: "tcp \<Rightarrow> tcp" where
  "tcp_close s = (if fd s > 0 then s\<lparr>fd := 0\<rparr> else s)"

definition tcp_destroy :: "tcp \<Rightarrow> tcp" where
  "tcp_destroy s = tcp_close s"

definition peer_port :: "tcp \<Rightarrow> u16" where
  "peer_port s = port s"

definition peer_ip :: "tcp \<Rightarrow> string" where
  "peer_ip s = ip s"

definition tcp_assign :: "tcp \<Rightarrow> tcp \<Rightarrow> tcp \<times> tcp" where
  "tcp_assign s rhs =
     (let s = (if fd s \<noteq> 0 then tcp_close s else s)
      in (\<lparr>fd = fd rhs, port = port rhs, ip = ip rhs\<rparr>, \<lparr>fd = fd s, port = port s, ip = ip s\<rparr>))"

text \<open>The answers of \<^verbatim>\<open>bind\<close>, \<^verbatim>\<open>listen\<close>, \<^verbatim>\<open>connect\<close> and \<^verbatim>\<open>select\<close> are arguments.\<close>

definition tcp_bind :: "int \<Rightarrow> tcp \<Rightarrow> bool" where
  "tcp_bind answer s = (if \<not> tcp_bool s then False else if answer < 0 then False else True)"

definition tcp_listen :: "int \<Rightarrow> tcp \<Rightarrow> bool" where
  "tcp_listen answer s = (if \<not> tcp_bool s then False else if answer \<noteq> 0 then False else True)"

definition tcp_connect :: "int \<Rightarrow> tcp \<Rightarrow> bool" where
  "tcp_connect answer s = (if \<not> tcp_bool s then False else if answer < 0 then False else True)"

definition tcp_wait :: "int \<Rightarrow> tcp \<Rightarrow> bool" where
  "tcp_wait answer s = (if \<not> tcp_bool s then False else if answer \<le> 0 then False else True)"

text \<open>
  \<^verbatim>\<open>accept\<close>: the answers are the descriptor, the address of the peer with its port, where the address
  is printed only when it is an IPv4 one, and what \<^verbatim>\<open>socket\<close> answers the constructor of the socket that
  stands for a failure.
\<close>

definition tcp_accept :: "int \<Rightarrow> string option \<times> u16 \<Rightarrow> int \<Rightarrow> tcp \<Rightarrow> tcp" where
  "tcp_accept accepted peer opened s =
     (if \<not> tcp_bool s then tcp_new opened
      else if accepted < 0 then tcp_new opened
      else tcp_of_fd accepted (case fst peer of Some buf \<Rightarrow> buf | None \<Rightarrow> []) (snd peer))"

text \<open>
  \<^verbatim>\<open>receive\<close> leaves \<^verbatim>\<open>bytes\<close> alone when it fails: the buffer and the number of bytes are those before.
\<close>

definition tcp_receive ::
    "tcp \<Rightarrow> nat \<Rightarrow> byte list \<Rightarrow> nat \<Rightarrow> channel \<Rightarrow> bool \<times> byte list \<times> nat \<times> channel" where
  "tcp_receive s n buf bytes ch =
     (if \<not> tcp_bool s then (False, buf, bytes, ch)
      else case recv n ch of
        (None, ch) \<Rightarrow> (False, buf, bytes, ch)
      | (Some r, ch) \<Rightarrow> (True, r @ drop (length r) buf, length r, ch))"

fun send_loop :: "int list \<Rightarrow> byte list \<Rightarrow> channel \<Rightarrow> bool \<times> channel" where
  "send_loop [] buf ch = (True, ch\<lparr>send_takes := [], sent := sent ch @ buf\<rparr>)"
| "send_loop (k # ks) buf ch =
     (if k < 0 then (False, ch\<lparr>send_takes := ks\<rparr>)
      else
        let s = min (nat k) (length buf);
            ch = ch\<lparr>sent := sent ch @ take s buf\<rparr>
        in if length buf - s > 0 then send_loop ks (drop s buf) ch
           else (True, ch\<lparr>send_takes := ks\<rparr>))"

definition tcp_send :: "tcp \<Rightarrow> byte list \<Rightarrow> channel \<Rightarrow> bool \<times> channel" where
  "tcp_send s buf ch = (if \<not> tcp_bool s then (False, ch) else send_loop (send_takes ch) buf ch)"

subsection \<open>Sending\<close>

lemma send_loop_sends:
  "\<forall>k \<in> set ks. 0 \<le> k \<Longrightarrow>
   \<exists>ks'. send_loop ks buf ch = (True, ch\<lparr>send_takes := ks', sent := sent ch @ buf\<rparr>) \<and> set ks' \<subseteq> set ks"
proof (induction ks buf ch rule: send_loop.induct)
  case (2 k ks buf ch)
  let ?s = "min (nat k) (length buf)"
  let ?ch = "ch\<lparr>sent := sent ch @ take ?s buf\<rparr>"
  show ?case
  proof (cases "length buf - ?s > 0")
    case True
    with 2 obtain ks' where "send_loop ks (drop ?s buf) ?ch =
        (True, ?ch\<lparr>send_takes := ks', sent := sent ?ch @ drop ?s buf\<rparr>)" "set ks' \<subseteq> set ks"
      by fastforce
    with True 2(2) show ?thesis by (intro exI [of _ ks']) (auto simp: Let_def)
  next
    case False
    with 2(2) show ?thesis by (intro exI [of _ ks]) (auto simp: Let_def)
  qed
qed simp

subsection \<open>The contract of sending\<close>

text \<open>
  What the senders of the repository promise their clients: while no call fails all is sent, and whatever happens what
  is sent is a beginning of the buffer, the whole of it when the answer is true. Clients that send several buffers one
  after the other then send a beginning of them all.
\<close>

fun put_parts :: "(byte list \<Rightarrow> channel \<Rightarrow> bool \<times> channel) \<Rightarrow> byte list list \<Rightarrow> channel \<Rightarrow> bool \<times> channel" where
  "put_parts put [] ch = (True, ch)"
| "put_parts put (p # ps) ch = (case put p ch of (ok, ch) \<Rightarrow> if ok then put_parts put ps ch else (False, ch))"

definition sends_prefix :: "byte list \<Rightarrow> channel \<Rightarrow> bool \<times> channel \<Rightarrow> bool" where
  "sends_prefix buf ch r \<longleftrightarrow>
     (\<exists>ks n. snd r = ch\<lparr>send_takes := ks, sent := sent ch @ take n buf\<rparr> \<and> n \<le> length buf \<and> (fst r \<longrightarrow> n = length buf))"

locale stream_out =
  fixes put :: "byte list \<Rightarrow> channel \<Rightarrow> bool \<times> channel"
    and opened :: bool
  assumes delivers: "opened \<Longrightarrow> \<forall>k \<in> set (send_takes ch). 0 \<le> k \<Longrightarrow>
      \<exists>ks. put buf ch = (True, ch\<lparr>send_takes := ks, sent := sent ch @ buf\<rparr>) \<and> set ks \<subseteq> set (send_takes ch)"
    and prefix: "sends_prefix buf ch (put buf ch)"
begin

lemma parts_delivered:
  assumes opened
  shows "\<forall>k \<in> set (send_takes ch). 0 \<le> k \<Longrightarrow>
    \<exists>ks. put_parts put ps ch = (True, ch\<lparr>send_takes := ks, sent := sent ch @ concat ps\<rparr>)"
proof (induction ps arbitrary: ch)
  case Nil
  then show ?case by (intro exI [of _ "send_takes ch"]) simp
next
  case (Cons p ps)
  obtain ks where ks: "put p ch = (True, ch\<lparr>send_takes := ks, sent := sent ch @ p\<rparr>)" "set ks \<subseteq> set (send_takes ch)"
    using delivers [OF assms Cons.prems] by blast
  then have "\<forall>k \<in> set ks. 0 \<le> k" using Cons.prems by blast
  with Cons.IH [of "ch\<lparr>send_takes := ks, sent := sent ch @ p\<rparr>"] ks(1) show ?case by auto
qed

lemma parts_prefix: "sends_prefix (concat ps) ch (put_parts put ps ch)"
proof (induction ps arbitrary: ch)
  case Nil
  show ?case by (auto simp: sends_prefix_def intro!: exI [of _ "send_takes ch"])
next
  case (Cons p ps)
  obtain ok ch1 where put: "put p ch = (ok, ch1)" by force
  then obtain ks n where n: "ch1 = ch\<lparr>send_takes := ks, sent := sent ch @ take n p\<rparr>" "n \<le> length p" "ok \<longrightarrow> n = length p"
    using prefix [of p ch] by (auto simp: sends_prefix_def)
  show ?case
  proof (cases ok)
    case False
    then show ?thesis using put n by (auto simp: sends_prefix_def intro!: exI [of _ ks] exI [of _ n])
  next
    case True
    obtain ks' m where m: "snd (put_parts put ps ch1) = ch1\<lparr>send_takes := ks', sent := sent ch1 @ take m (concat ps)\<rparr>"
      "m \<le> length (concat ps)" "fst (put_parts put ps ch1) \<longrightarrow> m = length (concat ps)"
      using Cons.IH [of ch1] by (auto simp: sends_prefix_def)
    have n': "n = length p" using n(3) True by simp
    show ?thesis unfolding sends_prefix_def
      by (rule exI [of _ ks'], rule exI [of _ "length p + m"]) (use put True n(1) n' m in simp)
  qed
qed

end

lemma send_loop_prefix: "sends_prefix buf ch (send_loop ks buf ch)"
proof (induction ks buf ch rule: send_loop.induct)
  case (1 buf ch)
  show ?case by (auto simp: sends_prefix_def intro!: exI [of _ "[]"] exI [of _ "length buf"])
next
  case (2 k ks buf ch)
  let ?s = "min (nat k) (length buf)"
  let ?ch = "ch\<lparr>sent := sent ch @ take ?s buf\<rparr>"
  consider "k < 0" | "\<not> k < 0" "length buf - ?s > 0" | "\<not> k < 0" "\<not> length buf - ?s > 0" by blast
  then show ?case
  proof cases
    case 1
    then show ?thesis by (auto simp: sends_prefix_def intro!: exI [of _ ks] exI [of _ 0])
  next
    case 2
    then have IH: "sends_prefix (drop ?s buf) ?ch (send_loop ks (drop ?s buf) ?ch)" using "2.IH" by simp
    then obtain ks' m where m: "snd (send_loop ks (drop ?s buf) ?ch) = ?ch\<lparr>send_takes := ks', sent := sent ?ch @ take m (drop ?s buf)\<rparr>"
      "m \<le> length (drop ?s buf)" "fst (send_loop ks (drop ?s buf) ?ch) \<longrightarrow> m = length (drop ?s buf)"
      by (auto simp: sends_prefix_def)
    have step: "send_loop (k # ks) buf ch = send_loop ks (drop ?s buf) ?ch" using 2 by (auto simp: Let_def min_def split: if_splits)
    show ?thesis unfolding sends_prefix_def step
      by (rule exI [of _ ks'], rule exI [of _ "?s + m"]) (use m in \<open>auto simp: take_add\<close>)
  next
    case 3
    then show ?thesis unfolding sends_prefix_def by (intro exI [of _ ks] exI [of _ "length buf"]) (auto simp: Let_def)
  qed
qed

lemma refused_prefix: "sends_prefix buf ch (False, ch)"
  by (auto simp: sends_prefix_def intro!: exI [of _ "send_takes ch"] exI [of _ 0])

interpretation tcp_out: stream_out "tcp_send s" "tcp_bool s" for s
proof
  fix buf ch
  show "\<exists>ks. tcp_send s buf ch = (True, ch\<lparr>send_takes := ks, sent := sent ch @ buf\<rparr>) \<and> set ks \<subseteq> set (send_takes ch)"
    if "tcp_bool s" "\<forall>k \<in> set (send_takes ch). 0 \<le> k"
    using send_loop_sends [OF that(2), of buf ch] that(1) by (simp add: tcp_send_def)
  show "sends_prefix buf ch (tcp_send s buf ch)"
    using send_loop_prefix refused_prefix by (simp add: tcp_send_def)
qed

end
