(* ===== verification/Pg_Session.thy ===== *)
theory Pg_Session
  imports Tcp_Socket
begin

section \<open>A session of the proxy\<close>

text \<open>
  Models \<^verbatim>\<open>PostgresProxy/session.cpp\<close>: one client, its connection to the server, and the handlers that
  forward a request and a response. The network holds both connections and the queries logged.
  Variables the code leaves uninitialized are arguments: the number of bytes read and the four
  bytes of the size. The answers of \<^verbatim>\<open>select\<close> are arguments too.
\<close>

definition htonl_bytes :: "u32 \<Rightarrow> byte list" where
  "htonl_bytes w = [ucast (drop_bit 24 w), ucast (drop_bit 16 w), ucast (drop_bit 8 w), ucast w]"

definition ntohl_bytes :: "byte list \<Rightarrow> u32" where
  "ntohl_bytes bs =
     push_bit 24 (ucast (bs ! 0)) OR push_bit 16 (ucast (bs ! 1)) OR push_bit 8 (ucast (bs ! 2)) OR ucast (bs ! 3)"

record session =
  client_sock :: tcp
  server_sock :: tcp
  processing :: bool
  requests_processed :: u32
  req_buf :: "byte list"

record net =
  client_ch :: channel
  server_ch :: channel
  logged :: "byte list list"

definition simple_query :: byte where
  "simple_query = 0x51"

text \<open>
  The answer of \<^verbatim>\<open>socket\<close> and of \<^verbatim>\<open>connect\<close> are arguments; what \<^verbatim>\<open>connect\<close> returns is not looked at. The
  second component is what the trace says: started, or rejected by the server.
\<close>

definition session_new :: "tcp \<Rightarrow> int \<Rightarrow> int \<Rightarrow> session \<times> bool" where
  "session_new c opened connected =
     (let _ = tcp_connect connected (tcp_new opened);
          s = \<lparr>client_sock = fst (tcp_move c), server_sock = tcp_new opened, processing = False,
               requests_processed = 0, req_buf = []\<rparr>
      in (s, tcp_bool (server_sock s)))"

definition session_move :: "session \<Rightarrow> session \<times> session" where
  "session_move rhs =
     (\<lparr>client_sock = fst (tcp_move (client_sock rhs)), server_sock = fst (tcp_move (server_sock rhs)),
       processing = processing rhs, requests_processed = requests_processed rhs, req_buf = []\<rparr>,
      rhs\<lparr>client_sock := snd (tcp_move (client_sock rhs)), server_sock := snd (tcp_move (server_sock rhs))\<rparr>)"

definition session_assign :: "session \<Rightarrow> session \<Rightarrow> session \<times> session" where
  "session_assign s rhs =
     (case tcp_swap (client_sock s) (client_sock rhs) of (c, c') \<Rightarrow>
      case tcp_swap (server_sock s) (server_sock rhs) of (v, v') \<Rightarrow>
        (s\<lparr>client_sock := c, server_sock := v, processing := processing rhs,
           requests_processed := requests_processed rhs, req_buf := req_buf rhs\<rparr>,
         rhs\<lparr>client_sock := c', server_sock := v', requests_processed := requests_processed s,
             req_buf := req_buf s\<rparr>))"

definition session_bool :: "session \<Rightarrow> bool" where
  "session_bool s \<longleftrightarrow> tcp_bool (client_sock s) \<and> tcp_bool (server_sock s)"

definition work_pending :: "int \<Rightarrow> int \<Rightarrow> session \<Rightarrow> bool" where
  "work_pending client_ready server_ready s \<longleftrightarrow>
     tcp_wait client_ready (client_sock s) \<or> tcp_wait server_ready (server_sock s)"

definition get_id :: "session \<Rightarrow> string" where
  "get_id s = peer_ip (client_sock s) @ '':'' @ string_of_nat (unat (peer_port (client_sock s)))"

text \<open>The destructor only writes to the trace; those of the two sockets close them.\<close>

definition session_destroy :: "session \<Rightarrow> session" where
  "session_destroy s = s\<lparr>client_sock := tcp_destroy (client_sock s), server_sock := tcp_destroy (server_sock s)\<rparr>"

subsection \<open>Messages\<close>

definition resize :: "nat \<Rightarrow> byte list \<Rightarrow> byte list" where
  "resize n buf = (if length buf < n then buf @ replicate (n - length buf) 0 else buf)"

text \<open>The loop that reads the payload into the buffer; it ends, as every turn reads something.\<close>

function read_payload :: "tcp \<Rightarrow> nat \<Rightarrow> nat \<Rightarrow> byte list \<Rightarrow> channel \<Rightarrow> bool \<times> byte list \<times> channel" where
  "read_payload s n bytes_read buf ch =
     (if bytes_read < n then
        case tcp_receive s (n - bytes_read) (drop bytes_read buf) 0 ch of
          (ok, part, bytes, ch) \<Rightarrow>
            if \<not> ok \<or> bytes = 0 then (False, take bytes_read buf @ part, ch)
            else read_payload s n (bytes_read + bytes) (take bytes_read buf @ part) ch
      else (True, buf, ch))"
  by pat_completeness auto
termination by (relation "measure (\<lambda>(s, n, bytes_read, buf, ch). n - bytes_read)") auto

declare read_payload.simps [simp del]

fun send_parts :: "tcp \<Rightarrow> byte list list \<Rightarrow> channel \<Rightarrow> bool \<times> channel" where
  "send_parts s [] ch = (True, ch)"
| "send_parts s (p # ps) ch =
     (case tcp_send s p ch of (ok, ch) \<Rightarrow> if ok then send_parts s ps ch else (False, ch))"

definition handle_client_request ::
    "int \<Rightarrow> nat \<Rightarrow> byte list \<Rightarrow> session \<Rightarrow> net \<Rightarrow> bool \<times> session \<times> net" where
  "handle_client_request ready bytes0 nbo0 s net =
     (if \<not> tcp_wait ready (client_sock s) then (True, s, net)
      else
        let (req_type, bytes, ch, closed) =
          (if requests_processed s > 0 then
             case tcp_receive (client_sock s) 1 [0x30] bytes0 (client_ch net) of
               (_, t, bytes, ch) \<Rightarrow> (t ! 0, bytes, ch, bytes = 0)
           else (0x30, bytes0, client_ch net, False))
        in if closed then (False, s, net\<lparr>client_ch := ch\<rparr>)
        else
          let s = s\<lparr>requests_processed := requests_processed s + 1\<rparr>;
              (_, nbo, bytes, ch) = tcp_receive (client_sock s) 4 nbo0 bytes ch
          in if bytes < 4 then (False, s, net\<lparr>client_ch := ch\<rparr>)
          else
            let req_size = unat (ntohl_bytes nbo - 4);
                (ok, buf, ch) = read_payload (client_sock s) req_size 0 (resize req_size (req_buf s)) ch;
                s = s\<lparr>req_buf := buf\<rparr>;
                net = net\<lparr>client_ch := ch\<rparr>
            in if \<not> ok then (False, s, net)
            else
              let payload = take req_size (req_buf s);
                  net = (if req_type = simple_query then net\<lparr>logged := logged net @ [payload]\<rparr> else net);
                  parts = (if requests_processed s > 1 then [[req_type]] else []) @ [nbo, payload];
                  (sent_all, ch) = send_parts (server_sock s) parts (server_ch net)
              in (sent_all, s, net\<lparr>server_ch := ch\<rparr>))"

definition handle_server_response ::
    "int \<Rightarrow> nat \<Rightarrow> byte \<Rightarrow> byte list \<Rightarrow> session \<Rightarrow> net \<Rightarrow> bool \<times> session \<times> net" where
  "handle_server_response ready bytes0 type0 nbo0 s net =
     (if \<not> tcp_wait ready (server_sock s) then (True, s, net)
      else
        let (_, t, bytes, ch) = tcp_receive (server_sock s) 1 [type0] bytes0 (server_ch net)
        in if bytes = 0 then (False, s, net\<lparr>server_ch := ch\<rparr>)
        else
          let (_, nbo, bytes, ch) = tcp_receive (server_sock s) 4 nbo0 bytes ch
          in if bytes < 4 then (False, s, net\<lparr>server_ch := ch\<rparr>)
          else
            let resp_size = unat (ntohl_bytes nbo - 4);
                (ok, buf, ch) = read_payload (server_sock s) resp_size 0 (resize resp_size (req_buf s)) ch;
                s = s\<lparr>req_buf := buf\<rparr>;
                net = net\<lparr>server_ch := ch\<rparr>
            in if \<not> ok then (False, s, net)
            else
              let (sent_all, ch) = send_parts (client_sock s) [[t ! 0], nbo, take resp_size (req_buf s)] (client_ch net)
              in (sent_all, s, net\<lparr>client_ch := ch\<rparr>))"

definition session_process ::
    "int \<Rightarrow> int \<Rightarrow> nat \<Rightarrow> byte \<Rightarrow> byte list \<Rightarrow> session \<Rightarrow> net \<Rightarrow> bool \<times> session \<times> net" where
  "session_process client_ready server_ready bytes0 type0 nbo0 s net =
     (let (ret, s, net) = handle_client_request client_ready bytes0 nbo0 s net;
          (ret, s, net) =
            (if ret then handle_server_response server_ready bytes0 type0 nbo0 s net else (ret, s, net));
          s = (if \<not> ret then s\<lparr>client_sock := tcp_close (client_sock s), server_sock := tcp_close (server_sock s)\<rparr> else s)
      in (ret, s\<lparr>processing := False\<rparr>, net))"

definition start_processing :: "session \<Rightarrow> session" where
  "start_processing s = s\<lparr>processing := True\<rparr>"

end
