(* ===== verification/Pg_Proxy.thy ===== *)
theory Pg_Proxy
  imports Pg_Session Exclusion
begin

section \<open>The proxy\<close>

text \<open>
  Models \<^verbatim>\<open>PostgresProxy/proxy.cpp\<close>: the listener thread hands new connections to the worker thread
  through a mutex and a condition variable. One step is one access to what the threads share. The
  sessions are numbers here; what one round of the worker does to each is the function at the
  end. \<^verbatim>\<open>cv.wait\<close> with a predicate tests the predicate with the mutex held, then releases the mutex and
  sleeps in one step; a sleeper that is notified takes the mutex and tests again. The standard also
  lets a sleeper wake up by itself.
\<close>

datatype listener_pc =
    L_accept | L_flag | L_lock | L_test | L_block | L_asleep | L_awake | L_push | L_unlock | L_notify
  | L_join_pool | L_join_worker | L_returned

datatype worker_pc =
    W_loop | W_hold | W_notify | W_lock | W_test | W_block | W_asleep | W_awake | W_resume
  | W_lock_sessions | W_sessions | W_done

record proxy =
  stop :: bool
  new_connection :: bool
  worker_on_hold :: bool
  session_mtx :: "nat option"
  listener_at :: listener_pc
  worker_at :: worker_pc
  sessions :: "nat list"
  accepted :: nat
  in_process :: "nat list"
  destructed :: bool

definition proxy_start :: proxy where
  "proxy_start =
     \<lparr>stop = False, new_connection = False, worker_on_hold = False, session_mtx = None,
      listener_at = L_accept, worker_at = W_loop, sessions = [], accepted = 0, in_process = [], destructed = False\<rparr>"

definition mtx_take :: "nat \<Rightarrow> proxy \<Rightarrow> proxy option" where
  "mtx_take t s = (if session_mtx s = None then Some (s\<lparr>session_mtx := Some t\<rparr>) else None)"

definition mtx_give :: "proxy \<Rightarrow> proxy" where
  "mtx_give s = s\<lparr>session_mtx := None\<rparr>"

text \<open>\<^verbatim>\<open>notify_one\<close> wakes a sleeper; at most one of the two threads sleeps when the other notifies.\<close>

definition cv_notify :: "proxy \<Rightarrow> proxy" where
  "cv_notify s =
     (if listener_at s = L_asleep then s\<lparr>listener_at := L_awake\<rparr>
      else if worker_at s = W_asleep then s\<lparr>worker_at := W_awake\<rparr>
      else s)"

text \<open>
  The listener, thread 0: \<^verbatim>\<open>run\<close> accepts a connection and \<^verbatim>\<open>handle_request\<close> puts it into the list; when it sees
  \<^verbatim>\<open>stop\<close> it goes on to \<^verbatim>\<open>finalize\<close>. Joining the pool waits until no session is in process, joining the worker until
  its function has ended.
\<close>

definition listener_step :: "proxy \<Rightarrow> proxy option" where
  "listener_step s =
     (case listener_at s of
        L_accept \<Rightarrow> Some (s\<lparr>listener_at := (if stop s then L_join_pool else L_flag)\<rparr>)
      | L_flag \<Rightarrow> Some (s\<lparr>new_connection := True, listener_at := L_lock\<rparr>)
      | L_lock \<Rightarrow> map_option (\<lambda>s. s\<lparr>listener_at := L_test\<rparr>) (mtx_take 0 s)
      | L_test \<Rightarrow> Some (s\<lparr>listener_at := (if worker_on_hold s then L_push else L_block)\<rparr>)
      | L_block \<Rightarrow> Some ((mtx_give s)\<lparr>listener_at := L_asleep\<rparr>)
      | L_asleep \<Rightarrow> None
      | L_awake \<Rightarrow> map_option (\<lambda>s. s\<lparr>listener_at := L_test\<rparr>) (mtx_take 0 s)
      | L_push \<Rightarrow>
          Some (s\<lparr>sessions := sessions s @ [accepted s], accepted := accepted s + 1,
                  new_connection := False, listener_at := L_unlock\<rparr>)
      | L_unlock \<Rightarrow> Some ((mtx_give s)\<lparr>listener_at := L_notify\<rparr>)
      | L_notify \<Rightarrow> Some ((cv_notify s)\<lparr>listener_at := L_accept\<rparr>)
      | L_join_pool \<Rightarrow> if in_process s = [] then Some (s\<lparr>listener_at := L_join_worker\<rparr>) else None
      | L_join_worker \<Rightarrow> if worker_at s = W_done then Some (s\<lparr>listener_at := L_returned\<rparr>) else None
      | L_returned \<Rightarrow> None)"

text \<open>
  The worker, thread 1. A round over the sessions leaves those in process alone, erases those that are \<open>gone\<close>, and
  gives those with work, \<open>ready\<close>, to the pool.
\<close>

definition process_round :: "nat list \<Rightarrow> nat list \<Rightarrow> proxy \<Rightarrow> proxy" where
  "process_round gone ready s =
     s\<lparr>sessions := [i \<leftarrow> sessions s. i \<in> set (in_process s) \<or> i \<notin> set gone],
       in_process := in_process s @ [i \<leftarrow> sessions s. i \<notin> set (in_process s) \<and> i \<notin> set gone \<and> i \<in> set ready]\<rparr>"

definition worker_step :: "nat list \<Rightarrow> nat list \<Rightarrow> proxy \<Rightarrow> proxy option" where
  "worker_step gone ready s =
     (case worker_at s of
        W_loop \<Rightarrow>
          Some (s\<lparr>worker_at := (if stop s then W_done else if new_connection s then W_hold else W_lock_sessions)\<rparr>)
      | W_hold \<Rightarrow> Some (s\<lparr>worker_on_hold := True, worker_at := W_notify\<rparr>)
      | W_notify \<Rightarrow> Some ((cv_notify s)\<lparr>worker_at := W_lock\<rparr>)
      | W_lock \<Rightarrow> map_option (\<lambda>s. s\<lparr>worker_at := W_test\<rparr>) (mtx_take 1 s)
      | W_test \<Rightarrow> Some (s\<lparr>worker_at := (if \<not> new_connection s then W_resume else W_block)\<rparr>)
      | W_block \<Rightarrow> Some ((mtx_give s)\<lparr>worker_at := W_asleep\<rparr>)
      | W_asleep \<Rightarrow> None
      | W_awake \<Rightarrow> map_option (\<lambda>s. s\<lparr>worker_at := W_test\<rparr>) (mtx_take 1 s)
      | W_resume \<Rightarrow> Some ((mtx_give s)\<lparr>worker_on_hold := False, worker_at := W_lock_sessions\<rparr>)
      | W_lock_sessions \<Rightarrow> map_option (\<lambda>s. s\<lparr>worker_at := W_sessions\<rparr>) (mtx_take 1 s)
      | W_sessions \<Rightarrow> Some ((mtx_give (process_round gone ready s))\<lparr>worker_at := W_loop\<rparr>)
      | W_done \<Rightarrow> None)"

text \<open>
  What can happen: a step of one of the two threads, the call of \<^verbatim>\<open>stop\<close>, a sleeper that wakes up by itself, the end of
  the task of a session in the pool, and the destruction of the proxy after \<^verbatim>\<open>run\<close> has returned.
\<close>

datatype proxy_label = Listener | Worker "nat list" "nat list" | Stop | Wake nat | Processed nat | Destruct

fun proxy_exec :: "proxy_label \<Rightarrow> proxy \<Rightarrow> proxy option" where
  "proxy_exec Listener s = listener_step s"
| "proxy_exec (Worker gone ready) s = worker_step gone ready s"
| "proxy_exec Stop s = Some (s\<lparr>stop := True\<rparr>)"
| "proxy_exec (Wake t) s =
     (if t = 0 \<and> listener_at s = L_asleep then Some (s\<lparr>listener_at := L_awake\<rparr>)
      else if t = 1 \<and> worker_at s = W_asleep then Some (s\<lparr>worker_at := W_awake\<rparr>)
      else None)"
| "proxy_exec (Processed i) s =
     (if i \<in> set (in_process s) then Some (s\<lparr>in_process := remove1 i (in_process s)\<rparr>) else None)"
| "proxy_exec Destruct s =
     (if listener_at s = L_returned then Some (s\<lparr>sessions := [], destructed := True\<rparr>) else None)"

text \<open>
  One round of the worker over the sessions: those that are processed are left alone, those whose sockets
  are closed are erased, those with work are given to the pool. The answers of \<^verbatim>\<open>select\<close> for the
  session are an argument. The second component counts the sessions given to the pool. Where the last
  session is erased the loop ends.
\<close>

fun session_round :: "(session \<Rightarrow> int \<times> int) \<Rightarrow> session list \<Rightarrow> session list \<times> nat" where
  "session_round ready [] = ([], 0)"
| "session_round ready (s # ss) =
     (case session_round ready ss of (ss', n) \<Rightarrow>
        if processing s then (s # ss', n)
        else if \<not> session_bool s then (ss', n)
        else if work_pending (fst (ready s)) (snd (ready s)) s then (start_processing s # ss', n + 1)
        else (s # ss', n))"

text \<open>What \<^verbatim>\<open>run\<close> does before its loop: the result when it fails.\<close>

definition proxy_run_starts :: "int \<Rightarrow> int \<Rightarrow> tcp \<Rightarrow> bool" where
  "proxy_run_starts bound listening s =
     (if \<not> tcp_bind bound s then False else if \<not> tcp_listen listening s then False else True)"

end
