(* ===== verification/Pg_Session_Properties.thy ===== *)
theory Pg_Session_Properties
  imports Pg_Session
begin

section \<open>What a session of the proxy promises\<close>

text \<open>
  A whole message, however its payload is cut into segments, is forwarded unchanged, and a query is
  logged. What the session does with a message whose header is cut, with a size that is too small, and
  when the server does not accept the connection.
\<close>

lemma ntohl_htonl: "ntohl_bytes (htonl_bytes w) = w"
proof (rule bit_word_eqI)
  fix n assume "n < LENGTH(32)"
  then have "n < 32" by simp
  consider "n < 8" | "8 \<le> n \<and> n < 16" | "16 \<le> n \<and> n < 24" | "24 \<le> n" by linarith
  then show "bit (ntohl_bytes (htonl_bytes w)) n = bit w n"
    using \<open>n < 32\<close> by cases (auto simp: ntohl_bytes_def htonl_bytes_def bit_simps)
qed

lemma length_htonl [simp]: "length (htonl_bytes w) = 4"
  by (simp add: htonl_bytes_def)

text \<open>The bytes that will still arrive, and a channel with its remaining segments.\<close>

definition pending :: "channel \<Rightarrow> byte list" where
  "pending ch = concat (incoming ch)"

lemma concat_filter_nonempty: "concat [s \<leftarrow> ss. s \<noteq> []] = concat ss"
  by (induction ss) auto

lemma recv_pending:
  assumes "pending ch \<noteq> []" "0 < n"
  obtains r segs where "recv n ch = (Some r, ch\<lparr>incoming := segs\<rparr>)" "r \<noteq> []" "length r \<le> n"
    "pending ch = r @ concat segs"
proof -
  have ne: "[s \<leftarrow> incoming ch. s \<noteq> []] \<noteq> []"
    using assms(1) unfolding pending_def by (metis concat.simps(1) concat_filter_nonempty)
  then obtain seg segs where f: "[s \<leftarrow> incoming ch. s \<noteq> []] = seg # segs"
    by (meson neq_Nil_conv)
  have "seg \<in> set [s \<leftarrow> incoming ch. s \<noteq> []]" unfolding f by simp
  then have "seg \<noteq> []" by simp
  moreover have "pending ch = seg @ concat segs"
    unfolding pending_def using concat_filter_nonempty [of "incoming ch"] f by simp
  ultimately show thesis
    by (intro that [of "take n seg" "if n < length seg then drop n seg # segs else segs"])
      (use f assms(2) in \<open>auto simp: recv_def\<close>)
qed

lemma recv_first:
  assumes "incoming ch = seg # segs" "n \<le> length seg" "0 < n"
  shows "recv n ch = (Some (take n seg),
    ch\<lparr>incoming := (if n < length seg then drop n seg # [s \<leftarrow> segs. s \<noteq> []] else [s \<leftarrow> segs. s \<noteq> []])\<rparr>)"
  using assms by (auto simp: recv_def)

lemma receive_first:
  assumes "tcp_bool s" "incoming ch = seg # segs" "n \<le> length seg" "0 < n" "length buf = n"
  obtains segs' where "tcp_receive s n buf b ch = (True, take n seg, n, ch\<lparr>incoming := segs'\<rparr>)"
    "n < length seg \<Longrightarrow> \<exists>more. segs' = drop n seg # more"
    "concat segs' = drop n (concat (incoming ch))"
  using assms recv_first [OF assms(2-4)]
  by (intro that [of "if n < length seg then drop n seg # [s \<leftarrow> segs. s \<noteq> []] else [s \<leftarrow> segs. s \<noteq> []]"])
    (auto simp: tcp_receive_def concat_filter_nonempty)

lemma read_payload_reads:
  assumes "tcp_bool s"
  shows "n - br \<le> length (pending ch) \<Longrightarrow> br \<le> n \<Longrightarrow> n \<le> length buf \<Longrightarrow>
   \<exists>segs. read_payload s n br buf ch =
     (True, take br buf @ take (n - br) (pending ch) @ drop n buf, ch\<lparr>incoming := segs\<rparr>) \<and>
     concat segs = drop (n - br) (pending ch)"
proof (induction "n - br" arbitrary: br buf ch rule: less_induct)
  case less
  show ?case
  proof (cases "br < n")
    case False
    with less.prems show ?thesis
      by (subst read_payload.simps) (auto simp: pending_def intro!: exI [of _ "incoming ch"])
  next
    case True
    with less.prems have "pending ch \<noteq> []" "0 < n - br" by auto
    then obtain r segs where r: "recv (n - br) ch = (Some r, ch\<lparr>incoming := segs\<rparr>)" "r \<noteq> []"
      "length r \<le> n - br" "pending ch = r @ concat segs" by (rule recv_pending)
    let ?ch = "ch\<lparr>incoming := segs\<rparr>" and ?br = "br + length r"
    let ?buf = "take br buf @ r @ drop (length r) (drop br buf)"
    have step: "read_payload s n br buf ch = read_payload s n ?br ?buf ?ch"
      using True r assms by (subst read_payload.simps) (simp add: tcp_receive_def)
    have "0 < length r" using r(2) by simp
    then have "n - ?br < n - br" using True by linarith
    moreover have "n - ?br \<le> length (pending ?ch)" "?br \<le> n" "n \<le> length ?buf"
      using r less.prems True by (auto simp: pending_def)
    ultimately obtain segs' where rec: "read_payload s n ?br ?buf ?ch =
        (True, take ?br ?buf @ take (n - ?br) (pending ?ch) @ drop n ?buf, ?ch\<lparr>incoming := segs'\<rparr>)"
      "concat segs' = drop (n - ?br) (pending ?ch)" using less.hyps by blast
    have eqs: "take ?br ?buf = take br buf @ r" "drop n ?buf = drop n buf"
      "take (n - br) (pending ch) = r @ take (n - ?br) (pending ?ch)"
      "drop (n - br) (pending ch) = drop (n - ?br) (pending ?ch)"
      using r(3,4) less.prems True by (simp_all add: min_def pending_def)
    show ?thesis
      unfolding step rec(1) eqs using rec(2) by (intro exI [of _ segs']) simp
  qed
qed

lemma send_parts_put: "send_parts s ps ch = put_parts (tcp_send s) ps ch"
  by (induction ps arbitrary: ch) (auto split: prod.splits)

lemma send_parts_sends:
  assumes "tcp_bool s" "\<forall>k \<in> set (send_takes ch). 0 \<le> k"
  shows "fst (send_parts s ps ch)"
  using tcp_out.parts_delivered [OF assms, of ps] by (auto simp: send_parts_put)

lemma send_parts_prefix:
  obtains n where "sent (snd (send_parts s ps ch)) = sent ch @ take n (concat ps)" "n \<le> length (concat ps)"
    "fst (send_parts s ps ch) \<longrightarrow> n = length (concat ps)"
proof -
  obtain ks n where "snd (send_parts s ps ch) = ch\<lparr>send_takes := ks, sent := sent ch @ take n (concat ps)\<rparr>"
    "n \<le> length (concat ps)" "fst (send_parts s ps ch) \<longrightarrow> n = length (concat ps)"
    using tcp_out.parts_prefix [of ps ch s] unfolding sends_prefix_def send_parts_put by blast
  then show thesis by (intro that [of n]) simp_all
qed

definition message_size :: "byte list \<Rightarrow> byte list" where
  "message_size payload = htonl_bytes (of_nat (length payload + 4))"

lemma message_size_read:
  "length payload + 4 < 2 ^ 32 \<Longrightarrow> unat (ntohl_bytes (message_size payload) - 4) = length payload"
  unfolding message_size_def ntohl_htonl by (simp add: unat_of_nat take_bit_nat_eq_self)

lemma length_message_size [simp]: "length (message_size payload) = 4"
  by (simp add: message_size_def)

lemma resize_length: "n \<le> length (resize n buf)"
  by (simp add: resize_def)


text \<open>What is at the front of the first segment is received in one piece.\<close>

lemma receive_front:
  assumes "tcp_bool s" "incoming ch = seg # segs" "pending ch = front @ rest" "length front \<le> length seg"
    "front \<noteq> []" "length buf = length front"
  obtains segs' where "tcp_receive s (length front) buf b ch = (True, front, length front, ch\<lparr>incoming := segs'\<rparr>)"
    "concat segs' = rest"
    "length front < length seg \<Longrightarrow> \<exists>seg' more. segs' = seg' # more \<and> length seg = length front + length seg'"
proof -
  have "take (length front) seg = take (length front) (seg @ concat segs)" using assms(4) by simp
  also have "\<dots> = front" using assms(2,3) by (simp add: pending_def)
  finally have front: "take (length front) seg = front" .
  obtain segs' where "tcp_receive s (length front) buf b ch = (True, take (length front) seg, length front, ch\<lparr>incoming := segs'\<rparr>)"
    "length front < length seg \<Longrightarrow> \<exists>more. segs' = drop (length front) seg # more"
    "concat segs' = drop (length front) (concat (incoming ch))"
    using receive_first [OF assms(1,2,4) _ assms(6)] assms(5) by blast
  with front assms(3) show thesis by (intro that [of segs']) (auto simp: pending_def)
qed

text \<open>The type, which a start message does not have, and the size.\<close>

definition message_header :: "byte option \<Rightarrow> byte list \<Rightarrow> byte list" where
  "message_header t payload = (case t of None \<Rightarrow> [] | Some t \<Rightarrow> [t]) @ message_size payload"

text \<open>A channel on which a whole message will arrive, its header in the first segment.\<close>

definition message_arrives :: "byte option \<Rightarrow> byte list \<Rightarrow> byte list \<Rightarrow> channel \<Rightarrow> bool" where
  "message_arrives t payload rest ch \<longleftrightarrow>
     pending ch = message_header t payload @ payload @ rest \<and> length payload + 4 < 2 ^ 32 \<and>
     (\<exists>seg segs. incoming ch = seg # segs \<and> length (message_header t payload) \<le> length seg)"

lemma type_arrives:
  assumes "tcp_bool s" "message_arrives (Some t) payload rest ch" "length buf = 1"
  obtains segs where "tcp_receive s 1 buf b ch = (True, [t], 1, ch\<lparr>incoming := segs\<rparr>)"
    "message_arrives None payload rest (ch\<lparr>incoming := segs\<rparr>)"
proof -
  obtain seg ss where seg: "incoming ch = seg # ss" "5 \<le> length seg"
    and pend: "pending ch = [t] @ message_size payload @ payload @ rest" "length payload + 4 < 2 ^ 32"
    using assms(2) by (auto simp: message_arrives_def message_header_def)
  from receive_front [OF assms(1) seg(1) pend(1), of buf b] seg(2) assms(3)
  obtain segs where "tcp_receive s 1 buf b ch = (True, [t], 1, ch\<lparr>incoming := segs\<rparr>)"
    "concat segs = message_size payload @ payload @ rest"
    "\<exists>seg' more. segs = seg' # more \<and> length seg = 1 + length seg'" by auto
  with seg(2) pend(2) show thesis
    by (intro that [of segs]) (auto simp: message_arrives_def message_header_def pending_def)
qed

lemma size_arrives:
  assumes "tcp_bool s" "message_arrives None payload rest ch" "length buf = 4"
  obtains segs where "tcp_receive s 4 buf b ch = (True, message_size payload, 4, ch\<lparr>incoming := segs\<rparr>)"
    "concat segs = payload @ rest"
proof -
  obtain seg ss where seg: "incoming ch = seg # ss" "4 \<le> length seg"
    and pend: "pending ch = message_size payload @ payload @ rest"
    using assms(2) by (auto simp: message_arrives_def message_header_def)
  have "message_size payload \<noteq> []" by (metis length_message_size list.size(3) zero_neq_numeral)
  with receive_front [OF assms(1) seg(1) pend(1), of buf b] seg(2) assms(3) that show thesis
    by (metis length_message_size)
qed

lemma payload_arrives:
  assumes "tcp_bool s" "concat segs = payload @ rest"
  obtains segs' where "read_payload s (length payload) 0 (resize (length payload) buf) (ch\<lparr>incoming := segs\<rparr>) =
      (True, payload @ drop (length payload) (resize (length payload) buf), ch\<lparr>incoming := segs'\<rparr>)"
    "concat segs' = rest"
proof -
  have "pending (ch\<lparr>incoming := segs\<rparr>) = payload @ rest" using assms(2) by (simp add: pending_def)
  with read_payload_reads [OF assms(1), of "length payload" 0 "ch\<lparr>incoming := segs\<rparr>"
      "resize (length payload) buf"] resize_length that
  show thesis by auto
qed

lemma count_after_first: "p + 1 \<noteq> 0 \<Longrightarrow> (p + 1 > 1) = (p \<noteq> 0)" for p :: u32
proof -
  assume "p + 1 \<noteq> 0"
  then have "unat (1 + p) = Suc (unat p)" by (simp add: unatSuc add.commute)
  then show ?thesis by (simp add: word_less_nat_alt add.commute [of p] unat_gt_0)
qed

text \<open>
  C18: A request that is complete, its header in one segment and its payload cut in any way, is forwarded to the
  server: a beginning of it whatever happens, all of it, unchanged, when the answer is true, and the answer is true as
  long as no call of \<^verbatim>\<open>send\<close> fails. What follows the request stays to be read, and the payload of a query is logged
  once. The first request of a session has no type.
\<close>

theorem session_forwards_request:
  assumes "tcp_bool (client_sock s)" "tcp_bool (server_sock s)" "ready > 0" "length nbo0 = 4"
    and "requests_processed s + 1 \<noteq> 0" "requests_processed s = 0 \<longleftrightarrow> t = None"
    and "message_arrives t payload rest (client_ch net)" "msg = message_header t payload @ payload"
  shows "\<exists>ok s' net' n. handle_client_request ready bytes0 nbo0 s net = (ok, s', net') \<and>
    sent (server_ch net') = sent (server_ch net) @ take n msg \<and> n \<le> length msg \<and> (ok \<longrightarrow> n = length msg) \<and>
    ((\<forall>k \<in> set (send_takes (server_ch net)). 0 \<le> k) \<longrightarrow> ok) \<and>
    pending (client_ch net') = rest \<and>
    logged net' = logged net @ (if t = Some simple_query then [payload] else []) \<and>
    requests_processed s' = requests_processed s + 1"
proof -
  let ?p = "requests_processed s" and ?c = "client_sock s" and ?n = "length payload"
  let ?type = "case t of None \<Rightarrow> 0x30 | Some t \<Rightarrow> t" and ?b = "if ?p > 0 then 1 else bytes0"
  let ?parts = "(if ?p + 1 > 1 then [[?type]] else []) @ [message_size payload, payload]"
  have wait: "tcp_wait ready ?c" using assms(1,3) by (simp add: tcp_wait_def)
  obtain segs1 where head: "(if ?p > 0 then case tcp_receive ?c 1 [0x30] bytes0 (client_ch net) of
               (_, t, bytes, ch) \<Rightarrow> (t ! 0, bytes, ch, bytes = 0)
           else (0x30, bytes0, client_ch net, False)) = (?type, ?b, (client_ch net)\<lparr>incoming := segs1\<rparr>, False)"
    "message_arrives None payload rest ((client_ch net)\<lparr>incoming := segs1\<rparr>)"
  proof (cases t)
    case None
    then show thesis using assms(6,7) by (intro that [of "incoming (client_ch net)"]) auto
  next
    case (Some t')
    have "message_arrives (Some t') payload rest (client_ch net)" using assms(7) Some by simp
    from type_arrives [OF assms(1) this, of "[0x30]" bytes0] obtain segs where
      "tcp_receive ?c 1 [0x30] bytes0 (client_ch net) = (True, [t'], 1, (client_ch net)\<lparr>incoming := segs\<rparr>)"
      "message_arrives None payload rest ((client_ch net)\<lparr>incoming := segs\<rparr>)" by auto
    moreover have "?p > 0" using assms(6) Some by (simp add: word_gt_0)
    ultimately show thesis using Some by (intro that [of segs]) simp_all
  qed
  obtain segs2 where size: "tcp_receive ?c 4 nbo0 ?b ((client_ch net)\<lparr>incoming := segs1\<rparr>) =
      (True, message_size payload, 4, (client_ch net)\<lparr>incoming := segs2\<rparr>)" "concat segs2 = payload @ rest"
    using size_arrives [OF assms(1) head(2) assms(4), of ?b] by auto
  obtain segs3 where pay: "read_payload ?c ?n 0 (resize ?n (req_buf s)) ((client_ch net)\<lparr>incoming := segs2\<rparr>) =
      (True, payload @ drop ?n (resize ?n (req_buf s)), (client_ch net)\<lparr>incoming := segs3\<rparr>)" "concat segs3 = rest"
    using payload_arrives [OF assms(1) size(2), of "req_buf s" "client_ch net"] by blast
  have "(?p + 1 > 1) = (t \<noteq> None)" using assms(6) count_after_first [OF assms(5)] by simp
  then have parts: "concat ?parts = msg" using assms(8) by (auto simp: message_header_def)
  obtain n where send: "sent (snd (send_parts (server_sock s) ?parts (server_ch net))) = sent (server_ch net) @ take n msg"
    "n \<le> length msg" "fst (send_parts (server_sock s) ?parts (server_ch net)) \<longrightarrow> n = length msg"
    using send_parts_prefix [of "server_sock s" ?parts "server_ch net"] unfolding parts .
  obtain ok ch where sp: "send_parts (server_sock s) ?parts (server_ch net) = (ok, ch)" by force
  have ok: "(\<forall>k \<in> set (send_takes (server_ch net)). 0 \<le> k) \<longrightarrow> ok"
    using send_parts_sends [OF assms(2), of "server_ch net" ?parts] sp by simp
  have n: "unat (ntohl_bytes (message_size payload) - 4) = ?n"
    using message_size_read assms(7) by (simp add: message_arrives_def)
  have log: "(?type = simple_query) = (t = Some simple_query)"
    by (auto simp: simple_query_def split: option.splits)
  have log_net: "(if ?type = simple_query then net\<lparr>client_ch := c, logged := logged net @ [p]\<rparr> else net\<lparr>client_ch := c\<rparr>) =
      net\<lparr>client_ch := c, logged := logged net @ (if t = Some simple_query then [p] else [])\<rparr>" for c p
    unfolding log by simp
  let ?s' = "s\<lparr>requests_processed := ?p + 1, req_buf := payload @ drop ?n (resize ?n (req_buf s))\<rparr>"
  let ?net' = "net\<lparr>client_ch := (client_ch net)\<lparr>incoming := segs3\<rparr>, server_ch := ch,
    logged := logged net @ (if t = Some simple_query then [payload] else [])\<rparr>"
  have handled: "handle_client_request ready bytes0 nbo0 s net = (ok, ?s', ?net')"
    using wait head(1) size(1) pay(1) sp n log
    by (simp add: handle_client_request_def Let_def split del: if_split del: send_parts.simps)
      (simp add: Let_def del: send_parts.simps)
  have "sent ch = sent (server_ch net) @ take n msg \<and> n \<le> length msg \<and> (ok \<longrightarrow> n = length msg)"
    using send [unfolded sp fst_conv snd_conv] by (intro conjI)
  then show ?thesis using handled ok pay(2) unfolding pending_def
    by (intro exI [of _ ok] exI [of _ ?s'] exI [of _ ?net'] exI [of _ n]) simp
qed

definition example_net :: "byte list list \<Rightarrow> net" where
  "example_net segs =
     \<lparr>client_ch = \<lparr>incoming = segs, broken = False, send_takes = [], sent = []\<rparr>,
      server_ch = \<lparr>incoming = [], broken = False, send_takes = [3], sent = []\<rparr>, logged = []\<rparr>"

definition example_session :: "u32 \<Rightarrow> session" where
  "example_session n =
     \<lparr>client_sock = tcp_of_fd 5 [] 0, server_sock = tcp_new 6, processing = True,
      requests_processed = n, req_buf = []\<rparr>"

lemma example_up: "tcp_bool (client_sock (example_session n))" "tcp_bool (server_sock (example_session n))"
  by (simp_all add: example_session_def tcp_bool_def tcp_of_fd_def tcp_new_def)

theorem session_forwards_request_witness:
  "\<exists>s' net'. handle_client_request 1 0 [0, 0, 0, 0] (example_session 1) (example_net [[0x51, 0, 0, 0, 6, 97], [98, 99]]) =
      (True, s', net') \<and> sent (server_ch net') = [0x51, 0, 0, 0, 6, 97, 98] \<and>
    pending (client_ch net') = [99] \<and> logged net' = [[97, 98]] \<and> requests_processed s' = 2"
proof -
  have size: "message_size [97, 98] = [0, 0, 0, 6]" by code_simp
  then have "message_arrives (Some 0x51) [97, 98] [99] (client_ch (example_net [[0x51, 0, 0, 0, 6, 97], [98, 99]]))"
    by (simp add: message_arrives_def message_header_def pending_def example_net_def)
  from session_forwards_request [where ready = 1 and ?nbo0.0 = "[0, 0, 0, 0]" and ?bytes0.0 = 0, OF example_up [of 1] _ _ _ _ this refl]
  obtain ok s' net' n where h: "handle_client_request 1 0 [0, 0, 0, 0] (example_session 1)
      (example_net [[0x51, 0, 0, 0, 6, 97], [98, 99]]) = (ok, s', net')"
    "sent (server_ch net') = take n [0x51, 0, 0, 0, 6, 97, 98]" "ok \<longrightarrow> n = 7" ok
    "pending (client_ch net') = [99]" "logged net' = [[97, 98]]" "requests_processed s' = 2"
    by (auto simp: example_session_def example_net_def message_header_def size simple_query_def)
  then show ?thesis by simp
qed

text \<open>
  C19: A complete response, its header in one segment and its payload cut in any way, is forwarded to the client: a
  beginning of it whatever happens, all of it, unchanged, when the answer is true, and the answer is true as long as no
  call of \<^verbatim>\<open>send\<close> fails. What follows it stays to be read and nothing is logged.
\<close>

theorem session_forwards_response:
  assumes "tcp_bool (client_sock s)" "tcp_bool (server_sock s)" "ready > 0" "length nbo0 = 4"
    and "message_arrives (Some t) payload rest (server_ch net)" "msg = message_header (Some t) payload @ payload"
  shows "\<exists>ok s' net' n. handle_server_response ready bytes0 type0 nbo0 s net = (ok, s', net') \<and>
    sent (client_ch net') = sent (client_ch net) @ take n msg \<and> n \<le> length msg \<and> (ok \<longrightarrow> n = length msg) \<and>
    ((\<forall>k \<in> set (send_takes (client_ch net)). 0 \<le> k) \<longrightarrow> ok) \<and>
    pending (server_ch net') = rest \<and> logged net' = logged net"
proof -
  let ?v = "server_sock s" and ?n = "length payload"
  have wait: "tcp_wait ready ?v" using assms(2,3) by (simp add: tcp_wait_def)
  obtain segs1 where type: "tcp_receive ?v 1 [type0] bytes0 (server_ch net) =
      (True, [t], 1, (server_ch net)\<lparr>incoming := segs1\<rparr>)"
    "message_arrives None payload rest ((server_ch net)\<lparr>incoming := segs1\<rparr>)"
    using type_arrives [OF assms(2,5), of "[type0]" bytes0] by auto
  obtain segs2 where size: "tcp_receive ?v 4 nbo0 1 ((server_ch net)\<lparr>incoming := segs1\<rparr>) =
      (True, message_size payload, 4, (server_ch net)\<lparr>incoming := segs2\<rparr>)" "concat segs2 = payload @ rest"
    using size_arrives [OF assms(2) type(2) assms(4), of 1] by auto
  obtain segs3 where pay: "read_payload ?v ?n 0 (resize ?n (req_buf s)) ((server_ch net)\<lparr>incoming := segs2\<rparr>) =
      (True, payload @ drop ?n (resize ?n (req_buf s)), (server_ch net)\<lparr>incoming := segs3\<rparr>)" "concat segs3 = rest"
    using payload_arrives [OF assms(2) size(2), of "req_buf s" "server_ch net"] by blast
  let ?parts = "[[t], message_size payload, payload]"
  have parts: "concat ?parts = msg" using assms(6) by (simp add: message_header_def)
  obtain n where send: "sent (snd (send_parts (client_sock s) ?parts (client_ch net))) = sent (client_ch net) @ take n msg"
    "n \<le> length msg" "fst (send_parts (client_sock s) ?parts (client_ch net)) \<longrightarrow> n = length msg"
    using send_parts_prefix [of "client_sock s" ?parts "client_ch net"] unfolding parts .
  obtain ok ch where sp: "send_parts (client_sock s) ?parts (client_ch net) = (ok, ch)" by force
  have ok: "(\<forall>k \<in> set (send_takes (client_ch net)). 0 \<le> k) \<longrightarrow> ok"
    using send_parts_sends [OF assms(1), of "client_ch net" ?parts] sp by simp
  have n: "unat (ntohl_bytes (message_size payload) - 4) = ?n"
    using message_size_read assms(5) by (simp add: message_arrives_def)
  let ?s' = "s\<lparr>req_buf := payload @ drop ?n (resize ?n (req_buf s))\<rparr>"
  let ?net' = "net\<lparr>server_ch := (server_ch net)\<lparr>incoming := segs3\<rparr>, client_ch := ch\<rparr>"
  have handled: "handle_server_response ready bytes0 type0 nbo0 s net = (ok, ?s', ?net')"
    by (simp only: handle_server_response_def Let_def wait type(1) size(1) pay(1) n prod.case nth_Cons_0
        one_neq_zero less_irrefl simp_thms if_False) (simp add: sp del: send_parts.simps)
  have "sent ch = sent (client_ch net) @ take n msg \<and> n \<le> length msg \<and> (ok \<longrightarrow> n = length msg)"
    using send [unfolded sp fst_conv snd_conv] by (intro conjI)
  then show ?thesis using handled ok pay(2) unfolding pending_def
    by (intro exI [of _ ok] exI [of _ ?s'] exI [of _ ?net'] exI [of _ n]) simp
qed

theorem session_forwards_response_witness:
  "\<exists>s' net'. handle_server_response 1 0 0 [0, 0, 0, 0] (example_session 1)
      (example_net []\<lparr>server_ch := client_ch (example_net [[0x5A, 0, 0, 0, 5], [73]])\<rparr>) = (True, s', net') \<and>
    sent (client_ch net') = [0x5A, 0, 0, 0, 5, 73]"
proof -
  have size: "message_size [73] = [0, 0, 0, 5]" by code_simp
  then have "message_arrives (Some 0x5A) [73] []
      (server_ch (example_net []\<lparr>server_ch := client_ch (example_net [[0x5A, 0, 0, 0, 5], [73]])\<rparr>))"
    by (simp add: message_arrives_def message_header_def pending_def example_net_def)
  from session_forwards_response [where ready = 1 and ?nbo0.0 = "[0, 0, 0, 0]" and ?bytes0.0 = 0 and ?type0.0 = 0,
      OF example_up [of 1] _ _ this refl]
  obtain ok s' net' n where "handle_server_response 1 0 0 [0, 0, 0, 0] (example_session 1)
      (example_net []\<lparr>server_ch := client_ch (example_net [[0x5A, 0, 0, 0, 5], [73]])\<rparr>) = (ok, s', net')"
    "sent (client_ch net') = take n [0x5A, 0, 0, 0, 5, 73]" "ok \<longrightarrow> n = 6" ok
    by (auto simp: example_net_def message_header_def size)
  then show ?thesis by simp
qed

subsection \<open>What a session gets wrong\<close>

lemma read_payload_length:
  "read_payload s n br buf ch = (ok, buf', ch') \<Longrightarrow> length buf \<le> length buf'"
proof (induction s n br buf ch arbitrary: ok buf' ch' rule: read_payload.induct)
  case (1 s n br buf ch)
  show ?case
  proof (cases "br < n")
    case True
    obtain ok1 part bytes ch1 where r: "tcp_receive s (n - br) (drop br buf) 0 ch = (ok1, part, bytes, ch1)"
      by (metis prod_cases4)
    then have "length buf - br \<le> length part"
      by (auto simp: tcp_receive_def split: if_splits prod.splits option.splits)
    then have len: "length buf \<le> length (take br buf @ part)" by simp
    from 1(2) True r have "(\<not> ok1 \<or> bytes = 0) \<and> buf' = take br buf @ part \<or>
        \<not> (\<not> ok1 \<or> bytes = 0) \<and> read_payload s n (br + bytes) (take br buf @ part) ch1 = (ok, buf', ch')"
      by (subst (asm) read_payload.simps) (auto split: if_splits)
    with 1(1) [OF True, of ok1 "(part, bytes, ch1)" part "(bytes, ch1)" bytes ch1] r len
    show ?thesis by (metis order_trans)
  next
    case False
    with 1(2) show ?thesis by (subst (asm) read_payload.simps) auto
  qed
qed

text \<open>
  C20: What a session gets wrong. A query whose header arrives in two segments ends the session. A start
  message whose size field is below 4, which is less than the size of the field itself, makes the
  session allocate almost 4 GiB. A session counts as started when the connection to the server was
  refused, and a failed \<^verbatim>\<open>accept\<close> yields a socket that counts as connected.
\<close>

theorem session_faults:
  "fst (handle_client_request 1 0 [0, 0, 0, 0] (example_session 1) (example_net [[0x51, 0, 0], [0, 4]])) = False \<and>
   (\<forall>w < 4. \<exists>ok s' net'. handle_client_request 1 0 [0, 0, 0, 0] (example_session 0) (example_net [htonl_bytes w]) =
      (ok, s', net') \<and> 2 ^ 32 - 4 \<le> length (req_buf s')) \<and>
   (session_bool (fst (session_new (tcp_of_fd 5 i p) 6 (- 1))) \<and> snd (session_new (tcp_of_fd 5 i p) 6 (- 1))) \<and>
   tcp_bool (tcp_accept (- 1) peer 7 (tcp_new 3))"
proof (intro conjI allI impI)
  show "fst (handle_client_request 1 0 [0, 0, 0, 0] (example_session 1) (example_net [[0x51, 0, 0], [0, 4]])) = False"
    by code_simp
  fix w :: u32 assume "w < 4"
  then have "unat (w - 4) = 2 ^ 32 - 4 + unat w"
    by (simp add: unat_sub_if_size word_less_nat_alt word_le_nat_alt size_word.rep_eq)
  then have big: "2 ^ 32 - 4 \<le> unat (w - 4)" by simp
  let ?s = "example_session 0" and ?n = "unat (w - 4)"
  let ?ch = "\<lparr>incoming = [], broken = False, send_takes = [], sent = []\<rparr>"
  have size: "tcp_receive (client_sock ?s) 4 [0, 0, 0, 0] 0 (client_ch (example_net [htonl_bytes w])) =
      (True, htonl_bytes w, 4, ?ch)"
    by (simp add: tcp_receive_def recv_def example_session_def example_net_def tcp_bool_def tcp_of_fd_def htonl_bytes_def)
  obtain ok buf ch where pay: "read_payload (client_sock ?s) ?n 0 (resize ?n []) ?ch = (ok, buf, ch)"
    by (metis prod_cases3)
  have "?n \<le> length buf" using read_payload_length [OF pay] resize_length order_trans by blast
  moreover have "\<exists>ok s' net'. handle_client_request 1 0 [0, 0, 0, 0] ?s (example_net [htonl_bytes w]) =
      (ok, s', net') \<and> req_buf s' = buf"
    using size pay example_up(1) [of 0]
    by (auto simp: handle_client_request_def tcp_wait_def ntohl_htonl Let_def example_session_def split: prod.split)
  ultimately show "\<exists>ok s' net'. handle_client_request 1 0 [0, 0, 0, 0] ?s (example_net [htonl_bytes w]) =
      (ok, s', net') \<and> 2 ^ 32 - 4 \<le> length (req_buf s')" using big by (metis order_trans)
next
  show "session_bool (fst (session_new (tcp_of_fd 5 i p) 6 (- 1)))" "snd (session_new (tcp_of_fd 5 i p) 6 (- 1))"
    by (simp_all add: session_bool_def session_new_def tcp_bool_def tcp_of_fd_def tcp_new_def tcp_move_def)
  show "tcp_bool (tcp_accept (- 1) peer 7 (tcp_new 3))"
    by (simp add: tcp_accept_def tcp_bool_def tcp_new_def)
qed

theorem session_faults_witness:
  "(3 :: u32) < 4 \<and> (\<exists>ok s' net'. handle_client_request 1 0 [0, 0, 0, 0] (example_session 0)
     (example_net [htonl_bytes 3]) = (ok, s', net') \<and> 2 ^ 32 - 4 \<le> length (req_buf s'))"
proof
  show "(3 :: u32) < 4" by simp
  then show "\<exists>ok s' net'. handle_client_request 1 0 [0, 0, 0, 0] (example_session 0)
     (example_net [htonl_bytes 3]) = (ok, s', net') \<and> 2 ^ 32 - 4 \<le> length (req_buf s')"
    using session_faults by blast
qed

end
