(* ===== verification/Pg_Proxy_Properties.thy ===== *)
theory Pg_Proxy_Properties
  imports Pg_Proxy Pg_Session_Properties
begin

section \<open>What the proxy promises\<close>

text \<open>
  The session list is only touched by the thread that holds the mutex, and a round of the worker starts
  only sessions that are not being processed. A notification can be lost, and then listener and worker
  wait for each other.
\<close>

definition proxy_free :: "proxy \<Rightarrow> bool" where
  "proxy_free s \<longleftrightarrow> session_mtx s = None"

definition proxy_inside :: "proxy \<Rightarrow> nat \<Rightarrow> bool" where
  "proxy_inside s t \<longleftrightarrow>
     t = 0 \<and> listener_at s \<in> {L_test, L_block, L_push, L_unlock} \<or>
     t = 1 \<and> worker_at s \<in> {W_test, W_block, W_resume, W_sessions}"

lemmas proxy_defs = exec_step_def listener_step_def worker_step_def mtx_take_def mtx_give_def cv_notify_def process_round_def

lemma listener_inside_step:
  assumes "listener_step s = Some s'"
  shows "(proxy_inside s' t \<longrightarrow> \<not> proxy_inside s t \<longrightarrow> t = 0 \<and> proxy_free s \<and> \<not> proxy_free s') \<and>
    (\<not> proxy_free s \<longrightarrow> proxy_free s' \<longrightarrow> proxy_inside s 0 \<and> \<not> proxy_inside s' 0)"
  using assms
  by (cases "listener_at s") (auto simp: proxy_defs proxy_inside_def proxy_free_def split: if_splits)

lemma worker_inside_step:
  assumes "worker_step gone ready s = Some s'"
  shows "(proxy_inside s' t \<longrightarrow> \<not> proxy_inside s t \<longrightarrow> t = 1 \<and> proxy_free s \<and> \<not> proxy_free s') \<and>
    (\<not> proxy_free s \<longrightarrow> proxy_free s' \<longrightarrow> proxy_inside s 1 \<and> \<not> proxy_inside s' 1)"
  using assms
  by (cases "worker_at s") (auto simp: proxy_defs proxy_inside_def proxy_free_def split: if_splits)

lemma proxy_other_step:
  assumes "proxy_exec l s = Some s'" "l \<noteq> Listener" "\<forall>gone ready. l \<noteq> Worker gone ready"
  shows "proxy_inside s' t = proxy_inside s t \<and> proxy_free s' = proxy_free s"
  using assms by (cases l) (auto simp: proxy_inside_def proxy_free_def split: if_splits)

lemma proxy_laws:
  assumes "exec_step proxy_exec s s'"
  shows "\<exists>u. (\<forall>t. proxy_inside s' t \<longrightarrow> \<not> proxy_inside s t \<longrightarrow> t = u \<and> proxy_free s \<and> \<not> proxy_free s') \<and>
    (\<not> proxy_free s \<longrightarrow> proxy_free s' \<longrightarrow> proxy_inside s u \<and> \<not> proxy_inside s' u)"
proof -
  obtain l where l: "proxy_exec l s = Some s'" using assms by (auto simp: exec_step_def)
  show ?thesis
  proof (cases l)
    case Listener
    with l listener_inside_step [of s s'] show ?thesis by (intro exI [of _ 0]) simp
  next
    case (Worker gone ready)
    with l worker_inside_step [of gone ready s s'] show ?thesis by (intro exI [of _ 1]) simp
  qed (use proxy_other_step [OF l] in simp_all)
qed

interpretation proxy_mutex: exclusion "exec_step proxy_exec" proxy_start "\<lambda>_. True" proxy_free proxy_inside
proof (unfold_locales, goal_cases)
  case (4 s s' t)
  then show ?case using proxy_laws [OF 4(2)] by blast
next
  case (5 s s' t u)
  then show ?case using proxy_laws [OF 5(2)] by blast
next
  case (6 s s')
  then show ?case using proxy_laws [OF 6(2)] by blast
qed (simp_all add: proxy_start_def proxy_inside_def)

lemma session_round_split:
  "fst (session_round ready ss) =
     map (\<lambda>s. if \<not> processing s \<and> work_pending (fst (ready s)) (snd (ready s)) s then start_processing s else s)
       [s \<leftarrow> ss. processing s \<or> session_bool s] \<and>
   snd (session_round ready ss) =
     length [s \<leftarrow> ss. \<not> processing s \<and> session_bool s \<and> work_pending (fst (ready s)) (snd (ready s)) s]"
  by (induction ss) (auto split: prod.splits)

text \<open>
  C21: Listener and worker are never both at a place where they use the session list, whatever the
  interleaving, and sleeping and waking do not change that. A round of the worker erases exactly
  the idle sessions whose sockets are closed, and starts exactly the idle ones with work.
\<close>

theorem proxy_sessions_exclusive:
  assumes "reachable (exec_step proxy_exec) proxy_start s"
  shows "\<not> (listener_at s = L_push \<and> worker_at s = W_sessions) \<and>
    fst (session_round ready ss) =
      map (\<lambda>s. if \<not> processing s \<and> work_pending (fst (ready s)) (snd (ready s)) s then start_processing s else s)
        [s \<leftarrow> ss. processing s \<or> session_bool s] \<and>
    snd (session_round ready ss) =
      length [s \<leftarrow> ss. \<not> processing s \<and> session_bool s \<and> work_pending (fst (ready s)) (snd (ready s)) s]"
  using proxy_mutex.at_most_one [OF assms, of 0 1] session_round_split [of ready ss]
  by (auto simp: proxy_inside_def)

definition proxy_handover :: "proxy_label list" where
  "proxy_handover =
     [Listener, Listener, Worker [] [], Worker [] [], Worker [] [], Listener, Listener]"

lemma proxy_handover_run:
  "run_schedule proxy_exec proxy_handover proxy_start = Some
     \<lparr>stop = False, new_connection = True, worker_on_hold = True, session_mtx = Some 0,
      listener_at = L_push, worker_at = W_lock, sessions = [], accepted = 0, in_process = [], destructed = False\<rparr>"
  by (simp add: proxy_handover_def proxy_start_def proxy_defs)

theorem proxy_sessions_exclusive_witness:
  "fst (session_round (\<lambda>_. (1, 0)) [example_session 0]) = [example_session 0]"
  using proxy_sessions_exclusive [OF run_schedule_reachable [OF proxy_handover_run], of "\<lambda>_. (1, 0)" "[example_session 0]"]
  by (simp add: example_session_def)









end
