(* ===== verification/Plugin.thy ===== *)
theory Plugin
  imports Ordered_Set "HOL-Library.Product_Lexorder"
begin

section \<open>The plugin loader\<close>

text \<open>
  Models \<^verbatim>\<open>plugin/libplugin.hpp\<close> and \<^verbatim>\<open>libplugin.cpp\<close>: versions, identities, the iterator over the plugins
  of a directory and the loader with its map of plugins. The file system and the dynamic linker are
  the record \<open>system\<close>: the entries of each directory (none when it cannot be read, which throws), the
  files that exist, and what each file is as a shared library. The state of the linker is the list of
  open handles, one entry per \<^verbatim>\<open>dlopen\<close> without its \<^verbatim>\<open>dlclose\<close>, and whether an error is pending.
  \<^verbatim>\<open>dlerror\<close> is documented to answer the errors since it was last called; the C library at hand forgets
  the error as soon as another call succeeds. \<open>sticky\<close> says which of the two holds. Messages to
  \<^verbatim>\<open>stderr\<close> are left out. The map is undefined behaviour where its comparison is not a strict weak
  ordering of the keys at hand.
\<close>

subsection \<open>Version and Identity\<close>

datatype version = Version (major: int) (minor: int) (patch: int)

definition version_eq :: "version \<Rightarrow> version \<Rightarrow> bool" where
  "version_eq v rhs \<longleftrightarrow> major v = major rhs \<and> minor v = minor rhs \<and> patch v = patch rhs"

definition version_less :: "version \<Rightarrow> version \<Rightarrow> bool" where
  "version_less v rhs =
     (if major v < major rhs then True
      else if major v > major rhs then False
      else if minor v < minor rhs then True
      else if minor v > minor rhs then False
      else patch v < patch rhs)"

definition version_greater :: "version \<Rightarrow> version \<Rightarrow> bool" where
  "version_greater v rhs \<longleftrightarrow> \<not> version_eq v rhs \<and> \<not> version_less v rhs"

definition version_string :: "version \<Rightarrow> string" where
  "version_string v =
     string_of_int (major v) @ ''.'' @ string_of_int (minor v) @ ''.'' @ string_of_int (patch v)"

definition version_neq :: "version \<Rightarrow> version \<Rightarrow> bool" where
  "version_neq v rhs \<longleftrightarrow> \<not> version_eq v rhs"

text \<open>The copy constructor and the assignment of versions and of identities take every field.\<close>

definition version_copy :: "version \<Rightarrow> version" where
  "version_copy rhs = Version (major rhs) (minor rhs) (patch rhs)"

definition version_assign :: "version \<Rightarrow> version \<Rightarrow> version" where
  "version_assign rhs v = Version (major rhs) (minor rhs) (patch rhs)"

record identity =
  name :: string
  name_space :: string
  version :: version
  id_path :: string

definition identity_new :: "string \<Rightarrow> string \<Rightarrow> version \<Rightarrow> identity" where
  "identity_new ns n v = \<lparr>name = n, name_space = ns, version = v, id_path = []\<rparr>"

definition identity_eq :: "identity \<Rightarrow> identity \<Rightarrow> bool" where
  "identity_eq i rhs \<longleftrightarrow> name i = name rhs \<and> name_space i = name_space rhs \<and> version_eq (version i) (version rhs)"

definition identity_neq :: "identity \<Rightarrow> identity \<Rightarrow> bool" where
  "identity_neq i rhs \<longleftrightarrow> \<not> identity_eq i rhs"

definition identity_copy :: "identity \<Rightarrow> identity" where
  "identity_copy rhs =
     \<lparr>name = name rhs, name_space = name_space rhs, version = version_copy (version rhs), id_path = id_path rhs\<rparr>"

definition identity_assign :: "identity \<Rightarrow> identity \<Rightarrow> identity" where
  "identity_assign rhs i =
     i\<lparr>name := name rhs, name_space := name_space rhs, version := version_assign (version rhs) (version i),
       id_path := id_path rhs\<rparr>"

lemma copies_same [simp]:
  "version_copy v = v" "version_assign v v' = v" "identity_copy i = i" "identity_assign i i' = i"
  by (cases v; simp add: version_copy_def version_assign_def identity_copy_def identity_assign_def)+

definition identity_less :: "identity \<Rightarrow> identity \<Rightarrow> bool" where
  "identity_less i rhs \<longleftrightarrow>
     name i < name rhs \<or> name_space i < name_space rhs \<or> version_less (version i) (version rhs)"

definition identity_string :: "identity \<Rightarrow> string" where
  "identity_string i = name_space i @ '':'' @ name i @ '' '' @ version_string (version i)"

subsection \<open>The file system and the dynamic linker\<close>

record library =
  lib_plugin_id :: "identity option"
  lib_plugin_instance :: "bool option"

text \<open>What the macro \<^verbatim>\<open>DEFINE_PLUGIN_ENTRY\<close> puts into a library.\<close>

definition define_plugin_entry :: "string \<Rightarrow> string \<Rightarrow> version \<Rightarrow> library" where
  "define_plugin_entry n ns v =
     \<lparr>lib_plugin_id = Some (identity_new ns n v), lib_plugin_instance = Some True\<rparr>"

record dir_entry =
  entry_path :: string
  is_regular_file :: bool
  is_symlink :: bool
  entry_exists :: bool
  link_target :: string

record system =
  cwd :: string
  dir_entries :: "string \<Rightarrow> dir_entry list option"
  file_exists :: "string \<Rightarrow> bool"
  lib :: "string \<Rightarrow> library option"
  sticky :: bool

record linker =
  handles :: "string list"
  pending :: bool

definition dl_ok :: "system \<Rightarrow> linker \<Rightarrow> linker" where
  "dl_ok sys d = d\<lparr>pending := (sticky sys \<and> pending d)\<rparr>"

definition dlopen :: "system \<Rightarrow> string \<Rightarrow> linker \<Rightarrow> library option \<times> linker" where
  "dlopen sys p d =
     (case lib sys p of
        None \<Rightarrow> (None, d\<lparr>pending := True\<rparr>)
      | Some l \<Rightarrow> (Some l, (dl_ok sys d)\<lparr>handles := p # handles d\<rparr>))"

definition dlsym :: "system \<Rightarrow> 'a option \<Rightarrow> linker \<Rightarrow> linker" where
  "dlsym sys symbol d = (if symbol = None then d\<lparr>pending := True\<rparr> else dl_ok sys d)"

definition dlerror :: "linker \<Rightarrow> bool \<times> linker" where
  "dlerror d = (pending d, d\<lparr>pending := False\<rparr>)"

definition dlclose :: "system \<Rightarrow> string \<Rightarrow> linker \<Rightarrow> linker" where
  "dlclose sys p d = (dl_ok sys d)\<lparr>handles := remove1 p (handles d)\<rparr>"

subsection \<open>Loader::Iterator\<close>

record iter =
  dir :: string
  filter_space :: string
  rest :: "dir_entry list"
  current :: identity

datatype plugin_error = Filesystem_error | Undefined

definition entry_file :: "dir_entry \<Rightarrow> string option" where
  "entry_file e =
     (if is_regular_file e then Some (entry_path e)
      else if is_symlink e \<and> entry_exists e then Some (link_target e)
      else None)"

text \<open>The inner block of \<^verbatim>\<open>next\<close>, on an open library: the identity when it is a plugin to stop at.\<close>

definition probe :: "system \<Rightarrow> string \<Rightarrow> string \<Rightarrow> library \<Rightarrow> linker \<Rightarrow> identity option \<times> linker" where
  "probe sys ns entry l d =
     (let d = dlsym sys (lib_plugin_id l) d in
      case lib_plugin_id l of
        None \<Rightarrow> (None, d)
      | Some pid \<Rightarrow>
          (case dlerror d of (error, d) \<Rightarrow>
             if error then (None, d)
             else if ns \<noteq> [] \<and> name_space pid \<noteq> ns then (None, d)
             else (Some (pid\<lparr>id_path := entry\<rparr>), d)))"

fun iter_scan ::
    "system \<Rightarrow> string \<Rightarrow> dir_entry list \<Rightarrow> linker \<Rightarrow> dir_entry list \<times> identity option \<times> linker" where
  "iter_scan sys ns [] d = ([], None, d)"
| "iter_scan sys ns (e # es) d =
     (case entry_file e of
        None \<Rightarrow> iter_scan sys ns es d
      | Some entry \<Rightarrow>
          if \<not> str_contains entry ''.so'' then iter_scan sys ns es d
          else (case dlopen sys entry d of
              (None, d) \<Rightarrow> iter_scan sys ns es (snd (dlerror d))
            | (Some l, d) \<Rightarrow>
                (case probe sys ns entry l d of
                   (None, d) \<Rightarrow> iter_scan sys ns es (dlclose sys entry d)
                 | (Some pid, d) \<Rightarrow> (e # es, Some pid, dlclose sys entry d))))"

definition iter_next :: "system \<Rightarrow> iter \<Rightarrow> linker \<Rightarrow> iter \<times> linker" where
  "iter_next sys it d =
     (if dir it = [] then (it, d)
      else case iter_scan sys (filter_space it) (rest it) d of
        (es, None, d) \<Rightarrow> (it\<lparr>rest := es\<rparr>, d)
      | (es, Some pid, d) \<Rightarrow> (it\<lparr>rest := es, current := pid\<rparr>, d))"

definition iter_new :: "system \<Rightarrow> string \<Rightarrow> string \<Rightarrow> bool \<Rightarrow> linker \<Rightarrow> plugin_error + (iter \<times> linker)" where
  "iter_new sys path ns at_end d =
     (let p = (if path = [] then cwd sys else path) in
      case dir_entries sys p of
        None \<Rightarrow> Inl Filesystem_error
      | Some es \<Rightarrow>
          let it = \<lparr>dir = p, filter_space = ns, rest = (if at_end then [] else es),
                    current = identity_new ns '''' (Version 1 0 0)\<rparr>
          in Inr (if path \<noteq> [] then iter_next sys it d else (it, d)))"

definition iter_incr :: "system \<Rightarrow> iter \<Rightarrow> linker \<Rightarrow> iter \<times> linker" where
  "iter_incr sys it d =
     (if dir it \<noteq> [] \<and> rest it \<noteq> [] then iter_next sys (it\<lparr>rest := tl (rest it)\<rparr>) d else (it, d))"

text \<open>
  An iterator cannot be copied, and two directory iterators made by different calls are equal only when
  both are at the end.
\<close>

definition iter_eq :: "iter \<Rightarrow> iter \<Rightarrow> bool" where
  "iter_eq it rhs \<longleftrightarrow> rest it = [] \<and> rest rhs = []"

definition iter_neq :: "iter \<Rightarrow> iter \<Rightarrow> bool" where
  "iter_neq it rhs \<longleftrightarrow> \<not> iter_eq it rhs"

definition iter_deref :: "iter \<Rightarrow> identity" where
  "iter_deref it = current it"

lemma iter_scan_rest: "iter_scan sys ns es d = (es', x, d') \<Longrightarrow> length es' \<le> length es"
proof (induction sys ns es d rule: iter_scan.induct)
  case (2 sys ns e es d)
  then show ?case
    by (fastforce split: option.splits if_splits prod.splits)
qed simp

lemma iter_next_rest: "iter_next sys it d = (it', d') \<Longrightarrow> length (rest it') \<le> length (rest it)"
  by (auto simp: iter_next_def dest: iter_scan_rest split: if_splits prod.splits option.splits)

lemma iter_incr_rest:
  assumes "rest it \<noteq> []" "dir it \<noteq> []"
  shows "length (rest (fst (iter_incr sys it d))) < length (rest it)"
proof -
  obtain it' d' where i: "iter_next sys (it\<lparr>rest := tl (rest it)\<rparr>) d = (it', d')" by fastforce
  from iter_next_rest [OF i] assms i show ?thesis by (cases "rest it") (auto simp: iter_incr_def)
qed

lemma iter_incr_rest_eq:
  "(it', d') = iter_incr sys it d \<Longrightarrow> rest it \<noteq> [] \<Longrightarrow> dir it \<noteq> [] \<Longrightarrow> length (rest it') < length (rest it)"
  using iter_incr_rest [of it sys d] by (metis fst_conv)

end
