(* ===== verification/Plugin_Loader.thy ===== *)
theory Plugin_Loader
  imports Plugin
begin

section \<open>The loader\<close>

text \<open>
  The operations of \<^verbatim>\<open>Loader\<close>. An instance is known by the library that made it; the linker answers
  the same handle for the same file, so a handle is the path. The map is the list of its entries in
  the order of iteration.
\<close>

record inst =
  made_by :: string
  handle :: string

record loader =
  current_path :: string
  plugins :: "(identity \<times> inst) list"

definition loader_new :: loader where
  "loader_new = \<lparr>current_path = [], plugins = []\<rparr>"

definition loader_begin ::
    "system \<Rightarrow> string \<Rightarrow> string \<Rightarrow> loader \<Rightarrow> linker \<Rightarrow> plugin_error + (iter \<times> loader \<times> linker)" where
  "loader_begin sys path ns l d =
     (case iter_new sys path ns False d of
        Inl e \<Rightarrow> Inl e
      | Inr (it, d) \<Rightarrow> Inr (it, l\<lparr>current_path := path\<rparr>, d))"

definition loader_end :: "system \<Rightarrow> loader \<Rightarrow> linker \<Rightarrow> plugin_error + (iter \<times> linker)" where
  "loader_end sys l d = iter_new sys (current_path l) '''' True d"

definition map_defined :: "identity \<Rightarrow> loader \<Rightarrow> bool" where
  "map_defined i l \<longleftrightarrow> strict_weak_on identity_less (i # map fst (plugins l))"

definition entry_less :: "identity \<times> inst \<Rightarrow> identity \<times> inst \<Rightarrow> bool" where
  "entry_less a b \<longleftrightarrow> identity_less (fst a) (fst b)"

definition no_inst :: inst where
  "no_inst = \<lparr>made_by = [], handle = []\<rparr>"

definition plugins_find :: "identity \<Rightarrow> loader \<Rightarrow> (identity \<times> inst) option" where
  "plugins_find i l = sorted_find entry_less (i, no_inst) (plugins l)"

definition is_loaded :: "identity \<Rightarrow> loader \<Rightarrow> plugin_error + bool" where
  "is_loaded i l = (if map_defined i l then Inr (plugins_find i l \<noteq> None) else Inl Undefined)"

text \<open>
  The search of \<^verbatim>\<open>import\<close> through a directory: the path of the first plugin with the identity. Every
  turn compares with a new \<^verbatim>\<open>end()\<close>, which reads the directory again. The search has to move on: it would
  not when the directory had no name, and the working directory always has one.
\<close>

function find_plugin ::
    "system \<Rightarrow> identity \<Rightarrow> loader \<Rightarrow> iter \<Rightarrow> linker \<Rightarrow> plugin_error + (string \<times> linker)" where
  "find_plugin sys i l it d =
     (case loader_end sys l d of
        Inl e \<Rightarrow> Inl e
      | Inr (it_end, d) \<Rightarrow>
          if iter_eq it it_end then Inr ([], d)
          else if identity_eq (current it) i then Inr (id_path (current it), d)
          else if dir it = [] \<or> rest it = [] then Inl Undefined
          else case iter_incr sys it d of (it, d) \<Rightarrow> find_plugin sys i l it d)"
  by pat_completeness auto
termination
  by (relation "measure (\<lambda>(sys, i, l, it, d). length (rest it))") (auto simp: case_prod_beta iter_incr_rest)

declare find_plugin.simps [simp del]

text \<open>The part of \<^verbatim>\<open>import\<close> that works on the open library; the second component is the instance.\<close>

definition import_lib ::
    "system \<Rightarrow> identity \<Rightarrow> string \<Rightarrow> library \<Rightarrow> loader \<Rightarrow> linker \<Rightarrow> inst option \<times> loader \<times> linker" where
  "import_lib sys i path lb l d =
     (let d = dlsym sys (lib_plugin_id lb) d in
      case lib_plugin_id lb of
        None \<Rightarrow> (None, l, dlclose sys path d)
      | Some lib_id \<Rightarrow>
          (case dlerror d of (error, d) \<Rightarrow>
             if error then (None, l, d)
             else if \<not> identity_eq lib_id i then (None, l, dlclose sys path d)
             else
               let d = dlsym sys (lib_plugin_instance lb) d in
               case lib_plugin_instance lb of
                 None \<Rightarrow> (None, l, dlclose sys path d)
               | Some made \<Rightarrow>
                   (case dlerror d of (error, d) \<Rightarrow>
                      if error then (None, l, dlclose sys path d)
                      else if \<not> made then (None, l, dlclose sys path d)
                      else
                        let n = \<lparr>made_by = path, handle = path\<rparr>
                        in (Some n,
                            l\<lparr>plugins := fst (sorted_emplace entry_less (i, n) (plugins l))\<rparr>, d))))"

text \<open>The two parts of \<^verbatim>\<open>import\<close>: where the plugin is, and loading it from there.\<close>

definition import_search ::
    "system \<Rightarrow> identity \<Rightarrow> string \<Rightarrow> loader \<Rightarrow> linker \<Rightarrow> plugin_error + (string \<times> loader \<times> linker)" where
  "import_search sys i path l d =
     (if id_path i \<noteq> [] then Inr (id_path i, l, d)
      else
        case loader_begin sys (if path = [] then cwd sys else path) [] l d of
          Inl e \<Rightarrow> Inl e
        | Inr (it, l, d) \<Rightarrow>
            (case find_plugin sys i l it d of
               Inl e \<Rightarrow> Inl e
             | Inr (found, d) \<Rightarrow> Inr (found, l, d)))"

definition import_at ::
    "system \<Rightarrow> identity \<Rightarrow> string \<Rightarrow> loader \<Rightarrow> linker \<Rightarrow> plugin_error + (inst option \<times> loader \<times> linker)" where
  "import_at sys i p l d =
     (if p = [] then Inr (None, l, d)
      else case is_loaded i l of
          Inl e \<Rightarrow> Inl e
        | Inr True \<Rightarrow> Inr (None, l, d)
        | Inr False \<Rightarrow>
            if \<not> file_exists sys p then Inr (None, l, d)
            else case dlopen sys p d of
                (None, d) \<Rightarrow> Inr (None, l, snd (dlerror d))
              | (Some lb, d) \<Rightarrow> Inr (import_lib sys i p lb l d))"

definition loader_import ::
    "system \<Rightarrow> identity \<Rightarrow> string \<Rightarrow> loader \<Rightarrow> linker \<Rightarrow> plugin_error + (inst option \<times> loader \<times> linker)" where
  "loader_import sys i path l d =
     (case import_search sys i path l d of
        Inl e \<Rightarrow> Inl e
      | Inr (p, l, d) \<Rightarrow> import_at sys i p l d)"

definition loader_unload :: "system \<Rightarrow> identity \<Rightarrow> loader \<Rightarrow> linker \<Rightarrow> plugin_error + (loader \<times> linker)" where
  "loader_unload sys i l d =
     (if \<not> map_defined i l then Inl Undefined
      else case plugins_find i l of
        None \<Rightarrow> Inr (l, d)
      | Some it \<Rightarrow> Inr (l\<lparr>plugins := remove1 it (plugins l)\<rparr>, dlclose sys (handle (snd it)) d))"

fun unload_loop :: "system \<Rightarrow> (identity \<times> inst) list \<Rightarrow> linker \<Rightarrow> linker" where
  "unload_loop sys [] d = d"
| "unload_loop sys (it # its) d = unload_loop sys its (dlclose sys (handle (snd it)) d)"

definition loader_unload_all :: "system \<Rightarrow> loader \<Rightarrow> linker \<Rightarrow> loader \<times> linker" where
  "loader_unload_all sys l d = (l\<lparr>plugins := []\<rparr>, unload_loop sys (plugins l) d)"

text \<open>
  The destructor, the map for the client, and \<^verbatim>\<open>load\<close> with and without a path. \<^verbatim>\<open>load\<close> returns a weak pointer: the
  plugin lives as long as the map has it, and the pointer is empty when the import failed.
\<close>

definition loader_destroy :: "system \<Rightarrow> loader \<Rightarrow> linker \<Rightarrow> linker" where
  "loader_destroy sys l d = snd (loader_unload_all sys l d)"

definition loader_plugins :: "loader \<Rightarrow> (identity \<times> inst) list" where
  "loader_plugins l = plugins l"

definition load_from ::
    "system \<Rightarrow> identity \<Rightarrow> string \<Rightarrow> loader \<Rightarrow> linker \<Rightarrow> plugin_error + (inst option \<times> loader \<times> linker)" where
  "load_from sys i path l d = loader_import sys i path l d"

definition load_plugin ::
    "system \<Rightarrow> identity \<Rightarrow> loader \<Rightarrow> linker \<Rightarrow> plugin_error + (inst option \<times> loader \<times> linker)" where
  "load_plugin sys i l d = loader_import sys i [] l d"

text \<open>A client: the calls that change the loader or the linker.\<close>

datatype plugin_call =
  Begin string string | Load identity string | Unload identity | Unload_all

definition plugin_exec ::
    "system \<Rightarrow> plugin_call \<Rightarrow> loader \<times> linker \<Rightarrow> plugin_error + (loader \<times> linker)" where
  "plugin_exec sys c = (\<lambda>(l, d).
     case c of
       Begin path ns \<Rightarrow>
         (case loader_begin sys path ns l d of Inl e \<Rightarrow> Inl e | Inr (it, l, d) \<Rightarrow> Inr (l, d))
     | Load i path \<Rightarrow>
         (case loader_import sys i path l d of Inl e \<Rightarrow> Inl e | Inr (n, l, d) \<Rightarrow> Inr (l, d))
     | Unload i \<Rightarrow> loader_unload sys i l d
     | Unload_all \<Rightarrow> Inr (loader_unload_all sys l d))"

fun plugin_run ::
    "system \<Rightarrow> plugin_call list \<Rightarrow> loader \<times> linker \<Rightarrow> plugin_error + (loader \<times> linker)" where
  "plugin_run sys [] s = Inr s"
| "plugin_run sys (c # cs) s =
     (case plugin_exec sys c s of Inl e \<Rightarrow> Inl e | Inr s \<Rightarrow> plugin_run sys cs s)"

text \<open>
  The program \<^verbatim>\<open>plugin/app.cpp\<close>: it goes through the plugins of the working directory and loads each of
  them. What it prints is the list of lines; the loader's destructor unloads everything at the end.
\<close>

datatype app_line =
  Found string string | Already_loaded string | Loading string | Calling string | Failed_to_instantiate

definition plugin_foo :: "int \<Rightarrow> string" where
  "plugin_foo arg = ''MyAppPlugin.foo('' @ string_of_int arg @ '')''"

definition app_visit ::
    "system \<Rightarrow> identity \<Rightarrow> loader \<Rightarrow> linker \<Rightarrow> plugin_error + (app_line list \<times> loader \<times> linker)" where
  "app_visit sys i l d =
     (let found = Found (identity_string i) (id_path i) in
      case is_loaded i l of
        Inl e \<Rightarrow> Inl e
      | Inr True \<Rightarrow> Inr ([found, Already_loaded (identity_string i)], l, d)
      | Inr False \<Rightarrow>
          (case loader_import sys i [] l d of
             Inl e \<Rightarrow> Inl e
           | Inr (Some n, l, d) \<Rightarrow> Inr ([found, Loading (identity_string i), Calling (plugin_foo 5)], l, d)
           | Inr (None, l, d) \<Rightarrow> Inr ([found, Loading (identity_string i), Failed_to_instantiate], l, d)))"

function app_loop ::
    "system \<Rightarrow> iter \<Rightarrow> loader \<Rightarrow> linker \<Rightarrow> plugin_error + (app_line list \<times> loader \<times> linker)" where
  "app_loop sys it l d =
     (case loader_end sys l d of
        Inl e \<Rightarrow> Inl e
      | Inr (it_end, d) \<Rightarrow>
          if iter_eq it it_end then Inr ([], l, d)
          else if dir it = [] \<or> rest it = [] then Inl Undefined
          else
            (case app_visit sys (current it) l d of
               Inl e \<Rightarrow> Inl e
             | Inr (lines, l, d) \<Rightarrow>
                 (case iter_incr sys it d of (it, d) \<Rightarrow>
                    (case app_loop sys it l d of
                       Inl e \<Rightarrow> Inl e
                     | Inr (later, l, d) \<Rightarrow> Inr (lines @ later, l, d)))))"
  by pat_completeness auto
termination
  by (relation "measure (\<lambda>(sys, it, l, d). length (rest it))") (auto dest: iter_incr_rest_eq)

declare app_loop.simps [simp del]

definition app_main :: "system \<Rightarrow> linker \<Rightarrow> plugin_error + (app_line list \<times> loader \<times> linker)" where
  "app_main sys d =
     (case loader_begin sys (cwd sys) [] loader_new d of
        Inl e \<Rightarrow> Inl e
      | Inr (it, l, d) \<Rightarrow>
          (case app_loop sys it l d of
             Inl e \<Rightarrow> Inl e
           | Inr (lines, l, d) \<Rightarrow> Inr (lines, loader_unload_all sys l d)))"

end
