(* ===== verification/Plugin_Properties.thy ===== *)
theory Plugin_Properties
  imports Plugin_Loader
begin

section \<open>What the plugin loader promises\<close>

subsection \<open>The order of identities\<close>

instantiation version :: linorder
begin

definition less_version :: "version \<Rightarrow> version \<Rightarrow> bool" where
  "less_version = version_less"

definition less_eq_version :: "version \<Rightarrow> version \<Rightarrow> bool" where
  "less_eq_version v w \<longleftrightarrow> v = w \<or> version_less v w"

instance
  by intro_classes (auto simp: less_version_def less_eq_version_def version_less_def version.expand split: if_splits)

end

lemma version_eq_iff: "version_eq v w \<longleftrightarrow> v = w"
  by (cases v; cases w) (simp add: version_eq_def)

text \<open>In every component at most: names, name spaces and versions do not go in opposite directions.\<close>

definition identity_below :: "identity \<Rightarrow> identity \<Rightarrow> bool" where
  "identity_below i j \<longleftrightarrow> name i \<le> name j \<and> name_space i \<le> name_space j \<and> version i \<le> version j"

definition plug_key :: "identity \<Rightarrow> string \<times> string \<times> version" where
  "plug_key i = (name i, name_space i, version i)"

lemma identity_eq_key: "identity_eq i j \<longleftrightarrow> plug_key i = plug_key j"
  by (auto simp: identity_eq_def plug_key_def version_eq_iff)

lemma identity_less_below: "identity_less i j \<longleftrightarrow> \<not> identity_below j i"
  by (auto simp: identity_less_def identity_below_def simp flip: less_version_def)

lemma below_key: "identity_below i j \<Longrightarrow> plug_key i \<le> plug_key j"
  by (auto simp: identity_below_def plug_key_def less_eq_prod_def less_le)

lemma below_refl: "identity_below i i"
  by (simp add: identity_below_def)

lemma below_antisym: "identity_below i j \<Longrightarrow> identity_below j i \<Longrightarrow> plug_key i = plug_key j"
  by (auto simp: identity_below_def plug_key_def)

lemma below_key_iff:
  assumes "identity_below x y \<or> identity_below y x"
  shows "identity_less x y \<longleftrightarrow> plug_key x < plug_key y"
proof
  assume "identity_less x y"
  then have "\<not> identity_below y x" by (simp add: identity_less_below)
  with assms have "identity_below x y" by simp
  then have "plug_key x \<le> plug_key y" by (rule below_key)
  moreover have "plug_key x \<noteq> plug_key y"
    using \<open>\<not> identity_below y x\<close> by (auto simp: plug_key_def identity_below_def)
  ultimately show "plug_key x < plug_key y" by simp
next
  assume "plug_key x < plug_key y"
  then show "identity_less x y" using below_key [of y x] by (auto simp: identity_less_below)
qed

lemma chain_strict_weak:
  "strict_weak_on identity_less is \<longleftrightarrow> (\<forall>i \<in> set is. \<forall>j \<in> set is. identity_below i j \<or> identity_below j i)"
proof
  assume "strict_weak_on identity_less is"
  then have "\<not> (identity_less i j \<and> identity_less j i)" if "i \<in> set is" "j \<in> set is" for i j
    using that unfolding strict_weak_on_def by meson
  then show "\<forall>i \<in> set is. \<forall>j \<in> set is. identity_below i j \<or> identity_below j i"
    by (auto simp: identity_less_below)
next
  assume chain: "\<forall>i \<in> set is. \<forall>j \<in> set is. identity_below i j \<or> identity_below j i"
  then have key: "identity_less i j \<longleftrightarrow> plug_key i < plug_key j" if "i \<in> set is" "j \<in> set is" for i j
    using that below_key_iff by blast
  then show "strict_weak_on identity_less is"
    unfolding strict_weak_on_def equivalent_def by (auto 0 3)
qed

text \<open>
  C24: \<^verbatim>\<open>Version::operator<\<close> is the lexicographic order and \<^verbatim>\<open>operator>\<close> its converse. \<^verbatim>\<open>Identity::operator<\<close>,
  which joins the comparisons of the components with "or", is a strict weak ordering of a group of
  identities, as \<^verbatim>\<open>std::map\<close> requires, exactly when any two of them are ordered the same way in name,
  name space and version.
\<close>

theorem plugin_order:
  "(version_less v w \<longleftrightarrow> (major v, minor v, patch v) < (major w, minor w, patch w)) \<and>
   (version_greater v w \<longleftrightarrow> version_less w v) \<and>
   (strict_weak_on identity_less is \<longleftrightarrow>
      (\<forall>i \<in> set is. \<forall>j \<in> set is. identity_below i j \<or> identity_below j i))"
proof (intro conjI)
  show "version_less v w \<longleftrightarrow> (major v, minor v, patch v) < (major w, minor w, patch w)"
    by (auto simp: version_less_def)
  show "version_greater v w \<longleftrightarrow> version_less w v"
    by (simp add: version_greater_def version_eq_iff flip: less_version_def) auto
qed (rule chain_strict_weak)

text \<open>Two plugins of one name, the newer in another name space, and two that contradict each other.\<close>

theorem plugin_order_witness:
  "strict_weak_on identity_less
     [identity_new ''ui'' ''audio'' (Version 1 0 0), identity_new ''ui'' ''video'' (Version 1 2 0)] \<and>
   \<not> strict_weak_on identity_less
     [identity_new ''ui'' ''audio'' (Version 2 0 0), identity_new ''ui'' ''video'' (Version 1 2 0)]"
  by (simp add: plugin_order identity_new_def identity_below_def less_eq_version_def version_less_def
      less_eq_list_code less_eq_char_def)

subsection \<open>The map of plugins\<close>

definition key_less :: "identity \<times> inst \<Rightarrow> identity \<times> inst \<Rightarrow> bool" where
  "key_less a b \<longleftrightarrow> plug_key (fst a) < plug_key (fst b)"

interpretation plugin_map: strict_weak key_less
  using strict_weak_key [of "\<lambda>a. plug_key (fst a)"] by (simp add: key_less_def [abs_def])

lemma equivalent_key: "equivalent key_less a b \<longleftrightarrow> plug_key (fst a) = plug_key (fst b)"
  by (auto simp: equivalent_def key_less_def)

lemma sorted_emplace_cong:
  "(\<And>y. y \<in> set ys \<Longrightarrow> (lt x y = lt' x y) \<and> (lt y x = lt' y x)) \<Longrightarrow> sorted_emplace lt x ys = sorted_emplace lt' x ys"
  by (induction ys) auto

lemma map_defined_key:
  assumes "map_defined i l" "p \<in> set (plugins l)"
  shows "entry_less (i, n) p = key_less (i, n) p" "entry_less p (i, n) = key_less p (i, n)"
proof -
  have "identity_below i (fst p) \<or> identity_below (fst p) i"
    using assms unfolding map_defined_def chain_strict_weak by simp
  then show "entry_less (i, n) p = key_less (i, n) p" "entry_less p (i, n) = key_less p (i, n)"
    by (auto simp: entry_less_def key_less_def below_key_iff)
qed

lemma entry_emplace:
  "map_defined i l \<Longrightarrow> sorted_emplace entry_less (i, n) (plugins l) = sorted_emplace key_less (i, n) (plugins l)"
  by (intro sorted_emplace_cong conjI map_defined_key)

lemma find_same: "(\<And>x. x \<in> set xs \<Longrightarrow> P x = Q x) \<Longrightarrow> find P xs = find Q xs"
  by (induction xs) auto

lemma plugins_find_key:
  "map_defined i l \<Longrightarrow> plugins_find i l = sorted_find key_less (i, no_inst) (plugins l)"
  unfolding plugins_find_def sorted_find_def
  by (intro find_same) (simp add: equivalent_def map_defined_key)

lemma is_loaded_iff:
  "map_defined i l \<Longrightarrow> is_loaded i l = Inr (plug_key i \<in> (plug_key \<circ> fst) ` set (plugins l))"
proof -
  assume d: "map_defined i l"
  then have "plugins_find i l = None \<longleftrightarrow> plug_key i \<notin> (plug_key \<circ> fst) ` set (plugins l)"
    by (auto simp: plugins_find_key plugin_map.find_None equivalent_key)
  with d show ?thesis by (simp add: is_loaded_def)
qed

lemma emplace_new:
  assumes "map_defined i l" "sorted_wrt key_less (plugins l)" "is_loaded i l = Inr False"
  obtains zs where "sorted_emplace entry_less (i, n) (plugins l) = (zs, (i, n), True)" "sorted_wrt key_less zs"
    "mset zs = add_mset (i, n) (mset (plugins l))"
proof -
  obtain zs it b where e: "sorted_emplace key_less (i, n) (plugins l) = (zs, it, b)"
    using prod_cases3 by blast
  have b: b
  proof (rule ccontr)
    assume "\<not> b"
    with e plugin_map.emplace_finds [of "(i, n)" "plugins l" zs it]
    have "it \<in> set (plugins l)" "plug_key i = plug_key (fst it)" by (auto simp: equivalent_key)
    with assms(1,3) show False by (auto simp: is_loaded_iff)
  qed
  note z = plugin_map.emplace_inserts [OF assms(2), of "(i, n)" zs it]
  from z e b have "set zs = insert (i, n) (set (plugins l))" "it = (i, n)" "sorted_wrt key_less zs"
    and new: "(i, n) \<notin> set (plugins l)"
    by (auto simp: plugin_map.equiv_refl)
  moreover from this have "mset zs = add_mset (i, n) (mset (plugins l))"
    using plugin_map.sorted_distinct [of zs] plugin_map.sorted_distinct [OF assms(2)]
    by (simp add: set_eq_iff_mset_eq_distinct [symmetric, of zs "(i, n) # plugins l", simplified] new)
  ultimately show ?thesis using that e b assms(1) by (simp add: entry_emplace)
qed

subsection \<open>Handles\<close>

lemma dl_ok_handles [simp]: "handles (dl_ok sys d) = handles d"
  by (simp add: dl_ok_def)

lemma dlsym_handles [simp]: "handles (dlsym sys x d) = handles d"
  by (simp add: dlsym_def)

lemma dlerror_handles [simp]: "handles (snd (dlerror d)) = handles d"
  by (simp add: dlerror_def)

lemma dlclose_handles [simp]: "handles (dlclose sys p d) = remove1 p (handles d)"
  by (simp add: dlclose_def)

lemma dlopen_handles:
  "dlopen sys p d = (x, d') \<Longrightarrow> handles d' = (if x = None then handles d else p # handles d)"
  by (auto simp: dlopen_def split: option.splits)

lemma probe_handles: "probe sys ns p l d = (x, d') \<Longrightarrow> handles d' = handles d"
  by (auto simp: probe_def dlerror_def Let_def split: option.splits if_splits)

lemma iter_scan_handles: "iter_scan sys ns es d = (es', x, d') \<Longrightarrow> handles d' = handles d"
proof (induction sys ns es d rule: iter_scan.induct)
  case (2 sys ns e es d)
  then show ?case
    by (auto split: option.splits if_splits prod.splits dest!: dlopen_handles probe_handles)
qed simp

lemma iter_next_handles: "iter_next sys it d = (it', d') \<Longrightarrow> handles d' = handles d"
  by (auto simp: iter_next_def dest: iter_scan_handles split: if_splits prod.splits option.splits)

lemma iter_new_handles: "iter_new sys p ns e d = Inr (it, d') \<Longrightarrow> handles d' = handles d"
  by (auto simp: iter_new_def Let_def dest: iter_next_handles split: if_splits option.splits)

lemma iter_incr_handles: "iter_incr sys it d = (it', d') \<Longrightarrow> handles d' = handles d"
  by (auto simp: iter_incr_def dest: iter_next_handles split: if_splits)

lemma find_plugin_handles: "find_plugin sys i l it d = Inr (p, d') \<Longrightarrow> handles d' = handles d"
proof (induction sys i l it d rule: find_plugin.induct)
  case (1 sys i l it d)
  then show ?case
    by (subst (asm) (2) find_plugin.simps)
      (auto simp: loader_end_def split: sum.splits prod.splits if_splits dest!: iter_new_handles iter_incr_handles)
qed

lemma begin_handles: "loader_begin sys p ns l d = Inr (it, l', d') \<Longrightarrow> handles d' = handles d \<and> plugins l' = plugins l"
  by (auto simp: loader_begin_def dest: iter_new_handles split: sum.splits prod.splits)

definition makes :: "system \<Rightarrow> identity \<Rightarrow> string \<Rightarrow> bool" where
  "makes sys i p \<longleftrightarrow>
     (\<exists>lb j. lib sys p = Some lb \<and> lib_plugin_id lb = Some j \<and> identity_eq j i \<and> lib_plugin_instance lb = Some True)"

lemma import_lib_effect:
  assumes "import_lib sys i p lb l d = (n, l', d')" "\<not> sticky sys" "handles d = p # hs" "lib sys p = Some lb"
  shows "n = None \<and> l' = l \<and> handles d' = hs \<or>
    n = Some \<lparr>made_by = p, handle = p\<rparr> \<and> makes sys i p \<and> handles d' = p # hs \<and>
    l' = l\<lparr>plugins := fst (sorted_emplace entry_less (i, \<lparr>made_by = p, handle = p\<rparr>) (plugins l))\<rparr>"
  using assms
  by (auto simp: import_lib_def dlerror_def Let_def makes_def dlsym_def dl_ok_def dlclose_def
      split: option.splits if_splits)

lemma import_search_same:
  "import_search sys i path l d = Inr (p, l', d') \<Longrightarrow> plugins l' = plugins l \<and> handles d' = handles d"
  by (auto simp: import_search_def dest!: begin_handles find_plugin_handles split: if_splits sum.splits prod.splits)

lemma import_at_effect:
  assumes "import_at sys i p l d = Inr (n, l', d')" "\<not> sticky sys"
  shows "n = None \<and> l' = l \<and> handles d' = handles d \<or>
    n = Some \<lparr>made_by = p, handle = p\<rparr> \<and> makes sys i p \<and> handles d' = p # handles d \<and>
      map_defined i l \<and> is_loaded i l = Inr False \<and>
      l' = l\<lparr>plugins := fst (sorted_emplace entry_less (i, \<lparr>made_by = p, handle = p\<rparr>) (plugins l))\<rparr>"
proof (cases "is_loaded i l = Inr False \<and> p \<noteq> [] \<and> file_exists sys p")
  case False
  with assms show ?thesis
    unfolding import_at_def by (cases "is_loaded i l") (auto split: if_splits bool.splits)
next
  case True
  obtain x d2 where o: "dlopen sys p d = (x, d2)" by fastforce
  show ?thesis
  proof (cases x)
    case None
    with True o assms dlopen_handles [OF o] show ?thesis by (auto simp: import_at_def)
  next
    case (Some lb)
    with o have "lib sys p = Some lb" by (auto simp: dlopen_def split: option.splits)
    moreover have "import_lib sys i p lb l d2 = (n, l', d')" using True o assms Some by (simp add: import_at_def)
    moreover have "map_defined i l" using True by (simp add: is_loaded_def split: if_splits)
    ultimately show ?thesis
      using import_lib_effect [OF _ assms(2), of i p lb l d2 n l' d' "handles d"] dlopen_handles [OF o] Some True
      by auto
  qed
qed

lemma import_effect:
  assumes "loader_import sys i path l d = Inr (n, l', d')" "\<not> sticky sys"
  shows "n = None \<and> plugins l' = plugins l \<and> handles d' = handles d \<or>
    (\<exists>p. n = Some \<lparr>made_by = p, handle = p\<rparr> \<and> makes sys i p \<and> handles d' = p # handles d \<and>
      map_defined i l \<and> is_loaded i l = Inr False \<and>
      plugins l' = fst (sorted_emplace entry_less (i, \<lparr>made_by = p, handle = p\<rparr>) (plugins l)))"
proof -
  obtain p l1 d1 where s: "import_search sys i path l d = Inr (p, l1, d1)"
    using assms(1) by (auto simp: loader_import_def split: sum.splits)
  then have "import_at sys i p l1 d1 = Inr (n, l', d')" using assms(1) by (simp add: loader_import_def)
  moreover have same: "plugins l1 = plugins l" "handles d1 = handles d" using import_search_same [OF s] by auto
  moreover from this have "is_loaded i l1 = is_loaded i l" "map_defined i l1 = map_defined i l"
    by (simp_all add: is_loaded_def map_defined_def plugins_find_def)
  ultimately show ?thesis using import_at_effect [OF _ assms(2), of i p l1 d1 n l' d'] by auto
qed

subsection \<open>The invariant of the loader\<close>

definition loader_ok :: "system \<Rightarrow> loader \<times> linker \<Rightarrow> bool" where
  "loader_ok sys = (\<lambda>(l, d).
     sorted_wrt key_less (plugins l) \<and>
     mset (handles d) = image_mset (handle \<circ> snd) (mset (plugins l)) \<and>
     (\<forall>(i, n) \<in> set (plugins l). handle n = made_by n \<and> makes sys i (made_by n)))"

lemma loader_ok_new: "loader_ok sys (loader_new, \<lparr>handles = [], pending = b\<rparr>)"
  by (simp add: loader_ok_def loader_new_def)

lemma import_ok [keeps]:
  assumes "loader_import sys i path l d = Inr (n, l', d')" "\<not> sticky sys" "loader_ok sys (l, d)"
  shows "loader_ok sys (l', d')"
  using import_effect [OF assms(1,2)]
proof (elim disjE exE conjE)
  assume "plugins l' = plugins l" "handles d' = handles d"
  with assms(3) show ?thesis by (simp add: loader_ok_def)
next
  fix p
  assume p: "makes sys i p" "handles d' = p # handles d" "map_defined i l" "is_loaded i l = Inr False"
    "plugins l' = fst (sorted_emplace entry_less (i, \<lparr>made_by = p, handle = p\<rparr>) (plugins l))"
  have "sorted_wrt key_less (plugins l)" using assms(3) by (simp add: loader_ok_def)
  from emplace_new [OF p(3) this p(4)] obtain zs where "plugins l' = zs" "sorted_wrt key_less zs"
    "mset zs = add_mset (i, \<lparr>made_by = p, handle = p\<rparr>) (mset (plugins l))"
    using p(5) by (metis fst_conv)
  moreover from this(3) have "set zs = insert (i, \<lparr>made_by = p, handle = p\<rparr>) (set (plugins l))"
    by (metis set_mset_add_mset_insert set_mset_mset)
  ultimately show ?thesis using assms(3) p(1,2) by (auto simp: loader_ok_def)
qed

lemma sorted_wrt_remove1: "sorted_wrt P xs \<Longrightarrow> sorted_wrt P (remove1 x xs)"
  by (induction xs) (auto dest: notin_set_remove1)

lemma unload_ok [keeps]:
  assumes "loader_unload sys i l d = Inr (l', d')" "loader_ok sys (l, d)"
  shows "loader_ok sys (l', d')"
proof (cases "plugins_find i l")
  case None
  with assms show ?thesis by (auto simp: loader_unload_def split: if_splits)
next
  case (Some it)
  with assms(1) have u: "map_defined i l" "l' = l\<lparr>plugins := remove1 it (plugins l)\<rparr>"
    "d' = dlclose sys (handle (snd it)) d"
    by (auto simp: loader_unload_def split: if_splits)
  then have "it \<in> set (plugins l)"
    using Some plugin_map.find_Some by (fastforce simp: plugins_find_key)
  with u assms(2) show ?thesis
    by (auto simp: loader_ok_def sorted_wrt_remove1 image_mset_Diff dest: notin_set_remove1)
qed

lemma unload_loop_handles: "handles (unload_loop sys its d) = fold remove1 (map (handle \<circ> snd) its) (handles d)"
  by (induction its arbitrary: d) simp_all

lemma fold_remove1_mset: "mset (fold remove1 xs ys) = mset ys - mset xs"
  by (induction xs arbitrary: ys) auto

lemma unload_all_closes:
  assumes "loader_ok sys (l, d)"
  shows "handles (snd (loader_unload_all sys l d)) = []"
proof -
  have "mset (handles (snd (loader_unload_all sys l d))) = {#}"
    using assms by (simp add: loader_unload_all_def unload_loop_handles fold_remove1_mset loader_ok_def)
  then show ?thesis by simp
qed

lemma exec_ok [keeps]:
  assumes "plugin_exec sys c s = Inr s'" "\<not> sticky sys" "loader_ok sys s"
  shows "loader_ok sys s'"
proof -
  obtain l d where s: "s = (l, d)" by fastforce
  obtain l' d' where s': "s' = (l', d')" by fastforce
  show ?thesis
  proof (cases c)
    case (Begin path ns)
    with assms show ?thesis
      by (auto simp: plugin_exec_def s s' loader_ok_def dest!: begin_handles split: sum.splits prod.splits)
  next
    case (Load i path)
    with assms show ?thesis by (auto simp: plugin_exec_def s s' intro: import_ok split: sum.splits prod.splits)
  next
    case (Unload i)
    with assms show ?thesis by (auto simp: plugin_exec_def s s' intro: unload_ok)
  next
    case Unload_all
    with assms unload_all_closes [of sys l d] show ?thesis
      by (auto simp: plugin_exec_def s s' loader_ok_def loader_unload_all_def)
  qed
qed

lemma plugin_run_ok: "plugin_run sys cs s = Inr s' \<Longrightarrow> \<not> sticky sys \<Longrightarrow> loader_ok sys s \<Longrightarrow> loader_ok sys s'"
  by (induction sys cs s rule: plugin_run.induct) (auto intro: exec_ok split: sum.splits)

subsection \<open>Iterating over a directory\<close>

text \<open>The plugins of a directory, in its order, with their paths.\<close>

definition entry_plugin :: "system \<Rightarrow> string \<Rightarrow> dir_entry \<Rightarrow> identity option" where
  "entry_plugin sys ns e =
     (case entry_file e of
        None \<Rightarrow> None
      | Some p \<Rightarrow>
          if \<not> str_contains p ''.so'' then None
          else case lib sys p of
              None \<Rightarrow> None
            | Some lb \<Rightarrow>
                (case lib_plugin_id lb of
                   None \<Rightarrow> None
                 | Some j \<Rightarrow> if ns \<noteq> [] \<and> name_space j \<noteq> ns then None else Some (j\<lparr>id_path := p\<rparr>)))"

definition dir_plugins :: "system \<Rightarrow> string \<Rightarrow> dir_entry list \<Rightarrow> identity list" where
  "dir_plugins sys ns es = List.map_filter (entry_plugin sys ns) es"

lemma dir_plugins_simps [simp]:
  "dir_plugins sys ns [] = []"
  "dir_plugins sys ns (e # es) =
     (case entry_plugin sys ns e of None \<Rightarrow> dir_plugins sys ns es | Some j \<Rightarrow> j # dir_plugins sys ns es)"
  by (simp_all add: dir_plugins_def map_filter_simps split: option.split)

lemma probe_found:
  "\<not> sticky sys \<Longrightarrow> dlopen sys p d = (Some lb, d1) \<Longrightarrow> entry_file e = Some p \<Longrightarrow> str_contains p ''.so'' \<Longrightarrow>
   fst (probe sys ns p lb d1) = entry_plugin sys ns e"
  by (auto simp: probe_def entry_plugin_def dlopen_def dlsym_def dl_ok_def dlerror_def Let_def split: option.splits if_splits)

definition scan_ok :: "system \<Rightarrow> string \<Rightarrow> dir_entry list \<Rightarrow> dir_entry list \<Rightarrow> identity option \<Rightarrow> bool" where
  "scan_ok sys ns es es' x \<longleftrightarrow>
     (case x of
        None \<Rightarrow> es' = [] \<and> dir_plugins sys ns es = []
      | Some j \<Rightarrow> es' \<noteq> [] \<and> dir_plugins sys ns es = j # dir_plugins sys ns (tl es'))"

lemma scan_ok_skip:
  "entry_plugin sys ns e = None \<Longrightarrow> scan_ok sys ns es es' x \<Longrightarrow> scan_ok sys ns (e # es) es' x"
  by (auto simp: scan_ok_def split: option.splits)

lemma iter_scan_plugins:
  "\<not> sticky sys \<Longrightarrow> iter_scan sys ns es d = (es', x, d') \<Longrightarrow> scan_ok sys ns es es' x"
proof (induction sys ns es d rule: iter_scan.induct)
  case (1 sys ns d)
  then show ?case by (auto simp: scan_ok_def)
next
  case (2 sys ns e es d)
  show ?case
  proof (cases "\<exists>p. entry_file e = Some p \<and> str_contains p ''.so''")
    case False
    then have "entry_plugin sys ns e = None" "iter_scan sys ns es d = (es', x, d')"
      using 2(6) by (auto simp: entry_plugin_def split: option.splits)
    with False 2(1,2,5) show ?thesis by (cases "entry_file e") (auto intro: scan_ok_skip)
  next
    case True
    then obtain p where e: "entry_file e = Some p" and so: "str_contains p ''.so''" by blast
    obtain y d1 where o: "dlopen sys p d = (y, d1)" by fastforce
    show ?thesis
    proof (cases y)
      case None
      with o e have "entry_plugin sys ns e = None"
        by (auto simp: entry_plugin_def dlopen_def split: option.splits)
      moreover have "iter_scan sys ns es (snd (dlerror d1)) = (es', x, d')"
        using 2(6) e so o None by simp
      ultimately show ?thesis using 2(3) [OF e _ o [symmetric] None 2(5)] so by (auto intro: scan_ok_skip)
    next
      case (Some lb)
      obtain z d2 where p: "probe sys ns p lb d1 = (z, d2)" by fastforce
      with probe_found [OF 2(5), of p d lb d1 e ns] have z: "z = entry_plugin sys ns e"
        using o e so Some by simp
      show ?thesis
      proof (cases z)
        case None
        then have "iter_scan sys ns es (dlclose sys p d2) = (es', x, d')"
          using 2(6) e so o p Some by simp
        with 2(4) [OF e _ o [symmetric] Some p [symmetric] None 2(5)] so z None show ?thesis
          by (auto intro: scan_ok_skip)
      next
        case (Some j)
        then have "x = Some j" "es' = e # es" using 2(6) e so o p \<open>y = Some lb\<close> by auto
        with Some z show ?thesis by (simp add: scan_ok_def)
      qed
    qed
  qed
qed

definition iter_left :: "system \<Rightarrow> iter \<Rightarrow> identity list" where
  "iter_left sys it =
     (if rest it = [] then [] else current it # dir_plugins sys (filter_space it) (tl (rest it)))"

lemma iter_next_left:
  "\<not> sticky sys \<Longrightarrow> dir it \<noteq> [] \<Longrightarrow> iter_next sys it d = (it', d') \<Longrightarrow>
   dir it' = dir it \<and> iter_left sys it' = dir_plugins sys (filter_space it) (rest it)"
  by (auto simp: iter_next_def iter_left_def scan_ok_def dest!: iter_scan_plugins split: prod.splits option.splits)

lemma iter_new_left:
  assumes "\<not> sticky sys" "p \<noteq> []" "dir_entries sys p = Some es"
  shows "\<exists>it d'. iter_new sys p ns False d = Inr (it, d') \<and> dir it \<noteq> [] \<and> iter_left sys it = dir_plugins sys ns es"
proof -
  let ?it = "\<lparr>dir = p, filter_space = ns, rest = es, current = identity_new ns [] (Version 1 0 0)\<rparr>"
  obtain it d' where n: "iter_next sys ?it d = (it, d')" by fastforce
  with iter_next_left [OF assms(1) _ n] assms show ?thesis by (simp add: iter_new_def)
qed

lemma iter_incr_left:
  "\<not> sticky sys \<Longrightarrow> dir it \<noteq> [] \<Longrightarrow> rest it \<noteq> [] \<Longrightarrow> iter_incr sys it d = (it', d') \<Longrightarrow>
   dir it' = dir it \<and> iter_left sys it' = tl (iter_left sys it)"
  using iter_next_left [of sys "it\<lparr>rest := tl (rest it)\<rparr>" d it' d']
  by (simp add: iter_incr_def iter_left_def [of sys it])

lemma loader_end_at_end:
  "dir_entries sys (current_path l) = Some es \<Longrightarrow> current_path l \<noteq> [] \<Longrightarrow>
   \<exists>it. loader_end sys l d = Inr (it, d) \<and> rest it = []"
  by (simp add: loader_end_def iter_new_def iter_next_def Let_def)


lemma iter_left_current: "rest it \<noteq> [] \<Longrightarrow> current it = hd (iter_left sys it)"
  by (simp add: iter_left_def)

text \<open>The search of \<^verbatim>\<open>import\<close> finds the first plugin of the directory with the identity.\<close>

lemma find_plugin_first:
  assumes "\<not> sticky sys" "dir_entries sys (current_path l) = Some es" "current_path l \<noteq> []" "dir it \<noteq> []"
  shows "\<exists>d'. find_plugin sys i l it d =
    Inr (case find (\<lambda>j. identity_eq j i) (iter_left sys it) of None \<Rightarrow> [] | Some j \<Rightarrow> id_path j, d')"
  using assms
proof (induction sys i l it d rule: find_plugin.induct)
  case (1 sys i l it d)
  obtain it_end where e: "loader_end sys l d = Inr (it_end, d)" "rest it_end = []"
    using loader_end_at_end 1(3,4) by blast
  show ?case
  proof (cases "rest it = []")
    case True
    then show ?thesis
      using e by (subst find_plugin.simps) (simp add: iter_eq_def iter_left_def)
  next
    case False
    then obtain js where left: "iter_left sys it = current it # js" by (simp add: iter_left_def)
    obtain it' d' where i: "iter_incr sys it d = (it', d')" by fastforce
    with iter_incr_left [OF 1(2,5) False i] left
    have "dir it' = dir it" "iter_left sys it' = js" by auto
    then show ?thesis
      using 1(1) [OF e(1) refl _ _ _ i [symmetric] 1(2,3,4)] False left e i 1(5)
      by (subst find_plugin.simps) (auto simp: iter_eq_def)
  qed
qed

lemma import_search_first:
  assumes "\<not> sticky sys" "dir_entries sys p = Some es" "p \<noteq> []" "id_path i = []"
  shows "\<exists>d'. import_search sys i p l d =
    Inr (case find (\<lambda>j. identity_eq j i) (dir_plugins sys [] es) of None \<Rightarrow> [] | Some j \<Rightarrow> id_path j,
      l\<lparr>current_path := p\<rparr>, d')"
proof -
  obtain it d1 where n: "iter_new sys p [] False d = Inr (it, d1)" "dir it \<noteq> []"
    "iter_left sys it = dir_plugins sys [] es"
    using iter_new_left [OF assms(1,3,2)] by blast
  from find_plugin_first [OF assms(1), of "l\<lparr>current_path := p\<rparr>" es it i d1] n assms(2,3)
  obtain d2 where "find_plugin sys i (l\<lparr>current_path := p\<rparr>) it d1 =
    Inr (case find (\<lambda>j. identity_eq j i) (dir_plugins sys [] es) of None \<Rightarrow> [] | Some j \<Rightarrow> id_path j, d2)"
    by auto
  with n assms(3,4) show ?thesis by (simp add: import_search_def loader_begin_def)
qed

subsection \<open>Loading\<close>



subsection \<open>The program\<close>

definition app_lines :: "identity \<Rightarrow> app_line list" where
  "app_lines j = [Found (identity_string j) (id_path j), Loading (identity_string j), Calling (plugin_foo 5)]"







subsection \<open>The promises\<close>

definition linker_start :: linker where
  "linker_start = \<lparr>handles = [], pending = False\<rparr>"

text \<open>A directory with a library that is no plugin, and two plugins.\<close>

definition example_entry :: "string \<Rightarrow> dir_entry" where
  "example_entry p = \<lparr>entry_path = p, is_regular_file = True, is_symlink = False, entry_exists = True, link_target = []\<rparr>"

definition example_sys :: "bool \<Rightarrow> version \<Rightarrow> system" where
  "example_sys st v =
     \<lparr>cwd = ''/p'',
      dir_entries = (\<lambda>p. if p = ''/p'' then
        Some (map example_entry [''/p/libz.so'', ''/p/audio.so'', ''/p/video.so'', ''/p/notes.txt'']) else None),
      file_exists = (\<lambda>_. True),
      lib = (\<lambda>p. if p = ''/p/libz.so'' then Some \<lparr>lib_plugin_id = None, lib_plugin_instance = None\<rparr>
        else if p = ''/p/audio.so'' then Some (define_plugin_entry ''audio'' ''ui'' (Version 1 0 0))
        else if p = ''/p/video.so'' then Some (define_plugin_entry ''video'' ''ui'' v)
        else None),
      sticky = st\<rparr>"


definition example_calls :: "plugin_call list" where
  "example_calls =
     [Load (identity_new ''ui'' ''video'' (Version 1 2 0)) ''/p'', Begin ''/p'' ''ui'',
      Load (identity_new ''ui'' ''audio'' (Version 1 0 0)) [], Load (identity_new ''ui'' ''audio'' (Version 1 0 0)) ''/p'',
      Unload (identity_new ''ui'' ''video'' (Version 1 2 0))]"

definition example_loaded :: loader where
  "example_loaded =
     \<lparr>current_path = ''/p'',
      plugins = [(identity_new ''ui'' ''audio'' (Version 1 0 0), \<lparr>made_by = ''/p/audio.so'', handle = ''/p/audio.so''\<rparr>)]\<rparr>"

lemma example_runs:
  "plugin_run (example_sys False (Version 1 2 0)) example_calls (loader_new, linker_start) =
     Inr (example_loaded, \<lparr>handles = [''/p/audio.so''], pending = False\<rparr>)"
  by code_simp


text \<open>
  Loading and unloading, after any calls: once a plugin is loaded, \<^verbatim>\<open>is_loaded\<close> says so and other
  identities are loaded as before, loading it again gives a null pointer and changes nothing, and
  unloading it leaves the plugins and the open handles from before the load.
\<close>

theorem loader_load_unload:
  assumes "plugin_run sys cs (loader_new, linker_start) = Inr (l, d)" "\<not> sticky sys"
    "loader_import sys i path l d = Inr (Some n, l', d')"
  shows "is_loaded i l = Inr False \<and> is_loaded i l' = Inr True \<and>
    (\<forall>j. map_defined j l \<longrightarrow> map_defined j l' \<longrightarrow> \<not> identity_eq j i \<longrightarrow> is_loaded j l' = is_loaded j l) \<and>
    (\<forall>path2 r l2 d2. loader_import sys i path2 l' d' = Inr (r, l2, d2) \<longrightarrow>
       r = None \<and> plugins l2 = plugins l' \<and> handles d2 = handles d') \<and>
    (\<exists>l2 d2. loader_unload sys i l' d' = Inr (l2, d2) \<and> mset (plugins l2) = mset (plugins l) \<and> handles d2 = handles d)"
proof -
  have ok: "loader_ok sys (l, d)" using plugin_run_ok [OF assms(1,2)] loader_ok_new by (simp add: linker_start_def)
  from import_effect [OF assms(3,2)] obtain p where p: "n = \<lparr>made_by = p, handle = p\<rparr>" "handles d' = p # handles d"
    "map_defined i l" "is_loaded i l = Inr False" "plugins l' = fst (sorted_emplace entry_less (i, n) (plugins l))"
    by auto
  have "sorted_wrt key_less (plugins l)" using ok by (simp add: loader_ok_def)
  from emplace_new [OF p(3) this p(4)] obtain zs where "sorted_emplace entry_less (i, n) (plugins l) = (zs, (i, n), True)"
    "sorted_wrt key_less zs" "mset zs = add_mset (i, n) (mset (plugins l))" by metis
  with p(5) have zs: "sorted_wrt key_less (plugins l')" "mset (plugins l') = add_mset (i, n) (mset (plugins l))"
    by auto
  then have set: "set (plugins l') = insert (i, n) (set (plugins l))"
    by (metis set_mset_add_mset_insert set_mset_mset)
  then have def: "map_defined i l'" using p(3) by (simp add: map_defined_def chain_strict_weak)
  then have loaded: "is_loaded i l' = Inr True" by (simp add: is_loaded_iff set)
  have "equivalent key_less (i, no_inst) (i, n)" by (simp add: equivalent_key)
  then have "plugins_find i l' = Some (i, n)"
    using plugin_map.find_eq [OF zs(1), of "(i, n)"] set def by (simp add: plugins_find_key)
  then have "\<exists>l2 d2. loader_unload sys i l' d' = Inr (l2, d2) \<and> mset (plugins l2) = mset (plugins l) \<and> handles d2 = handles d"
    using def p(1,2) zs(2) by (simp add: loader_unload_def)
  moreover have "is_loaded j l' = is_loaded j l" if "map_defined j l" "map_defined j l'" "\<not> identity_eq j i" for j
    using that set by (simp add: is_loaded_iff identity_eq_key)
  moreover have "r = None \<and> plugins l2 = plugins l' \<and> handles d2 = handles d'"
    if "loader_import sys i path2 l' d' = Inr (r, l2, d2)" for path2 r l2 d2
    using import_effect [OF that assms(2)] loaded by auto
  ultimately show ?thesis using p(4) loaded by blast
qed

lemma example_import:
  "loader_import (example_sys False (Version 1 2 0)) (identity_new ''ui'' ''video'' (Version 1 2 0)) ''/p'' example_loaded
     \<lparr>handles = [''/p/audio.so''], pending = False\<rparr> =
   Inr (Some \<lparr>made_by = ''/p/video.so'', handle = ''/p/video.so''\<rparr>,
     example_loaded\<lparr>plugins := plugins example_loaded @
       [(identity_new ''ui'' ''video'' (Version 1 2 0), \<lparr>made_by = ''/p/video.so'', handle = ''/p/video.so''\<rparr>)]\<rparr>,
     \<lparr>handles = [''/p/video.so'', ''/p/audio.so''], pending = False\<rparr>)"
  by code_simp

theorem loader_load_unload_witness:
  "is_loaded (identity_new ''ui'' ''video'' (Version 1 2 0)) example_loaded = Inr False \<and>
   is_loaded (identity_new ''ui'' ''video'' (Version 1 2 0)) (example_loaded\<lparr>plugins := plugins example_loaded @
     [(identity_new ''ui'' ''video'' (Version 1 2 0), \<lparr>made_by = ''/p/video.so'', handle = ''/p/video.so''\<rparr>)]\<rparr>) = Inr True"
  using loader_load_unload [OF example_runs _ example_import] by (simp add: example_sys_def)



text \<open>
  Four faults. Plugins whose names and versions go in opposite directions cannot both be in the map:
  the second call is undefined behaviour. \<^verbatim>\<open>begin\<close> with an empty path starts with an identity that no
  plugin has, although the end is not reached. Where \<^verbatim>\<open>dlerror\<close> keeps an error until it is asked, a
  library that is no plugin makes the loader skip the plugin after it; and when such an error is
  pending, a load fails and leaves the library open.
\<close>

theorem plugin_faults:
  "plugin_run (example_sys False (Version 0 9 0))
     [Load (identity_new ''ui'' ''audio'' (Version 1 0 0)) ''/p'', Load (identity_new ''ui'' ''video'' (Version 0 9 0)) ''/p'']
     (loader_new, linker_start) = Inl Undefined \<and>
   (case iter_new (example_sys False v) [] ''ui'' False linker_start of
      Inl e \<Rightarrow> False | Inr (it, d) \<Rightarrow> rest it \<noteq> [] \<and> current it = identity_new ''ui'' [] (Version 1 0 0)) \<and>
   (case app_main (example_sys True (Version 1 2 0)) linker_start of
      Inl e \<Rightarrow> False
    | Inr (lines, l, d) \<Rightarrow>
        lines = app_lines ((identity_new ''ui'' ''video'' (Version 1 2 0))\<lparr>id_path := ''/p/video.so''\<rparr>)) \<and>
   (case loader_import (example_sys True (Version 1 2 0)) ((identity_new ''ui'' ''video'' (Version 1 2 0))\<lparr>id_path := ''/p/video.so''\<rparr>)
      [] loader_new \<lparr>handles = [], pending = True\<rparr> of
      Inl e \<Rightarrow> False
    | Inr (n, l, d) \<Rightarrow> n = None \<and> plugins l = [] \<and> handles d = [''/p/video.so''])"
proof (intro conjI)
  show "case iter_new (example_sys False v) [] ''ui'' False linker_start of
      Inl e \<Rightarrow> False | Inr (it, d) \<Rightarrow> rest it \<noteq> [] \<and> current it = identity_new ''ui'' [] (Version 1 0 0)"
    by (simp add: iter_new_def example_sys_def)
qed code_simp+

end
