(* ===== verification/Epoll.thy ===== *)
theory Epoll
  imports Prelude
begin

section \<open>The epoll wrapper\<close>

text \<open>
  Models \<^verbatim>\<open>epoll/epoll.hpp\<close> and \<^verbatim>\<open>epoll.cpp\<close>. The interest list of the kernel is part of the state: which
  descriptors are watched, with which mask, as \<^verbatim>\<open>epoll_ctl\<close> documents it (a descriptor is added once;
  removing and modifying need it to be there; a descriptor that is closed drops out; one that was
  reported with \<^verbatim>\<open>EPOLLONESHOT\<close> has no mask until it is modified). Whether a call fails for another
  reason, and the batch of ready events a wait returns, are arguments. A callback is a name; what it
  does is the argument \<open>react\<close>: the new state of the client and the calls it makes on the same object.
\<close>

subsection \<open>Event masks\<close>

datatype poll_event = In | Out | Hangup | OneShot | EdgeTrigger

definition EPOLLIN :: u32 where "EPOLLIN = 1"
definition EPOLLPRI :: u32 where "EPOLLPRI = 2"
definition EPOLLOUT :: u32 where "EPOLLOUT = 4"
definition EPOLLERR :: u32 where "EPOLLERR = 8"
definition EPOLLHUP :: u32 where "EPOLLHUP = 16"
definition EPOLLRDHUP :: u32 where "EPOLLRDHUP = 8192"
definition EPOLLONESHOT :: u32 where "EPOLLONESHOT = 0x40000000"
definition EPOLLET :: u32 where "EPOLLET = 0x80000000"

fun event_bits :: "poll_event \<Rightarrow> u32" where
  "event_bits In = EPOLLIN"
| "event_bits Out = EPOLLOUT"
| "event_bits Hangup = EPOLLRDHUP OR EPOLLERR OR EPOLLHUP"
| "event_bits OneShot = EPOLLONESHOT"
| "event_bits EdgeTrigger = EPOLLET"

definition events_of :: "poll_event list \<Rightarrow> u32" where
  "events_of l = fold (\<lambda>i e. e OR event_bits i) l 0"

subsection \<open>The object\<close>

record 'cb epoll =
  m_fd :: int
  m_wake_fd :: int
  m_cb :: "'cb option"
  m_handlers :: "int \<Rightarrow> 'cb option"
  interest :: "int \<Rightarrow> u32 option"
  wake_open :: bool
  wake_count :: u64

text \<open>The answers of \<^verbatim>\<open>epoll_create\<close>, \<^verbatim>\<open>eventfd\<close> and \<^verbatim>\<open>epoll_ctl\<close> are arguments.\<close>

definition epoll_new :: "int \<Rightarrow> int \<Rightarrow> int \<Rightarrow> 'cb option \<Rightarrow> 'cb epoll" where
  "epoll_new created wake added cb =
     (let failed = (wake \<ge> 0 \<and> added < 0); watched = (wake \<ge> 0 \<and> \<not> failed)
      in \<lparr>m_fd = created, m_wake_fd = (if failed then 0 else wake), m_cb = cb, m_handlers = (\<lambda>_. None),
          interest = (if watched then (\<lambda>_. None)(wake := Some EPOLLIN) else (\<lambda>_. None)),
          wake_open = watched, wake_count = 0\<rparr>)"

definition epoll_bool :: "'cb epoll \<Rightarrow> bool" where
  "epoll_bool p \<longleftrightarrow> m_fd p > 0"

definition epoll_swap :: "'cb epoll \<Rightarrow> 'cb epoll \<Rightarrow> 'cb epoll \<times> 'cb epoll" where
  "epoll_swap p rhs = (rhs, p)"

definition impl_add :: "bool \<Rightarrow> int \<Rightarrow> u32 \<Rightarrow> 'cb option \<Rightarrow> 'cb epoll \<Rightarrow> bool \<times> 'cb epoll" where
  "impl_add ok fd e cb p =
     (if \<not> epoll_bool p \<or> e = 0 then (False, p)
      else
        let ret = (ok \<and> interest p fd = None);
            p = (if ret then p\<lparr>interest := (interest p)(fd := Some e)\<rparr> else p)
        in (ret,
            if ret \<and> cb \<noteq> None \<and> m_handlers p fd = None
            then p\<lparr>m_handlers := (m_handlers p)(fd := cb)\<rparr> else p))"

definition epoll_add :: "bool \<Rightarrow> int \<Rightarrow> poll_event list \<Rightarrow> 'cb option \<Rightarrow> 'cb epoll \<Rightarrow> bool \<times> 'cb epoll" where
  "epoll_add ok fd evt cb p = (if fd < 0 then (False, p) else impl_add ok fd (events_of evt) cb p)"

definition epoll_remove :: "bool \<Rightarrow> int \<Rightarrow> 'cb epoll \<Rightarrow> bool \<times> 'cb epoll" where
  "epoll_remove ok fd p =
     (if \<not> epoll_bool p then (False, p)
      else
        let p = p\<lparr>m_handlers := (m_handlers p)(fd := None)\<rparr>;
            ret = (ok \<and> interest p fd \<noteq> None)
        in (ret, if ret then p\<lparr>interest := (interest p)(fd := None)\<rparr> else p))"

definition epoll_modify :: "bool \<Rightarrow> int \<Rightarrow> poll_event list \<Rightarrow> 'cb epoll \<Rightarrow> bool \<times> 'cb epoll" where
  "epoll_modify ok fd evt p =
     (if \<not> epoll_bool p then (False, p)
      else
        let ret = (ok \<and> interest p fd \<noteq> None)
        in (ret, if ret then p\<lparr>interest := (interest p)(fd := Some (events_of evt))\<rparr> else p))"

text \<open>\<^verbatim>\<open>eventfd_write\<close> fails when the counter is full.\<close>

definition epoll_stop_wait :: "'cb epoll \<Rightarrow> 'cb epoll" where
  "epoll_stop_wait p =
     (if \<not> epoll_bool p then p
      else if wake_open p \<and> wake_count p < 0xfffffffffffffffe then p\<lparr>wake_count := wake_count p + 1\<rparr> else p)"

text \<open>The kernel: closing a descriptor, and reporting a batch of events.\<close>

definition fd_closed :: "int \<Rightarrow> 'cb epoll \<Rightarrow> 'cb epoll" where
  "fd_closed fd p = p\<lparr>interest := (interest p)(fd := None)\<rparr>"

definition reported :: "(int \<times> u32) list \<Rightarrow> 'cb epoll \<Rightarrow> 'cb epoll" where
  "reported evs p =
     p\<lparr>interest := (\<lambda>fd. case interest p fd of
         None \<Rightarrow> None
       | Some m \<Rightarrow> if fd \<in> fst ` set evs \<and> m AND EPOLLONESHOT \<noteq> 0 then Some 0 else Some m)\<rparr>"

subsection \<open>Waiting\<close>

definition get_callback :: "int \<Rightarrow> 'cb epoll \<Rightarrow> 'cb option" where
  "get_callback fd p = (case m_handlers p fd of Some cb \<Rightarrow> Some cb | None \<Rightarrow> m_cb p)"

definition event_kind :: "u32 \<Rightarrow> poll_event option" where
  "event_kind ev =
     (if ev AND (EPOLLRDHUP OR EPOLLPRI OR EPOLLERR OR EPOLLHUP) \<noteq> 0 then Some Hangup
      else if ev AND EPOLLIN \<noteq> 0 then Some In
      else if ev AND EPOLLOUT \<noteq> 0 then Some Out
      else None)"

text \<open>
  What a callback may do to the object. A handler that removes its own descriptor destroys the function
  that is being executed: this is undefined, the result is none.
\<close>

datatype 'cb epoll_call =
  Call_add bool int "poll_event list" "'cb option" | Call_remove bool int | Call_modify bool int "poll_event list" | Call_stop

fun exec_call :: "'cb epoll_call \<Rightarrow> 'cb epoll \<Rightarrow> 'cb epoll" where
  "exec_call (Call_add ok fd evt cb) p = snd (epoll_add ok fd evt cb p)"
| "exec_call (Call_remove ok fd) p = snd (epoll_remove ok fd p)"
| "exec_call (Call_modify ok fd evt) p = snd (epoll_modify ok fd evt p)"
| "exec_call Call_stop p = epoll_stop_wait p"

fun destroys :: "int option \<Rightarrow> 'cb epoll_call \<Rightarrow> bool" where
  "destroys running (Call_remove ok fd) \<longleftrightarrow> running = Some fd"
| "destroys running _ \<longleftrightarrow> False"

fun exec_calls :: "int option \<Rightarrow> 'cb epoll_call list \<Rightarrow> 'cb epoll \<Rightarrow> 'cb epoll option" where
  "exec_calls running [] p = Some p"
| "exec_calls running (c # cs) p = (if destroys running c then None else exec_calls running cs (exec_call c p))"

definition call_back ::
    "('cb \<Rightarrow> int \<Rightarrow> poll_event \<Rightarrow> 's \<Rightarrow> 'cb epoll_call list \<times> 's) \<Rightarrow> int \<Rightarrow> poll_event \<Rightarrow> 'cb epoll \<times> 's \<Rightarrow> ('cb epoll \<times> 's) option" where
  "call_back react fd e = (\<lambda>(p, s).
     case get_callback fd p of
       None \<Rightarrow> Some (p, s)
     | Some cb \<Rightarrow>
         (case react cb fd e s of (calls, s) \<Rightarrow>
            map_option (\<lambda>p. (p, s)) (exec_calls (if m_handlers p fd = None then None else Some fd) calls p)))"

fun wait_loop ::
    "('cb \<Rightarrow> int \<Rightarrow> poll_event \<Rightarrow> 's \<Rightarrow> 'cb epoll_call list \<times> 's) \<Rightarrow> (int \<times> u32) list \<Rightarrow> 'cb epoll \<times> 's \<Rightarrow> ('cb epoll \<times> 's) option" where
  "wait_loop react [] st = Some st"
| "wait_loop react ((fd, ev) # evs) st =
     (if fd = m_wake_fd (fst st)
      then Some (if wake_open (fst st) then (fst st)\<lparr>wake_count := 0\<rparr> else fst st, snd st)
      else case event_kind ev of
          None \<Rightarrow> wait_loop react evs st
        | Some e \<Rightarrow> Option.bind (call_back react fd e st) (wait_loop react evs))"

text \<open>\<^verbatim>\<open>Wait\<close>: the batch is an argument, none when \<^verbatim>\<open>epoll_pwait2\<close> fails.\<close>

definition epoll_wait ::
    "('cb \<Rightarrow> int \<Rightarrow> poll_event \<Rightarrow> 's \<Rightarrow> 'cb epoll_call list \<times> 's) \<Rightarrow> (int \<times> u32) list option \<Rightarrow>
     'cb epoll \<times> 's \<Rightarrow> (bool \<times> 'cb epoll \<times> 's) option" where
  "epoll_wait react batch = (\<lambda>(p, s).
     if \<not> epoll_bool p then Some (False, p, s)
     else case batch of
         None \<Rightarrow> Some (False, p, s)
       | Some evs \<Rightarrow> map_option (Pair True) (wait_loop react evs (reported evs p, s)))"

text \<open>\<^verbatim>\<open>ToTimespec\<close> on a duration in nanoseconds; the division truncates towards zero.\<close>

definition to_timespec :: "int \<Rightarrow> int \<times> int" where
  "to_timespec ns = (let sec = sgn ns * (\<bar>ns\<bar> div 10 ^ 9) in (sec, ns - sec * 10 ^ 9))"

text \<open>What a client and the system do to an object, one after the other.\<close>

datatype 'cb epoll_op = Op "'cb epoll_call" | Op_wait "(int \<times> u32) list option" | Op_close int

fun epoll_exec ::
    "('cb \<Rightarrow> int \<Rightarrow> poll_event \<Rightarrow> 's \<Rightarrow> 'cb epoll_call list \<times> 's) \<Rightarrow> 'cb epoll_op \<Rightarrow>
     'cb epoll \<times> 's \<Rightarrow> ('cb epoll \<times> 's) option" where
  "epoll_exec react (Op c) (p, s) = Some (exec_call c p, s)"
| "epoll_exec react (Op_wait batch) st = map_option snd (epoll_wait react batch st)"
| "epoll_exec react (Op_close fd) (p, s) = Some (fd_closed fd p, s)"

fun epoll_run ::
    "('cb \<Rightarrow> int \<Rightarrow> poll_event \<Rightarrow> 's \<Rightarrow> 'cb epoll_call list \<times> 's) \<Rightarrow> 'cb epoll_op list \<Rightarrow>
     'cb epoll \<times> 's \<Rightarrow> ('cb epoll \<times> 's) option" where
  "epoll_run react [] st = Some st"
| "epoll_run react (op # ops) st = Option.bind (epoll_exec react op st) (epoll_run react ops)"

end
