(* ===== verification/Epoll_Properties.thy ===== *)
theory Epoll_Properties
  imports Epoll
begin

section \<open>What the epoll wrapper promises\<close>

subsection \<open>Masks and dispatch\<close>


definition record_call :: "'cb \<Rightarrow> int \<Rightarrow> poll_event \<Rightarrow> ('cb \<times> int \<times> poll_event) list \<Rightarrow>
    'cb epoll_call list \<times> ('cb \<times> int \<times> poll_event) list" where
  "record_call cb fd e s = ([], s @ [(cb, fd, e)])"

definition delivery :: "'cb epoll \<Rightarrow> int \<times> u32 \<Rightarrow> ('cb \<times> int \<times> poll_event) option" where
  "delivery p = (\<lambda>(fd, ev).
     case event_kind ev of
       None \<Rightarrow> None
     | Some e \<Rightarrow> map_option (\<lambda>cb. (cb, fd, e)) (get_callback fd p))"



lemma reported_fields [simp]:
  "m_handlers (reported evs p) = m_handlers p" "m_wake_fd (reported evs p) = m_wake_fd p" "m_cb (reported evs p) = m_cb p"
  "wake_open (reported evs p) = wake_open p" "wake_count (reported evs p) = wake_count p" "m_fd (reported evs p) = m_fd p"
  by (simp_all add: reported_def)

lemma delivery_reported [simp]: "delivery (reported evs p) = delivery p"
  by (simp add: delivery_def get_callback_def fun_eq_iff split: option.split)


text \<open>A handler for descriptor 5, a default callback for 6, the wake-up event, and one more event.\<close>

definition example_epoll :: "string epoll" where
  "example_epoll = snd (epoll_add True 6 [In, Out] None
     (snd (epoll_add True 5 [In, OneShot] (Some ''five'') (epoll_new 3 4 0 (Some ''default'')))))"


subsection \<open>Handlers belong to watched descriptors\<close>

definition epoll_ok :: "'cb epoll \<Rightarrow> bool" where
  "epoll_ok p \<longleftrightarrow> dom (m_handlers p) \<subseteq> dom (interest p) \<and> (\<forall>fd \<in> dom (m_handlers p). 0 \<le> fd)"

lemma epoll_ok_new: "epoll_ok (epoll_new created wake added cb)"
  by (simp add: epoll_ok_def epoll_new_def Let_def)

lemma epoll_add_ok [keeps]: "epoll_ok p \<Longrightarrow> epoll_ok (snd (epoll_add ok fd evt cb p))"
  by (auto simp: epoll_ok_def epoll_add_def impl_add_def Let_def)

lemma epoll_remove_ok [keeps]: "epoll_ok p \<Longrightarrow> epoll_ok (snd (epoll_remove ok fd p))"
  by (auto simp: epoll_ok_def epoll_remove_def Let_def split: if_splits)

lemma epoll_modify_ok [keeps]: "epoll_ok p \<Longrightarrow> epoll_ok (snd (epoll_modify ok fd evt p))"
  by (auto simp: epoll_ok_def epoll_modify_def Let_def)

lemma epoll_stop_ok [keeps]: "epoll_ok p \<Longrightarrow> epoll_ok (epoll_stop_wait p)"
  by (simp add: epoll_ok_def epoll_stop_wait_def)

lemma epoll_ok_wake [simp]: "epoll_ok (p\<lparr>wake_count := n\<rparr>) = epoll_ok p"
  by (simp add: epoll_ok_def)

lemma reported_ok [keeps]: "epoll_ok p \<Longrightarrow> epoll_ok (reported evs p)"
  by (auto simp: epoll_ok_def reported_def subset_iff dom_def split: option.splits)

lemma exec_call_ok [keeps]: "epoll_ok p \<Longrightarrow> epoll_ok (exec_call c p)"
  by (cases c) (simp_all add: keeps)

text \<open>What every call keeps, and the kernel when it reports events, is kept by a wait with all its callbacks.\<close>

locale epoll_invariant =
  fixes I :: "'cb epoll \<Rightarrow> bool"
  assumes I_call: "I p \<Longrightarrow> I (exec_call c p)"
    and I_wake: "I p \<Longrightarrow> I (p\<lparr>wake_count := n\<rparr>)"
    and I_reported: "I p \<Longrightarrow> I (reported evs p)"
begin

lemma exec_calls_I: "exec_calls running cs p = Some p' \<Longrightarrow> I p \<Longrightarrow> I p'"
  by (induction running cs p rule: exec_calls.induct) (auto intro: I_call split: if_splits)

lemma call_back_I: "call_back react fd e (p, s) = Some (p', s') \<Longrightarrow> I p \<Longrightarrow> I p'"
  by (auto simp: call_back_def dest: exec_calls_I split: option.splits prod.splits)

lemma wait_loop_I: "wait_loop react evs st = Some st' \<Longrightarrow> I (fst st) \<Longrightarrow> I (fst st')"
proof (induction react evs st rule: wait_loop.induct)
  case (2 react fd ev evs st)
  show ?case
  proof (cases "fd = m_wake_fd (fst st)")
    case True
    with 2(3,4) show ?thesis by (auto intro: I_wake split: if_splits)
  next
    case False
    show ?thesis
    proof (cases "event_kind ev")
      case None
      with 2 False show ?thesis by simp
    next
      case (Some e)
      obtain p s where st: "st = (p, s)" by fastforce
      from Some False 2(3) obtain p1 s1 where c: "call_back react fd e (p, s) = Some (p1, s1)"
        "wait_loop react evs (p1, s1) = Some st'" by (auto simp: st)
      with call_back_I [OF c(1)] 2(2) [OF False Some, of "(p1, s1)"] 2(4) show ?thesis by (simp add: st)
    qed
  qed
qed simp

lemma wait_I: "epoll_wait react batch (p, s) = Some (r, p', s') \<Longrightarrow> I p \<Longrightarrow> I p'"
  using wait_loop_I [of react _ "(reported _ p, s)"]
  by (fastforce simp: epoll_wait_def intro: I_reported split: if_splits option.splits)

end

interpretation handlers: epoll_invariant epoll_ok
  by unfold_locales (simp_all add: keeps)

text \<open>
  As long as no watched descriptor is closed, whatever the client and its callbacks do, every handler
  belongs to a descriptor that the kernel watches for this object. So a descriptor that was removed has
  the default callback when it is added again.
\<close>

theorem epoll_handlers_watched:
  assumes "epoll_run react ops (epoll_new created wake added cb, s) = Some (p, s')" "\<forall>fd. Op_close fd \<notin> set ops"
  shows "dom (m_handlers p) \<subseteq> dom (interest p) \<and> (\<forall>fd \<in> dom (m_handlers p). 0 \<le> fd) \<and>
    (\<forall>ok fd. m_handlers (snd (epoll_remove ok fd p)) fd = None \<or> \<not> epoll_bool p)"
proof -
  have "epoll_run react ops st = Some st' \<Longrightarrow> \<forall>fd. Op_close fd \<notin> set ops \<Longrightarrow> epoll_ok (fst st) \<Longrightarrow> epoll_ok (fst st')"
    for st st'
  proof (induction react ops st rule: epoll_run.induct)
    case (2 react op ops st)
    from 2(2) obtain st1 where o: "epoll_exec react op st = Some st1" "epoll_run react ops st1 = Some st'" by auto
    obtain q u where st: "st = (q, u)" by fastforce
    have "epoll_ok (fst st1)"
    proof (cases op)
      case (Op c)
      with o 2(4) show ?thesis by (auto simp: st intro: keeps)
    next
      case (Op_wait batch)
      with o 2(4) handlers.wait_I show ?thesis by (auto simp: st)
    next
      case (Op_close fd)
      with 2(3) show ?thesis by auto
    qed
    with 2(1,3) o show ?case by auto
  qed simp
  from this [OF assms] have "epoll_ok p" by (simp add: epoll_ok_new)
  moreover have "m_handlers (snd (epoll_remove ok fd p)) fd = None \<or> \<not> epoll_bool p" for ok fd
    by (simp add: epoll_remove_def Let_def)
  ultimately show ?thesis by (simp add: epoll_ok_def)
qed

definition example_ops :: "string epoll_op list" where
  "example_ops = [Op (Call_add True 5 [In] (Some ''five'')), Op (Call_add True 6 [Out] (Some ''six'')),
     Op_wait (Some [(5, EPOLLIN), (6, EPOLLOUT)]), Op (Call_remove True 6)]"

lemma example_ops_run:
  "epoll_run record_call example_ops (epoll_new 3 4 0 None, []) =
     Some ((fst (the (epoll_run record_call example_ops (epoll_new 3 4 0 None, [])))), [(''five'', 5, In), (''six'', 6, Out)])"
proof -
  have "snd (the (epoll_run record_call example_ops (epoll_new 3 4 0 None, []))) = [(''five'', 5, In), (''six'', 6, Out)]"
    by code_simp
  moreover have "epoll_run record_call example_ops (epoll_new 3 4 0 None, []) \<noteq> None" by code_simp
  ultimately show ?thesis by (metis option.collapse prod.collapse)
qed

theorem epoll_handlers_watched_witness:
  "let p = fst (the (epoll_run record_call example_ops (epoll_new 3 4 0 None, [])))
   in m_handlers p 5 = Some ''five'' \<and> interest p 5 \<noteq> None"
proof -
  let ?p = "fst (the (epoll_run record_call example_ops (epoll_new 3 4 0 None, [])))"
  have "m_handlers ?p 5 = Some ''five''" by code_simp
  moreover have "\<forall>fd. Op_close fd \<notin> set example_ops" by (simp add: example_ops_def)
  ultimately show ?thesis using epoll_handlers_watched [OF example_ops_run] by (auto simp: Let_def)
qed

text \<open>
  Five faults. A handler stays when its descriptor is closed without \<^verbatim>\<open>Remove\<close>: the next descriptor
  with this number gets the old callback, because \<^verbatim>\<open>emplace\<close> does not overwrite. Events behind the wake-up
  event of a batch are dropped, and for a one-shot descriptor the event never comes back. A hang-up hides
  that there is something to read. A handler that removes its own descriptor destroys itself while it
  runs. When the wake-up descriptor cannot be watched its number is set to 0, so events of
  descriptor 0 are taken for the wake-up.
\<close>

theorem epoll_faults:
  "(case epoll_run record_call
       [Op (Call_add True 5 [In] (Some ''old'')), Op_close 5, Op (Call_add True 5 [In] (Some ''new'')), Op_wait (Some [(5, EPOLLIN)])]
       (epoll_new 3 4 0 None, []) of None \<Rightarrow> False | Some (p, s) \<Rightarrow> s = [(''old'', 5, In)]) \<and>
   (case epoll_run record_call [Op Call_stop, Op_wait (Some [(4, EPOLLIN), (5, EPOLLIN)])] (example_epoll, []) of
      None \<Rightarrow> False | Some (p, s) \<Rightarrow> s = [] \<and> interest p 5 = Some 0) \<and>
   event_kind (EPOLLIN OR EPOLLHUP) = Some Hangup \<and>
   epoll_wait (\<lambda>cb fd e s. ([Call_remove True fd], s)) (Some [(5, EPOLLIN)]) (example_epoll, ()) = None \<and>
   (case epoll_run record_call [Op (Call_add True 0 [In] (Some ''stdin'')), Op_wait (Some [(0, EPOLLIN)])]
       (epoll_new 3 4 (- 1) None, []) of None \<Rightarrow> False | Some (p, s) \<Rightarrow> interest p 0 \<noteq> None \<and> s = [])"
proof (intro conjI, goal_cases)
  case 1 show ?case by code_simp
next
  case 2 show ?case by code_simp
next
  case 3 show ?case by code_simp
next
  case 4 show ?case by code_simp
next
  case 5 show ?case by code_simp
qed

end
