(* ===== verification/Epoll_Objects.thy ===== *)
theory Epoll_Objects
  imports Epoll_Properties
begin

section \<open>The life of epoll objects\<close>

text \<open>
  Models the constructors, the assignment and the destructors of \<^verbatim>\<open>epoll/epoll.cpp\<close>, and the calls that the class
  hands on to its implementation. Variables are numbers; a variable that exists holds an implementation, or none
  after it was moved from, and then every call of it follows a null pointer, which is undefined: the result is none.
  The descriptors that are open are those of the process; a descriptor that is closed twice sets a flag.
\<close>

record fd_table =
  opened :: "int set"
  bad_close :: bool

definition open_fd :: "int \<Rightarrow> fd_table \<Rightarrow> fd_table" where
  "open_fd fd t = (if fd < 0 then t else t\<lparr>opened := insert fd (opened t)\<rparr>)"

definition close_fd :: "int \<Rightarrow> fd_table \<Rightarrow> fd_table" where
  "close_fd fd t = (if fd \<in> opened t then t\<lparr>opened := opened t - {fd}\<rparr> else t\<lparr>bad_close := True\<rparr>)"

definition impl_fds :: "int \<Rightarrow> int \<Rightarrow> int \<Rightarrow> fd_table \<Rightarrow> fd_table" where
  "impl_fds created wake added t =
     (let t = open_fd wake (open_fd created t)
      in if wake \<ge> 0 \<and> added < 0 then close_fd wake t else t)"

definition impl_destroy :: "'cb epoll \<Rightarrow> fd_table \<Rightarrow> fd_table" where
  "impl_destroy p t =
     (let t = (if m_wake_fd p > 0 then close_fd (m_wake_fd p) t else t)
      in if m_fd p > 0 then close_fd (m_fd p) t else t)"

record ('cb, 's) epoll_vars =
  var :: "nat \<Rightarrow> 'cb epoll option option"
  fds :: fd_table
  client_state :: 's

definition var_new :: "nat \<Rightarrow> int \<Rightarrow> int \<Rightarrow> int \<Rightarrow> 'cb option \<Rightarrow> ('cb, 's) epoll_vars \<Rightarrow> ('cb, 's) epoll_vars option" where
  "var_new x created wake added cb v =
     (if var v x \<noteq> None then None
      else Some (v\<lparr>var := (var v)(x \<mapsto> Some (epoll_new created wake added cb)), fds := impl_fds created wake added (fds v)\<rparr>))"

definition var_move :: "nat \<Rightarrow> nat \<Rightarrow> ('cb, 's) epoll_vars \<Rightarrow> ('cb, 's) epoll_vars option" where
  "var_move x y v =
     (case var v y of
        None \<Rightarrow> None
      | Some i \<Rightarrow> if var v x \<noteq> None then None else Some (v\<lparr>var := (var v)(y \<mapsto> None, x \<mapsto> i)\<rparr>))"

definition var_assign :: "nat \<Rightarrow> nat \<Rightarrow> ('cb, 's) epoll_vars \<Rightarrow> ('cb, 's) epoll_vars option" where
  "var_assign x y v =
     (case (var v x, var v y) of
        (Some i, Some j) \<Rightarrow> Some (v\<lparr>var := (var v)(x \<mapsto> j, y \<mapsto> i)\<rparr>)
      | _ \<Rightarrow> None)"

definition var_destroy :: "nat \<Rightarrow> ('cb, 's) epoll_vars \<Rightarrow> ('cb, 's) epoll_vars option" where
  "var_destroy x v =
     (case var v x of
        None \<Rightarrow> None
      | Some i \<Rightarrow> Some (v\<lparr>var := (var v)(x := None), fds := (case i of None \<Rightarrow> fds v | Some p \<Rightarrow> impl_destroy p (fds v))\<rparr>))"

definition var_bool :: "nat \<Rightarrow> ('cb, 's) epoll_vars \<Rightarrow> bool option" where
  "var_bool x v = (case var v x of Some (Some p) \<Rightarrow> Some (epoll_bool p) | _ \<Rightarrow> None)"

definition with_impl :: "nat \<Rightarrow> ('cb epoll \<Rightarrow> bool \<times> 'cb epoll) \<Rightarrow> ('cb, 's) epoll_vars \<Rightarrow> (bool \<times> ('cb, 's) epoll_vars) option" where
  "with_impl x f v =
     (case var v x of
        Some (Some p) \<Rightarrow> (case f p of (r, p) \<Rightarrow> Some (r, v\<lparr>var := (var v)(x \<mapsto> Some p)\<rparr>))
      | _ \<Rightarrow> None)"

text \<open>A descriptor below 0 is refused before the implementation is looked at.\<close>

definition var_add :: "nat \<Rightarrow> bool \<Rightarrow> int \<Rightarrow> poll_event list \<Rightarrow> 'cb option \<Rightarrow> ('cb, 's) epoll_vars \<Rightarrow> (bool \<times> ('cb, 's) epoll_vars) option" where
  "var_add x ok fd evt cb v =
     (if fd < 0 then Some (False, v) else with_impl x (impl_add ok fd (events_of evt) cb) v)"

definition var_remove :: "nat \<Rightarrow> bool \<Rightarrow> int \<Rightarrow> ('cb, 's) epoll_vars \<Rightarrow> (bool \<times> ('cb, 's) epoll_vars) option" where
  "var_remove x ok fd = with_impl x (epoll_remove ok fd)"

definition var_modify :: "nat \<Rightarrow> bool \<Rightarrow> int \<Rightarrow> poll_event list \<Rightarrow> ('cb, 's) epoll_vars \<Rightarrow> (bool \<times> ('cb, 's) epoll_vars) option" where
  "var_modify x ok fd evt = with_impl x (epoll_modify ok fd evt)"

definition var_stop_wait :: "nat \<Rightarrow> ('cb, 's) epoll_vars \<Rightarrow> (bool \<times> ('cb, 's) epoll_vars) option" where
  "var_stop_wait x = with_impl x (\<lambda>p. (True, epoll_stop_wait p))"

text \<open>
  The three forms of \<^verbatim>\<open>Wait\<close>: for a duration, without one, and the private one both call. The kernel's batch is what
  arrives within the time, so the timeout decides only which batches there can be.
\<close>

definition var_wait ::
    "('cb \<Rightarrow> int \<Rightarrow> poll_event \<Rightarrow> 's \<Rightarrow> 'cb epoll_call list \<times> 's) \<Rightarrow> ((int \<times> int) option \<Rightarrow> (int \<times> u32) list option) \<Rightarrow>
     nat \<Rightarrow> (int \<times> int) option \<Rightarrow> ('cb, 's) epoll_vars \<Rightarrow> (bool \<times> ('cb, 's) epoll_vars) option" where
  "var_wait react batch x timeout v =
     (case var v x of
        Some (Some p) \<Rightarrow>
          map_option (\<lambda>(r, p, s). (r, v\<lparr>var := (var v)(x \<mapsto> Some p), client_state := s\<rparr>))
            (epoll_wait react (batch timeout) (p, client_state v))
      | _ \<Rightarrow> None)"

definition var_wait_for ::
    "('cb \<Rightarrow> int \<Rightarrow> poll_event \<Rightarrow> 's \<Rightarrow> 'cb epoll_call list \<times> 's) \<Rightarrow> ((int \<times> int) option \<Rightarrow> (int \<times> u32) list option) \<Rightarrow>
     nat \<Rightarrow> int \<Rightarrow> ('cb, 's) epoll_vars \<Rightarrow> (bool \<times> ('cb, 's) epoll_vars) option" where
  "var_wait_for react batch x ns = var_wait react batch x (Some (to_timespec ns))"

definition var_wait_ever ::
    "('cb \<Rightarrow> int \<Rightarrow> poll_event \<Rightarrow> 's \<Rightarrow> 'cb epoll_call list \<times> 's) \<Rightarrow> ((int \<times> int) option \<Rightarrow> (int \<times> u32) list option) \<Rightarrow>
     nat \<Rightarrow> ('cb, 's) epoll_vars \<Rightarrow> (bool \<times> ('cb, 's) epoll_vars) option" where
  "var_wait_ever react batch x = var_wait react batch x None"

subsection \<open>A program over epoll objects\<close>

datatype 'cb var_op =
    New nat int int int "'cb option" | Move nat nat | Assign nat nat | Destroy nat
  | Add nat bool int "poll_event list" "'cb option" | Remove nat bool int | Modify nat bool int "poll_event list"
  | Stop nat | Wait nat "(int \<times> int) option" "(int \<times> u32) list option"

fun var_exec ::
    "('cb \<Rightarrow> int \<Rightarrow> poll_event \<Rightarrow> 's \<Rightarrow> 'cb epoll_call list \<times> 's) \<Rightarrow> 'cb var_op \<Rightarrow>
     ('cb, 's) epoll_vars \<Rightarrow> ('cb, 's) epoll_vars option" where
  "var_exec react (New x created wake added cb) v = var_new x created wake added cb v"
| "var_exec react (Move x y) v = var_move x y v"
| "var_exec react (Assign x y) v = var_assign x y v"
| "var_exec react (Destroy x) v = var_destroy x v"
| "var_exec react (Add x ok fd evt cb) v = map_option snd (var_add x ok fd evt cb v)"
| "var_exec react (Remove x ok fd) v = map_option snd (var_remove x ok fd v)"
| "var_exec react (Modify x ok fd evt) v = map_option snd (var_modify x ok fd evt v)"
| "var_exec react (Stop x) v = map_option snd (var_stop_wait x v)"
| "var_exec react (Wait x timeout batch) v = map_option snd (var_wait react (\<lambda>_. batch) x timeout v)"

text \<open>A descriptor that the kernel gives out is not open, and not 0: the process has its standard input.\<close>

definition fresh_fd :: "int \<Rightarrow> fd_table \<Rightarrow> bool" where
  "fresh_fd fd t \<longleftrightarrow> fd = - 1 \<or> 0 < fd \<and> fd \<notin> opened t"

fun fresh_answers :: "'cb var_op \<Rightarrow> ('cb, 's) epoll_vars \<Rightarrow> bool" where
  "fresh_answers (New x created wake added cb) v \<longleftrightarrow>
     fresh_fd created (fds v) \<and> fresh_fd wake (open_fd created (fds v))"
| "fresh_answers _ v \<longleftrightarrow> True"

fun vars_run ::
    "('cb \<Rightarrow> int \<Rightarrow> poll_event \<Rightarrow> 's \<Rightarrow> 'cb epoll_call list \<times> 's) \<Rightarrow> 'cb var_op list \<Rightarrow>
     ('cb, 's) epoll_vars \<Rightarrow> ('cb, 's) epoll_vars option" where
  "vars_run react [] v = Some v"
| "vars_run react (op # ops) v =
     (if fresh_answers op v then Option.bind (var_exec react op v) (vars_run react ops) else None)"

definition vars_start :: "int set \<Rightarrow> 's \<Rightarrow> ('cb, 's) epoll_vars" where
  "vars_start F s = \<lparr>var = (\<lambda>_. None), fds = \<lparr>opened = F, bad_close = False\<rparr>, client_state = s\<rparr>"

subsection \<open>Which descriptors are open\<close>

definition impl_of :: "('cb, 's) epoll_vars \<Rightarrow> nat \<Rightarrow> 'cb epoll option" where
  "impl_of v x = (case var v x of Some i \<Rightarrow> i | None \<Rightarrow> None)"

definition own_fds :: "'cb epoll \<Rightarrow> int set" where
  "own_fds p = {fd \<in> {m_fd p, m_wake_fd p}. 0 < fd}"

definition owned :: "('cb, 's) epoll_vars \<Rightarrow> int set" where
  "owned v = {fd. \<exists>x p. impl_of v x = Some p \<and> fd \<in> own_fds p}"

text \<open>The descriptors of an object do not change while it lives.\<close>

definition same_fds :: "int \<Rightarrow> int \<Rightarrow> 'cb epoll \<Rightarrow> bool" where
  "same_fds a b p \<longleftrightarrow> m_fd p = a \<and> m_wake_fd p = b"

lemma same_fds_ops:
  "same_fds a b p \<Longrightarrow> same_fds a b (snd (impl_add ok fd e cb p))"
  "same_fds a b p \<Longrightarrow> same_fds a b (snd (epoll_add ok fd evt cb p))"
  "same_fds a b p \<Longrightarrow> same_fds a b (snd (epoll_remove ok fd p))"
  "same_fds a b p \<Longrightarrow> same_fds a b (snd (epoll_modify ok fd evt p))"
  "same_fds a b p \<Longrightarrow> same_fds a b (epoll_stop_wait p)"
  "same_fds a b p \<Longrightarrow> same_fds a b (reported evs p)"
  by (simp_all add: same_fds_def epoll_add_def impl_add_def epoll_remove_def epoll_modify_def epoll_stop_wait_def
      reported_def Let_def)

lemma same_fds_call: "same_fds a b p \<Longrightarrow> same_fds a b (exec_call c p)"
  by (cases c) (simp_all add: same_fds_ops)

interpretation fds: epoll_invariant "same_fds a b" for a b
  by unfold_locales (simp_all add: same_fds_ops same_fds_call, simp add: same_fds_def)

definition owned_by :: "'cb epoll option \<Rightarrow> int set" where
  "owned_by i = (case i of None \<Rightarrow> {} | Some p \<Rightarrow> own_fds p)"

lemma owned_by_simps [simp]: "owned_by None = {}" "owned_by (Some p) = own_fds p"
  by (simp_all add: owned_by_def)

lemma owned_alt: "owned v = (\<Union>x. owned_by (impl_of v x))"
  unfolding owned_def owned_by_def by (force split: option.splits)

lemma owned_upd: "impl_of v' = (impl_of v)(x := i) \<Longrightarrow> owned v' = owned_by i \<union> (\<Union>y \<in> - {x}. owned_by (impl_of v y))"
  unfolding owned_alt by (auto split: if_splits)

lemma owned_split: "owned v = owned_by (impl_of v x) \<union> (\<Union>y \<in> - {x}. owned_by (impl_of v y))"
  by (rule owned_upd) simp

definition vars_ok :: "int set \<Rightarrow> ('cb, 's) epoll_vars \<Rightarrow> bool" where
  "vars_ok F v \<longleftrightarrow> \<not> bad_close (fds v) \<and> opened (fds v) = F \<union> owned v \<and>
     (\<forall>x. owned_by (impl_of v x) \<inter> F = {}) \<and>
     (\<forall>x y. x \<noteq> y \<longrightarrow> owned_by (impl_of v x) \<inter> owned_by (impl_of v y) = {}) \<and>
     (\<forall>x p. impl_of v x = Some p \<longrightarrow> 0 < m_fd p \<longrightarrow> m_fd p \<noteq> m_wake_fd p)"

lemma vars_ok_perm:
  assumes "vars_ok F v" "fds v' = fds v" "bij \<pi>" "\<And>x. impl_of v' x = impl_of v (\<pi> x)"
  shows "vars_ok F v'"
proof -
  have "surj \<pi>" "inj \<pi>" using assms(3) by (auto simp: bij_def)
  have "owned v' = owned v"
    using assms(4) surjD [OF \<open>surj \<pi>\<close>] unfolding owned_def by metis
  with assms(1,2,4) \<open>inj \<pi>\<close> show ?thesis unfolding vars_ok_def by (metis injD)
qed

lemma vars_ok_upd:
  assumes ok: "vars_ok F v" and upd: "impl_of v' = (impl_of v)(x := i)"
    and i: "owned_by i \<inter> F = {}" "\<And>y. y \<noteq> x \<Longrightarrow> owned_by i \<inter> owned_by (impl_of v y) = {}"
      "\<And>p. i = Some p \<Longrightarrow> 0 < m_fd p \<Longrightarrow> m_fd p \<noteq> m_wake_fd p"
    and table: "\<not> bad_close (fds v')" "opened (fds v') = F \<union> owned v'"
  shows "vars_ok F v'"
proof -
  have "owned_by (impl_of v' y) \<inter> F = {}" for y using ok i(1) upd by (simp add: vars_ok_def)
  moreover have "owned_by (impl_of v' y) \<inter> owned_by (impl_of v' z) = {}" if "y \<noteq> z" for y z
    using ok i(2) [of y] i(2) [of z] that upd by (cases "y = x"; cases "z = x") (simp_all add: vars_ok_def Int_commute)
  moreover have "m_fd p \<noteq> m_wake_fd p" if "impl_of v' y = Some p" "0 < m_fd p" for y p
    using ok i(3) upd that by (cases "y = x") (auto simp: vars_ok_def)
  ultimately show ?thesis using table unfolding vars_ok_def by blast
qed

lemma vars_ok_own: "vars_ok F v \<Longrightarrow> owned_by (impl_of v x) \<subseteq> opened (fds v)"
  by (auto simp: vars_ok_def owned_alt)

lemma vars_ok_apart:
  assumes "vars_ok F v"
  shows "owned_by (impl_of v x) \<inter> F = {}" "y \<noteq> x \<Longrightarrow> owned_by (impl_of v x) \<inter> owned_by (impl_of v y) = {}"
    "impl_of v x = Some p \<Longrightarrow> 0 < m_fd p \<Longrightarrow> m_fd p \<noteq> m_wake_fd p"
    "\<not> bad_close (fds v)" "opened (fds v) = F \<union> owned v"
  using assms unfolding vars_ok_def by blast+

lemma vars_ok_same:
  assumes ok: "vars_ok F v" and "fds v' = fds v" "impl_of v x = Some p" "impl_of v' = (impl_of v)(x \<mapsto> q)"
    and "same_fds (m_fd p) (m_wake_fd p) q"
  shows "vars_ok F v'"
proof -
  have own: "owned_by (Some q) = owned_by (impl_of v x)" "m_fd q = m_fd p" "m_wake_fd q = m_wake_fd p"
    using assms(3,5) by (simp_all add: own_fds_def same_fds_def)
  have "owned v' = owned v"
    using own owned_upd [OF assms(4)] owned_split [of v x] by simp
  with assms(2) vars_ok_apart(4,5) [OF ok] vars_ok_apart(1,3) [OF ok, of x] vars_ok_apart(2) [OF ok, of _ x] own assms(3)
  show ?thesis by (intro vars_ok_upd [OF ok assms(4)]) auto
qed

lemma vars_ok_new:
  assumes ok: "vars_ok F v" and x: "impl_of v x = None"
    and fresh: "fresh_fd created (fds v)" "fresh_fd wake (open_fd created (fds v))"
    and v': "impl_of v' = (impl_of v)(x \<mapsto> epoll_new created wake added cb)" "fds v' = impl_fds created wake added (fds v)"
  shows "vars_ok F v'"
proof -
  let ?p = "epoll_new created wake added cb"
  note table = vars_ok_apart(4,5) [OF ok]
  have new: "opened (fds v') = opened (fds v) \<union> own_fds ?p" "own_fds ?p \<inter> opened (fds v) = {}" "\<not> bad_close (fds v')"
      "0 < m_fd ?p \<Longrightarrow> m_fd ?p \<noteq> m_wake_fd ?p"
    using fresh table(1) unfolding v'(2)
    by (auto simp: fresh_fd_def open_fd_def close_fd_def impl_fds_def own_fds_def epoll_new_def Let_def split: if_splits)
  have "owned v' = owned v \<union> own_fds ?p"
    using owned_upd [OF v'(1)] owned_split [of v x] x by auto
  moreover have "owned_by (Some ?p) \<inter> owned_by (impl_of v y) = {}" for y
    using new(2) vars_ok_own [OF ok, of y] by auto
  ultimately show ?thesis using new table by (intro vars_ok_upd [OF ok v'(1)]) auto
qed

lemma own_fds_eq: "own_fds p = (if 0 < m_fd p then {m_fd p} else {}) \<union> (if 0 < m_wake_fd p then {m_wake_fd p} else {})"
  by (auto simp: own_fds_def)

lemma impl_destroy_closes:
  assumes "own_fds p \<subseteq> opened t" "\<not> bad_close t" "0 < m_fd p \<Longrightarrow> m_fd p \<noteq> m_wake_fd p"
  shows "opened (impl_destroy p t) = opened t - own_fds p" "\<not> bad_close (impl_destroy p t)"
  using assms unfolding own_fds_eq impl_destroy_def Let_def close_fd_def by (auto split: if_splits)

lemma vars_ok_destroy:
  assumes ok: "vars_ok F v" and x: "impl_of v x = Some p"
    and v': "impl_of v' = (impl_of v)(x := None)" "fds v' = impl_destroy p (fds v)"
  shows "vars_ok F v'"
proof -
  note apart = vars_ok_apart [OF ok]
  have "own_fds p \<subseteq> opened (fds v)" using vars_ok_own [OF ok, of x] x by simp
  then have closed: "opened (fds v') = opened (fds v) - own_fds p" "\<not> bad_close (fds v')"
    using impl_destroy_closes apart(3) [OF x] apart(4) unfolding v'(2) by blast+
  have "own_fds p \<inter> F = {}" "own_fds p \<inter> (\<Union>y \<in> - {x}. owned_by (impl_of v y)) = {}"
    using apart(1) [of x] apart(2) [of _ x] x by auto
  then have "opened (fds v) - own_fds p = F \<union> owned v'"
    using apart(5) x owned_upd [OF v'(1)] owned_split [of v x] by auto
  with closed show ?thesis by (intro vars_ok_upd [OF ok v'(1)]) auto
qed

definition exchange :: "nat \<Rightarrow> nat \<Rightarrow> nat \<Rightarrow> nat" where
  "exchange x y z = (if z = x then y else if z = y then x else z)"

lemma bij_exchange: "bij (exchange x y)"
  by (rule o_bij [of "exchange x y"]) (auto simp: exchange_def)

lemma vars_ok_with_impl:
  assumes ok: "vars_ok F v" and step: "with_impl x f v = Some (r, v')"
    and f: "\<And>a b p. same_fds a b p \<Longrightarrow> same_fds a b (snd (f p))"
  shows "vars_ok F v'"
proof -
  obtain p where p: "var v x = Some (Some p)" "v' = v\<lparr>var := (var v)(x \<mapsto> Some (snd (f p)))\<rparr>"
    using step by (auto simp: with_impl_def split: option.splits prod.splits)
  then show ?thesis
    using f [of "m_fd p" "m_wake_fd p" p]
    by (intro vars_ok_same [OF ok, of v' x p "snd (f p)"]) (auto simp: impl_of_def same_fds_def)
qed

lemma vars_ok_wait:
  assumes ok: "vars_ok F v" and step: "var_wait react batch x timeout v = Some (r, v')"
  shows "vars_ok F v'"
proof -
  obtain p q s where p: "var v x = Some (Some p)" "epoll_wait react (batch timeout) (p, client_state v) = Some (r, q, s)"
    "v' = v\<lparr>var := (var v)(x \<mapsto> Some q), client_state := s\<rparr>"
    using step by (auto simp: var_wait_def split: option.splits)
  then show ?thesis
    using fds.wait_I [OF p(2), of "m_fd p" "m_wake_fd p"]
    by (intro vars_ok_same [OF ok, of v' x p q]) (auto simp: impl_of_def same_fds_def)
qed

lemma vars_ok_step [keeps]:
  assumes ok: "vars_ok F v" and fresh: "fresh_answers op v" and step: "var_exec react op v = Some v'"
  shows "vars_ok F v'"
proof (cases op)
  case (New x created wake added cb)
  with step fresh show ?thesis
    by (intro vars_ok_new [OF ok, of x created wake _ added cb]) (auto simp: var_new_def impl_of_def split: if_splits)
next
  case (Move x y)
  with step show ?thesis
    by (intro vars_ok_perm [OF ok, of _ "exchange x y"])
      (auto simp: var_move_def impl_of_def exchange_def bij_exchange split: if_splits option.splits)
next
  case (Assign x y)
  with step show ?thesis
    by (intro vars_ok_perm [OF ok, of _ "exchange x y"])
      (auto simp: var_assign_def impl_of_def exchange_def bij_exchange split: if_splits option.splits)
next
  case (Destroy x)
  show ?thesis
  proof (cases "impl_of v x")
    case None
    with Destroy step have "impl_of v' = impl_of v" "fds v' = fds v"
      by (auto simp: var_destroy_def impl_of_def split: option.splits)
    with ok show ?thesis by (simp add: vars_ok_def owned_def)
  next
    case (Some p)
    with Destroy step show ?thesis
      by (intro vars_ok_destroy [OF ok Some]) (auto simp: var_destroy_def impl_of_def split: option.splits)
  qed
next
  case (Add x ok' fd evt cb)
  with step ok show ?thesis
    using vars_ok_with_impl [OF ok, of x "impl_add ok' fd (events_of evt) cb"]
    by (auto simp: var_add_def same_fds_ops split: if_splits)
next
  case (Remove x ok' fd)
  with step vars_ok_with_impl [OF ok, of x "epoll_remove ok' fd"] show ?thesis
    by (auto simp: var_remove_def same_fds_ops)
next
  case (Modify x ok' fd evt)
  with step vars_ok_with_impl [OF ok, of x "epoll_modify ok' fd evt"] show ?thesis
    by (auto simp: var_modify_def same_fds_ops)
next
  case (Stop x)
  with step vars_ok_with_impl [OF ok, of x "\<lambda>p. (True, epoll_stop_wait p)"] show ?thesis
    by (auto simp: var_stop_wait_def same_fds_ops)
next
  case (Wait x timeout batch)
  with step vars_ok_wait [OF ok] show ?thesis by auto
qed

lemma vars_ok_run:
  "vars_run react ops v = Some v' \<Longrightarrow> vars_ok F v \<Longrightarrow> vars_ok F v'"
  by (induction react ops v rule: vars_run.induct) (auto intro: vars_ok_step split: if_splits bind_splits)

text \<open>
  C28: Whatever a program does with epoll objects (it makes, moves, assigns and destroys them and calls them), as long
  as the kernel gives out descriptors that are not open and not 0: the open descriptors are those the program had
  before and those of its living objects, each belongs to one object, none is closed twice, and when the last object
  is gone only those from before are open.
\<close>

theorem epoll_descriptors:
  assumes "vars_run react ops (vars_start F s) = Some v"
  shows "\<not> bad_close (fds v) \<and> opened (fds v) = F \<union> owned v \<and> F \<inter> owned v = {} \<and>
    (\<forall>x y p q. impl_of v x = Some p \<and> impl_of v y = Some q \<and> x \<noteq> y \<longrightarrow> own_fds p \<inter> own_fds q = {}) \<and>
    ((\<forall>x. var v x = None) \<longrightarrow> opened (fds v) = F)"
proof -
  have "vars_ok F (vars_start F s)" by (simp add: vars_ok_def vars_start_def owned_def impl_of_def)
  with assms have ok: "vars_ok F v" by (rule vars_ok_run)
  have "own_fds p \<inter> own_fds q = {}" if "impl_of v x = Some p" "impl_of v y = Some q" "x \<noteq> y" for x y p q
    using vars_ok_apart(2) [OF ok, of y x] that by simp
  moreover have "owned v = {}" if "\<forall>x. var v x = None" using that by (simp add: owned_def impl_of_def)
  moreover have "F \<inter> owned v = {}" using vars_ok_apart(1) [OF ok] by (auto simp: owned_alt)
  ultimately show ?thesis using vars_ok_apart(4,5) [OF ok] by blast
qed

definition example_var_ops :: "string var_op list" where
  "example_var_ops = [New 0 3 4 0 None, Move 1 0, New 2 5 6 (- 1) None, Assign 1 2, Add 2 True 0 [In] (Some ''in''),
     Wait 2 None (Some [(0, EPOLLIN)]), Destroy 1, Destroy 0]"

theorem epoll_descriptors_witness:
  "\<exists>v. vars_run record_call example_var_ops (vars_start {0, 1, 2} []) = Some v \<and> opened (fds v) = {0, 1, 2} \<union> owned v \<and>
     client_state v = [(''in'', 0, In)] \<and> \<not> bad_close (fds v)"
proof -
  have "vars_run record_call example_var_ops (vars_start {0, 1, 2} []) \<noteq> None" by code_simp
  then obtain v where v: "vars_run record_call example_var_ops (vars_start {0, 1, 2} []) = Some v" by blast
  have "map_option client_state (vars_run record_call example_var_ops (vars_start {0, 1, 2} [])) = Some [(''in'', 0, In)]"
    by code_simp
  with v epoll_descriptors [OF v] show ?thesis by simp
qed

text \<open>
  A process that has closed its standard input can be given the descriptor 0: the object then takes itself for one
  that failed, and the descriptor is never closed. And an object that was moved from must not even be asked whether
  it is valid.
\<close>

lemma epoll_zero_leaks:
  "\<not> epoll_bool (epoll_new 0 wake added cb) \<and>
   (0 < wake \<longrightarrow> 0 \<in> opened (impl_destroy (epoll_new 0 wake added cb) (impl_fds 0 wake added t)))"
  by (auto simp: epoll_bool_def epoll_new_def impl_destroy_def impl_fds_def open_fd_def close_fd_def Let_def)

lemma moved_from_undefined: "var_move x y v = Some v' \<Longrightarrow> var_bool y v' = None"
  by (auto simp: var_move_def var_bool_def split: option.splits if_splits)

end
