(* ===== verification/Backtrace.thy ===== *)
theory Backtrace
  imports Prelude
begin

section \<open>The signal handler\<close>

text \<open>
  Models \<^verbatim>\<open>backtrace/backtrace.cpp\<close>: the conversions a signal handler may use instead of \<^verbatim>\<open>printf\<close>, and
  the report it writes. The buffer of \<^verbatim>\<open>to_int\<close> has ten characters; writing past it, and the absolute
  value of the least integer, are undefined: the result is none. The number of digits is
  \<^verbatim>\<open>floor(log10(n)) + 1\<close>. The text of the backtrace itself comes from the C library and is an
  argument.
\<close>

fun decimal_digits :: "nat \<Rightarrow> nat" where
  "decimal_digits n = (if n < 10 then 1 else decimal_digits (n div 10) + 1)"

declare decimal_digits.simps [simp del]

text \<open>The loop that fills the buffer from behind, at positions \<open>digits - 1\<close> to 0.\<close>

fun fill_digits :: "nat \<Rightarrow> nat \<Rightarrow> string \<Rightarrow> string" where
  "fill_digits 0 n buf = buf"
| "fill_digits (Suc d) n buf = fill_digits d (n div 10) (buf[d := digit_char (n mod 10)])"

definition to_int_buf :: "string \<Rightarrow> int \<Rightarrow> string option" where
  "to_int_buf buf n =
     (if n = - (2 ^ 31) then None
      else
        let m = nat \<bar>n\<bar>; digits = decimal_digits m + (if n < 0 then 1 else 0)
        in if digits \<ge> 10 then None
           else
             let buf = fill_digits digits m (buf[digits := CHR 0x00])
             in Some (if n < 0 then buf[0 := CHR ''-''] else buf))"

definition to_int :: "int \<Rightarrow> string option" where
  "to_int n = map_option c_string (to_int_buf (replicate 10 (CHR 0x00)) n)"

text \<open>\<^verbatim>\<open>to_hex_uint\<close>: the bytes from the most significant one down, two digits each.\<close>

definition hex_digit :: "u64 \<Rightarrow> char" where
  "hex_digit v = ''0123456789abcdef'' ! unat v"

fun hex_loop :: "nat \<Rightarrow> u64 \<Rightarrow> string" where
  "hex_loop 0 n = []"
| "hex_loop (Suc i) n =
     (let b = drop_bit (8 * i) n AND 0xFF
      in hex_digit (drop_bit 4 b AND 0x0F) # hex_digit (b AND 0x0F) # hex_loop i n)"

definition to_hex_uint :: "u64 \<Rightarrow> string" where
  "to_hex_uint n = hex_loop 8 n"

text \<open>The numbers of the signals are those of Linux.\<close>

definition signal_text :: "int \<Rightarrow> string option" where
  "signal_text sig =
     (if sig = 2 then Some ''SIGINT'' else if sig = 15 then Some ''SIGTERM'' else if sig = 6 then Some ''SIGABRT''
      else if sig = 11 then Some ''SIGSEGV'' else if sig = 7 then Some ''SIGBUS'' else to_int sig)"

definition sig_handler :: "int \<Rightarrow> int \<Rightarrow> int \<Rightarrow> u64 \<Rightarrow> string option" where
  "sig_handler sig si_errno si_code si_addr =
     do {
       name \<leftarrow> signal_text sig;
       errno \<leftarrow> to_int si_errno;
       code \<leftarrow> to_int si_code;
       Some (name @ [CHR 0x0A] @ ''errno: '' @ errno @ [CHR 0x0A] @ ''code: '' @ code @ [CHR 0x0A] @
         ''address: '' @ to_hex_uint si_addr @ [CHR 0x0A])
     }"

definition sig_setup :: "int list" where
  "sig_setup = [2, 1, 11, 6]"

text \<open>
  The delivery of a signal that ends a process by default: the handler is run when one is set, writes the symbols of
  the C library behind its report, and exits with \<^verbatim>\<open>EXIT_FAILURE\<close>. The program writes to the address \<open>0x42\<close>, which
  the kernel answers with SIGSEGV.
\<close>

datatype ending = Exited int | Killed int

definition deliver_signal :: "int list \<Rightarrow> string \<Rightarrow> int \<Rightarrow> int \<Rightarrow> int \<Rightarrow> u64 \<Rightarrow> (string \<times> ending) option" where
  "deliver_signal handled trace sig si_errno si_code si_addr =
     (if sig \<in> set handled then map_option (\<lambda>r. (r @ trace, Exited 1)) (sig_handler sig si_errno si_code si_addr)
      else Some ([], Killed sig))"

definition backtrace_main :: "int \<Rightarrow> int \<Rightarrow> string \<Rightarrow> (string \<times> ending) option" where
  "backtrace_main si_errno si_code trace = deliver_signal sig_setup trace 11 si_errno si_code 0x42"

subsection \<open>Decimal conversion\<close>

lemma decimal_digits_length: "decimal_digits n = length (string_of_nat n)"
proof (induction n rule: decimal_digits.induct)
  case (1 n)
  then show ?case
    by (subst decimal_digits.simps, subst string_of_nat.simps) auto
qed

lemma fill_digits_length [simp]: "length (fill_digits d n buf) = length buf"
  by (induction d n buf rule: fill_digits.induct) simp_all

lemma fill_digits_above: "d \<le> i \<Longrightarrow> fill_digits d n buf ! i = buf ! i"
  by (induction d n buf rule: fill_digits.induct) simp_all

lemma drop_update_at: "d < length buf \<Longrightarrow> drop d (buf[d := c]) = c # drop (Suc d) buf"
  by (metis Cons_nth_drop_Suc drop_update_cancel length_list_update lessI nth_list_update_eq)

lemma fill_digits_string:
  "d = decimal_digits n \<Longrightarrow> d \<le> length buf \<Longrightarrow> fill_digits d n buf = string_of_nat n @ drop d buf"
proof (induction n arbitrary: d buf rule: decimal_digits.induct)
  case (1 n)
  show ?case
  proof (cases "n < 10")
    case True
    with 1(2,3) show ?thesis
      by (subst string_of_nat.simps, cases buf) (simp_all add: decimal_digits.simps [of n])
  next
    case False
    then obtain e where d: "d = Suc e" "e = decimal_digits (n div 10)"
      using 1(2) by (simp add: decimal_digits.simps [of n])
    with 1(3) have e: "e \<le> length (buf[e := digit_char (n mod 10)])" by simp
    have "drop e (buf[e := digit_char (n mod 10)]) = digit_char (n mod 10) # drop d buf"
      using 1(3) d(1) by (simp add: drop_update_at)
    with 1(1) [OF False d(2) e] False d show ?thesis
      by (subst string_of_nat.simps) simp
  qed
qed

lemma fill_digits_shift:
  "d = decimal_digits n \<Longrightarrow> Suc d \<le> length buf \<Longrightarrow>
   fill_digits (Suc d) n buf = digit_char 0 # string_of_nat n @ drop (Suc d) buf"
proof (induction n arbitrary: d buf rule: decimal_digits.induct)
  case (1 n)
  let ?buf = "buf[d := digit_char (n mod 10)]"
  have last: "drop d ?buf = digit_char (n mod 10) # drop (Suc d) buf"
    using 1(3) by (simp add: drop_update_at)
  show ?case
  proof (cases "n < 10")
    case True
    then have d: "d = Suc 0" using 1(2) by (simp add: decimal_digits.simps [of n])
    with 1(3) obtain a b bs where "buf = a # b # bs" by (metis Suc_le_length_iff)
    with True d show ?thesis by (subst string_of_nat.simps) simp
  next
    case False
    then obtain e where d: "d = Suc e" "e = decimal_digits (n div 10)"
      using 1(2) by (simp add: decimal_digits.simps [of n])
    from 1(1) [OF False d(2), of ?buf] 1(3) d(1) last False show ?thesis
      by (subst string_of_nat.simps) simp
  qed
qed

lemma to_int_buf_nonneg:
  assumes "length buf = 10" "0 \<le> n" "decimal_digits (nat n) < 10"
  shows "map_option c_string (to_int_buf buf n) = Some (string_of_int n)"
proof -
  let ?d = "decimal_digits (nat n)" and ?buf = "buf[decimal_digits (nat n) := CHR 0x00]"
  have "drop ?d ?buf = CHR 0x00 # drop (Suc ?d) buf"
    using assms(1,3) by (simp add: drop_update_at)
  then have "fill_digits ?d (nat n) ?buf = string_of_nat (nat n) @ CHR 0x00 # drop (Suc ?d) buf"
    using fill_digits_string [OF refl, of "nat n" ?buf] assms(1,3) by simp
  then have "c_string (fill_digits ?d (nat n) ?buf) = string_of_int n"
    using assms(2) string_of_nat_no_nul by (simp add: c_string_digits string_of_int_def)
  with assms(2,3) show ?thesis by (simp add: to_int_buf_def Let_def)
qed

lemma to_int_buf_neg:
  assumes "length buf = 10" "n < 0" "n \<noteq> - (2 ^ 31)" "decimal_digits (nat (- n)) < 9"
  shows "map_option c_string (to_int_buf buf n) = Some (string_of_int n)"
proof -
  let ?d = "decimal_digits (nat (- n))" and ?buf = "buf[Suc (decimal_digits (nat (- n))) := CHR 0x00]"
  have "drop (Suc ?d) ?buf = CHR 0x00 # drop (Suc (Suc ?d)) buf"
    using assms(1,4) by (simp add: drop_update_at)
  then have "fill_digits (Suc ?d) (nat (- n)) ?buf = digit_char 0 # string_of_nat (nat (- n)) @ CHR 0x00 # drop (Suc (Suc ?d)) buf"
    using fill_digits_shift [OF refl, of "nat (- n)" ?buf] assms(1,4) by simp
  then have "c_string ((fill_digits (Suc ?d) (nat (- n)) ?buf)[0 := CHR ''-'']) = string_of_int n"
    using assms(2) c_string_digits [of "CHR ''-'' # string_of_nat (nat (- n))"] string_of_nat_no_nul
    by (simp add: string_of_int_def)
  with assms(2,3,4) show ?thesis by (simp add: to_int_buf_def Let_def)
qed

lemma decimal_digits_less: "0 < k \<Longrightarrow> decimal_digits n \<le> k \<longleftrightarrow> n < 10 ^ k"
proof (induction k arbitrary: n)
  case (Suc k)
  show ?case
  proof (cases "n < 10")
    case True
    then have "n < 10 ^ Suc k" by (rule order_less_le_trans) simp
    then show ?thesis using True by (simp add: decimal_digits.simps [of n])
  next
    case False
    then have "decimal_digits n \<le> Suc k \<longleftrightarrow> decimal_digits (n div 10) \<le> k" by (simp add: decimal_digits.simps [of n])
    also have "\<dots> \<longleftrightarrow> n div 10 < 10 ^ k"
    proof (cases k)
      case 0
      have "1 \<le> decimal_digits (n div 10)" by (subst decimal_digits.simps) simp
      moreover have "n div 10 \<noteq> 0" using False by simp
      ultimately show ?thesis using 0 by simp
    qed (use Suc.IH [of "n div 10"] in simp)
    also have "\<dots> \<longleftrightarrow> n < 10 ^ Suc k" by (simp add: div_less_iff_less_mult mult.commute)
    finally show ?thesis .
  qed
qed simp

lemma to_int_buf_string:
  assumes "length buf = 10"
  shows "map_option c_string (to_int_buf buf n) =
    (if - (10 ^ 8) < n \<and> n < 10 ^ 9 then Some (string_of_int n) else None)"
proof -
  consider "n = - (2 ^ 31)" | "0 \<le> n" | "n < 0" "n \<noteq> - (2 ^ 31)" by linarith
  then show ?thesis
  proof cases
    case 1
    then show ?thesis by (simp add: to_int_buf_def)
  next
    case 2
    have "decimal_digits (nat n) < 10 \<longleftrightarrow> nat n < 10 ^ 9"
      using decimal_digits_less [of 9 "nat n"] by linarith
    also have "\<dots> \<longleftrightarrow> n < 10 ^ 9" using 2 by (simp add: nat_less_iff)
    finally have "decimal_digits (nat n) < 10 \<longleftrightarrow> n < 10 ^ 9" .
    moreover have "- (10 ^ 8) < n" using 2 by simp
    moreover have "to_int_buf buf n = None" if "\<not> decimal_digits (nat n) < 10"
      using that 2 by (simp add: to_int_buf_def)
    ultimately show ?thesis using to_int_buf_nonneg [OF assms 2] by fastforce
  next
    case 3
    have "decimal_digits (nat (- n)) < 9 \<longleftrightarrow> nat (- n) < 10 ^ 8"
      using decimal_digits_less [of 8 "nat (- n)"] by linarith
    also have "\<dots> \<longleftrightarrow> - n < 10 ^ 8" using 3 by (simp add: nat_less_iff)
    finally have "decimal_digits (nat (- n)) < 9 \<longleftrightarrow> - (10 ^ 8) < n" by auto
    moreover have "n < 10 ^ 9" using 3 by simp
    moreover have "to_int_buf buf n = None" if "\<not> decimal_digits (nat (- n)) < 9"
      using that 3 by (simp add: to_int_buf_def)
    ultimately show ?thesis using to_int_buf_neg [OF assms 3] by fastforce
  qed
qed

text \<open>
  C29: The signal handler's own integer conversion gives the decimal numeral, whatever an earlier call left
  in its buffer, for all integers of at most nine characters, and it writes past the buffer for
  all others, so that a report with such an error number or code does not come out.
\<close>

theorem to_int_equals_to_string:
  assumes "length buf = 10"
  shows "map_option c_string (to_int_buf buf n) =
    (if - (10 ^ 8) < n \<and> n < 10 ^ 9 then Some (string_of_int n) else None)"
  using assms by (rule to_int_buf_string)

theorem to_int_equals_to_string_witness:
  "map_option c_string (to_int_buf ''0123456789'' (- 305)) = Some ''-305'' \<and>
   map_option c_string (to_int_buf ''0123456789'' 1000000000) = None"
proof -
  have "string_of_int (- 305) = ''-305''" by code_simp
  then show ?thesis by (simp add: to_int_equals_to_string)
qed

subsection \<open>Hexadecimal conversion\<close>

definition hex_value :: "char \<Rightarrow> nat" where
  "hex_value c = (if is_digit c then of_char c - 48 else of_char c - 87)"

definition value_of_hex :: "string \<Rightarrow> nat" where
  "value_of_hex s = foldl (\<lambda>acc c. 16 * acc + hex_value c) 0 s"

lemma hex_digit_value: "v < 16 \<Longrightarrow> hex_value (hex_digit v) = unat v"
proof -
  assume "v < 16"
  then have "unat v < 16" by (simp add: word_less_nat_alt)
  then have "unat v \<in> set [0..<16]" by simp
  then show ?thesis
    by (auto simp: hex_digit_def hex_value_def is_digit_def upt_rec)
qed

lemma value_of_hex_append: "value_of_hex (s @ [a, b]) = 256 * value_of_hex s + 16 * hex_value a + hex_value b"
  by (simp add: value_of_hex_def)

lemma value_of_hex_Cons: "value_of_hex (c # s) = 16 ^ length s * hex_value c + value_of_hex s"
proof (induction s arbitrary: c rule: rev_induct)
  case (snoc x s)
  then show ?case by (simp add: value_of_hex_def)
qed (simp add: value_of_hex_def)

lemma hex_loop_length [simp]: "length (hex_loop i n) = 2 * i"
  by (induction i) (simp_all add: Let_def)

lemma unat_and_ones: "unat (x AND mask k :: u64) = unat x mod 2 ^ k"
  unfolding take_bit_eq_mask [symmetric] unsigned_take_bit_eq by (rule take_bit_eq_mod)

lemma unat_drop: "unat (drop_bit k x :: u64) = unat x div 2 ^ k"
  unfolding unat_drop_bit_eq by (rule drop_bit_eq_div)

lemma hex_masks: "(0xFF :: u64) = mask 8" "(0x0F :: u64) = mask 4"
  by (simp_all add: mask_eq_exp_minus_1)

lemma hex_byte:
  assumes "b = drop_bit (8 * i) n AND 0xFF"
  shows "16 * hex_value (hex_digit (drop_bit 4 b AND 0x0F)) + hex_value (hex_digit (b AND 0x0F)) = unat n div 256 ^ i mod 256"
proof -
  have b: "unat b = unat n div 256 ^ i mod 256"
    unfolding assms hex_masks unat_and_ones unat_drop by (simp add: power_mult)
  have nib: "unat (x AND 0x0F) = unat x mod 16" for x :: u64
    unfolding hex_masks unat_and_ones by simp
  have "unat b < 256" unfolding b by simp
  moreover have "x AND 0x0F < 16" for x :: u64
    using nib [of x] by (simp add: word_less_nat_alt)
  ultimately show ?thesis
    using b by (simp add: hex_digit_value nib unat_drop)
qed

lemma hex_step:
  "value_of_hex (c # c' # hex_loop i n) = 256 ^ i * (16 * hex_value c + hex_value c') + value_of_hex (hex_loop i n)"
proof -
  have "(16 :: nat) ^ (2 * i) = 256 ^ i" by (simp add: power_mult)
  then show ?thesis by (simp only: value_of_hex_Cons length_Cons hex_loop_length power_Suc) (simp add: algebra_simps)
qed

lemma value_hex_loop: "value_of_hex (hex_loop i n) = unat n mod 256 ^ i"
proof (induction i)
  case 0
  then show ?case by (simp add: value_of_hex_def)
next
  case (Suc i)
  have "value_of_hex (hex_loop (Suc i) n) = 256 ^ i * (unat n div 256 ^ i mod 256) + unat n mod 256 ^ i"
    unfolding hex_loop.simps Let_def hex_step hex_byte [OF refl] Suc.IH ..
  also have "\<dots> = unat n mod 256 ^ Suc i"
    using mod_mult2_eq [of "unat n" "256 ^ i" 256] by (simp add: mult.commute)
  finally show ?case .
qed

text \<open>
  The report of the signal handler: the address is written as sixteen hexadecimal digits that read back
  as the address. The report comes out in full exactly when the error number, the code and, for a
  signal without a name, its number have at most nine characters.
\<close>

theorem signal_report:
  "length (to_hex_uint a) = 16 \<and> value_of_hex (to_hex_uint a) = unat a \<and>
   (sig_handler sig e c a =
      (if (sig \<in> {2, 15, 6, 11, 7} \<or> - (10 ^ 8) < sig \<and> sig < 10 ^ 9) \<and>
          - (10 ^ 8) < e \<and> e < 10 ^ 9 \<and> - (10 ^ 8) < c \<and> c < 10 ^ 9
       then Some (the (signal_text sig) @ [CHR 0x0A] @ ''errno: '' @ string_of_int e @ [CHR 0x0A] @
         ''code: '' @ string_of_int c @ [CHR 0x0A] @ ''address: '' @ to_hex_uint a @ [CHR 0x0A])
       else None))"
proof (intro conjI)
  show "value_of_hex (to_hex_uint a) = unat a"
    using unsigned_less [of a, where ?'a = nat] by (simp add: to_hex_uint_def value_hex_loop)
  note conv = to_int_def to_int_buf_string [of "replicate 10 (CHR 0x00)"]
  have "\<exists>t. signal_text sig = Some t" if "sig \<in> {2, 15, 6, 11, 7} \<or> - (10 ^ 8) < sig \<and> sig < 10 ^ 9"
    using that by (auto simp: signal_text_def conv)
  moreover have "signal_text sig = None" if "\<not> (sig \<in> {2, 15, 6, 11, 7} \<or> - (10 ^ 8) < sig \<and> sig < 10 ^ 9)"
    using that by (simp add: signal_text_def conv)
  ultimately show "sig_handler sig e c a =
      (if (sig \<in> {2, 15, 6, 11, 7} \<or> - (10 ^ 8) < sig \<and> sig < 10 ^ 9) \<and>
          - (10 ^ 8) < e \<and> e < 10 ^ 9 \<and> - (10 ^ 8) < c \<and> c < 10 ^ 9
       then Some (the (signal_text sig) @ [CHR 0x0A] @ ''errno: '' @ string_of_int e @ [CHR 0x0A] @
         ''code: '' @ string_of_int c @ [CHR 0x0A] @ ''address: '' @ to_hex_uint a @ [CHR 0x0A])
       else None)"
    by (cases "sig \<in> {2, 15, 6, 11, 7} \<or> - (10 ^ 8) < sig \<and> sig < 10 ^ 9") (auto simp: sig_handler_def conv)
qed (simp add: to_hex_uint_def)

text \<open>
  The program reports its own fault and exits. Of the signals with a name in the report SIGTERM and SIGBUS are not
  handled, and SIGHUP, which is, has no name.
\<close>

theorem backtrace_main_reports:
  "backtrace_main 0 1 trace =
     Some (''SIGSEGV'' @ [CHR 0x0A] @ ''errno: 0'' @ [CHR 0x0A] @ ''code: 1'' @ [CHR 0x0A] @
       ''address: 0000000000000042'' @ [CHR 0x0A] @ trace, Exited 1) \<and>
   deliver_signal sig_setup trace 15 e c a = Some ([], Killed 15) \<and>
   deliver_signal sig_setup trace 7 e c a = Some ([], Killed 7) \<and>
   signal_text 1 = Some ''1''"
proof -
  have "sig_handler 11 0 1 0x42 = Some (''SIGSEGV'' @ [CHR 0x0A] @ ''errno: 0'' @ [CHR 0x0A] @ ''code: 1'' @ [CHR 0x0A] @
       ''address: 0000000000000042'' @ [CHR 0x0A])" by code_simp
  moreover have "signal_text 1 = Some ''1''" by code_simp
  ultimately show ?thesis by (simp add: backtrace_main_def deliver_signal_def sig_setup_def)
qed

end
