(* ===== verification/Serial_Dump.thy ===== *)
theory Serial_Dump
  imports Prelude
begin

section \<open>The serial port logger\<close>

text \<open>
  Models \<^verbatim>\<open>serial_dump/serialdump.c\<close>: the options, the terminal settings they give, and the loop that
  prints what is read. The constants are those of Linux. The answers of the system are arguments: the
  value of \<^verbatim>\<open>errno\<close> when the options are read, whether \<^verbatim>\<open>cfsetospeed\<close>, \<^verbatim>\<open>open\<close> and \<^verbatim>\<open>tcsetattr\<close> succeed, and
  the list of what each turn of the loop meets until the program is interrupted.
\<close>

definition CREAD :: u32 where "CREAD = 0x80"
definition CLOCAL :: u32 where "CLOCAL = 0x800"
definition CS5 :: u32 where "CS5 = 0"
definition CS6 :: u32 where "CS6 = 0x10"
definition CS7 :: u32 where "CS7 = 0x20"
definition CS8 :: u32 where "CS8 = 0x30"
definition CSTOPB :: u32 where "CSTOPB = 0x40"
definition PARENB :: u32 where "PARENB = 0x100"
definition PARODD :: u32 where "PARODD = 0x200"
definition INPCK :: u32 where "INPCK = 0x10"

record termios =
  c_iflag :: u32
  c_cflag :: u32
  speed :: u32

text \<open>The usage text, line by line; the name of the program is the argument.\<close>

definition usage_rates :: "string list" where
  "usage_rates =
     [''9600'', ''19200'', ''38400'', ''57600'', ''115200 (default)'', ''230400'', ''460800'', ''500000'', ''576000'',
      ''921600'', ''1000000'', ''1152000'', ''1500000'', ''2000000'', ''2500000'', ''3000000'', ''3500000'', ''4000000'']"

definition print_usage :: "string \<Rightarrow> string list" where
  "print_usage app =
     [''Serial port logger tool'', ''Usage:'', app @ '' <device> [options]'', ''-t: print timestamp'',
      ''-b <baud rate>''] @ map (\<lambda>r. ''   '' @ r) usage_rates @
     [''-5: word len = 5'', ''-6: word len = 6'', ''-7: word len = 7'', ''-8: word len = 8 (default)'',
      ''-s <stop bits>'', ''   1 (default)'', ''   2'',
      ''-e: parity = even'', ''-o: parity = odd'', ''-n: parity = none (default)'']"

text \<open>The conversion of the result of \<^verbatim>\<open>strtoul\<close> to \<^verbatim>\<open>int\<close>; a number too big sets \<^verbatim>\<open>errno\<close>.\<close>

definition parse_num :: "bool \<Rightarrow> string \<Rightarrow> u32 option" where
  "parse_num errno_set s =
     (case strtoul10 s of (v, too_big) \<Rightarrow> if errno_set \<or> too_big then None else Some (of_nat v))"

definition baud_rates :: "(u32 \<times> u32) list" where
  "baud_rates =
     [(9600, 0xd), (19200, 0xe), (38400, 0xf), (57600, 0x1001), (115200, 0x1002), (230400, 0x1003),
      (460800, 0x1004), (500000, 0x1005), (576000, 0x1006), (921600, 0x1007), (1000000, 0x1008),
      (1152000, 0x1009), (1500000, 0x100a), (2000000, 0x100b), (2500000, 0x100c), (3000000, 0x100d),
      (3500000, 0x100e), (4000000, 0x100f)]"

definition baud :: "u32 \<Rightarrow> u32 option" where
  "baud num = map_of baud_rates num"

record settings =
  tty :: termios
  rate :: u32
  print_time :: bool

definition settings_init :: settings where
  "settings_init =
     \<lparr>tty = \<lparr>c_iflag = 0, c_cflag = (CREAD OR CLOCAL) OR CS8, speed = 0\<rparr>, rate = 0x1002, print_time = False\<rparr>"

definition or_cflag :: "u32 \<Rightarrow> settings \<Rightarrow> settings" where
  "or_cflag f s = s\<lparr>tty := (tty s)\<lparr>c_cflag := c_cflag (tty s) OR f\<rparr>\<rparr>"

definition and_cflag :: "u32 \<Rightarrow> settings \<Rightarrow> settings" where
  "and_cflag f s = s\<lparr>tty := (tty s)\<lparr>c_cflag := c_cflag (tty s) AND f\<rparr>\<rparr>"

definition or_iflag :: "u32 \<Rightarrow> settings \<Rightarrow> settings" where
  "or_iflag f s = s\<lparr>tty := (tty s)\<lparr>c_iflag := c_iflag (tty s) OR f\<rparr>\<rparr>"

definition and_iflag :: "u32 \<Rightarrow> settings \<Rightarrow> settings" where
  "and_iflag f s = s\<lparr>tty := (tty s)\<lparr>c_iflag := c_iflag (tty s) AND f\<rparr>\<rparr>"

text \<open>The loop over the arguments; none is the return value 1.\<close>

fun parse_opts :: "bool \<Rightarrow> string list \<Rightarrow> settings \<Rightarrow> settings option" where
  "parse_opts er [] s = Some s"
| "parse_opts er (a # args) s =
     (if a = ''-t'' then parse_opts er args (s\<lparr>print_time := True\<rparr>)
      else if a = ''-b'' then
        (case args of
           [] \<Rightarrow> None
         | v # args' \<Rightarrow>
             (case parse_num er v of
                None \<Rightarrow> None
              | Some num \<Rightarrow>
                  (case baud num of
                     None \<Rightarrow> None
                   | Some r \<Rightarrow> parse_opts er args' (s\<lparr>rate := r\<rparr>))))
      else if a = ''-5'' then parse_opts er args (or_cflag CS5 s)
      else if a = ''-6'' then parse_opts er args (or_cflag CS6 s)
      else if a = ''-7'' then parse_opts er args (or_cflag CS7 s)
      else if a = ''-8'' then parse_opts er args (or_cflag CS8 s)
      else if a = ''-s'' then
        (case args of
           [] \<Rightarrow> None
         | v # args' \<Rightarrow>
             (case parse_num er v of
                None \<Rightarrow> None
              | Some num \<Rightarrow>
                  if num = 1 then parse_opts er args' (and_cflag (NOT CSTOPB) s)
                  else if num = 2 then parse_opts er args' (or_cflag CSTOPB s)
                  else None))
      else if a = ''-o'' then parse_opts er args (or_iflag PARENB (or_iflag PARODD (or_iflag INPCK s)))
      else if a = ''-e'' then parse_opts er args (or_iflag PARENB (or_iflag INPCK s))
      else if a = ''-n'' then
        parse_opts er args (and_iflag (NOT PARENB) (and_iflag (NOT PARODD) (and_iflag (NOT INPCK) s)))
      else None)"

definition parse_args :: "bool \<Rightarrow> bool \<Rightarrow> string list \<Rightarrow> (termios \<times> bool) option" where
  "parse_args er speed_ok argv =
     (if length argv < 3 then None
      else case parse_opts er (drop 2 argv) settings_init of
          None \<Rightarrow> None
        | Some s \<Rightarrow> if speed_ok then Some ((tty s)\<lparr>speed := rate s\<rparr>, print_time s) else None)"

subsection \<open>The loop\<close>

definition upper_hex_digit :: "nat \<Rightarrow> char" where
  "upper_hex_digit d = ''0123456789ABCDEF'' ! d"

fun upper_hex :: "nat \<Rightarrow> string" where
  "upper_hex n = (if n < 16 then [upper_hex_digit n] else upper_hex (n div 16) @ [upper_hex_digit (n mod 16)])"

declare upper_hex.simps [simp del]

text \<open>\<^verbatim>\<open>%X\<close> of a \<^verbatim>\<open>char\<close>, which is signed and is converted to \<^verbatim>\<open>int\<close>.\<close>

definition print_byte :: "u8 \<Rightarrow> string" where
  "print_byte b = upper_hex (unat (scast b :: u32))"

definition pad3 :: "nat \<Rightarrow> string" where
  "pad3 n = (let s = string_of_nat n in replicate (3 - length s) CHR ''0'' @ s)"

text \<open>
  What one turn of the loop meets: the time of day is its text and the microseconds. When the handler of SIGINT has
  set \<^verbatim>\<open>g_stop\<close> there is no further turn.
\<close>

datatype turn = Interrupted | Select_error | Select_timeout | Readable "u8 list option" "string \<times> nat"

definition dump_chunk :: "bool \<Rightarrow> string \<times> nat \<Rightarrow> u8 list \<Rightarrow> string" where
  "dump_chunk with_time t bytes =
     (if with_time then fst t @ '':'' @ pad3 (snd t div 1000) @ '' '' else []) @
     concat (map print_byte bytes) @ (if with_time then [CHR 0x0A] else [])"

text \<open>The output, and whether the loop is still running at the end of the list.\<close>

fun dump_loop :: "bool \<Rightarrow> turn list \<Rightarrow> string \<times> bool" where
  "dump_loop with_time [] = ([], True)"
| "dump_loop with_time (t # ts) =
     (case t of
        Interrupted \<Rightarrow> ([], False)
      | Select_error \<Rightarrow> ([], False)
      | Select_timeout \<Rightarrow> dump_loop with_time ts
      | Readable data time \<Rightarrow>
          (case data of
             None \<Rightarrow> dump_loop with_time ts
           | Some bytes \<Rightarrow>
               if bytes = [] then dump_loop with_time ts
               else (case dump_loop with_time ts of
                   (out, running) \<Rightarrow> (dump_chunk with_time time bytes @ out, running))))"

definition serial_main :: "bool \<Rightarrow> bool \<Rightarrow> bool \<Rightarrow> bool \<Rightarrow> string list \<Rightarrow> turn list \<Rightarrow> string \<times> int" where
  "serial_main er speed_ok opened set_ok argv ts =
     (case parse_args er speed_ok argv of
        None \<Rightarrow> (concat (map (\<lambda>l. l @ [CHR 0x0A]) (print_usage (argv ! 0))), 1)
      | Some (t, with_time) \<Rightarrow>
          if \<not> opened then (''Failed to open device'' @ [CHR 0x0A], 1)
          else if \<not> set_ok then (''Failed setup device'' @ [CHR 0x0A], 0)
          else (fst (dump_loop with_time ts), 0))"

end
