(* ===== verification/Serial_Properties.thy ===== *)
theory Serial_Properties
  imports Serial_Dump
begin

section \<open>What the serial port logger promises\<close>

subsection \<open>Options\<close>

















subsection \<open>The settings that come out\<close>

definition line_ok :: "settings \<Rightarrow> bool" where
  "line_ok s \<longleftrightarrow>
     c_cflag (tty s) AND NOT CSTOPB = CREAD OR CLOCAL OR CS8 \<and>
     c_iflag (tty s) AND NOT (INPCK OR PARODD OR PARENB) = 0 \<and>
     rate s \<in> snd ` set baud_rates"

lemmas flag_defs = CREAD_def CLOCAL_def CS5_def CS6_def CS7_def CS8_def CSTOPB_def PARENB_def PARODD_def INPCK_def

lemma line_ok_init: "line_ok settings_init"
  by (simp add: line_ok_def settings_init_def flag_defs baud_rates_def)

lemma line_ok_or_cflag [keeps]:
  "line_ok s \<Longrightarrow> f \<in> {CS5, CS6, CS7, CS8, CSTOPB} \<Longrightarrow> line_ok (or_cflag f s)"
  unfolding line_ok_def or_cflag_def by (auto simp: bit.conj_disj_distrib2 flag_defs)

lemma line_ok_and_cflag [keeps]: "line_ok s \<Longrightarrow> line_ok (and_cflag (NOT CSTOPB) s)"
  by (simp add: line_ok_def and_cflag_def and.assoc) (simp add: flag_defs)

lemma line_ok_or_iflag [keeps]:
  "line_ok s \<Longrightarrow> f \<in> {INPCK, PARODD, PARENB} \<Longrightarrow> line_ok (or_iflag f s)"
  unfolding line_ok_def or_iflag_def by (auto simp: bit.conj_disj_distrib2 flag_defs)

lemma and_and_zero: "x AND m = 0 \<Longrightarrow> (x AND f) AND m = 0" for x m f :: u32
  by (metis and.assoc and.commute and_zero_eq)

lemma line_ok_and_iflag [keeps]: "line_ok s \<Longrightarrow> line_ok (and_iflag f s)"
  by (simp add: line_ok_def and_iflag_def and_and_zero)

lemma line_ok_rate [keeps]: "line_ok s \<Longrightarrow> baud num = Some r \<Longrightarrow> line_ok (s\<lparr>rate := r\<rparr>)"
  by (force simp: line_ok_def baud_def dest: map_of_SomeD)

lemma line_ok_time [keeps]: "line_ok s \<Longrightarrow> line_ok (s\<lparr>print_time := b\<rparr>)"
  by (simp add: line_ok_def)

lemma line_ok_flags:
  assumes "line_ok s"
  shows "line_ok (or_cflag CS5 s)" "line_ok (or_cflag CS6 s)" "line_ok (or_cflag CS7 s)" "line_ok (or_cflag CS8 s)"
    "line_ok (or_cflag CSTOPB s)" "line_ok (or_iflag INPCK s)" "line_ok (or_iflag PARODD s)" "line_ok (or_iflag PARENB s)"
  by (rule keeps [OF assms]; simp)+

lemma parse_opts_step:
  assumes "parse_opts er (a # args) s = Some s'" "line_ok s"
  shows "\<exists>args' s1. length args' \<le> length args \<and> parse_opts er args' s1 = Some s' \<and> line_ok s1"
proof (cases "a = ''-b'' \<or> a = ''-s''")
  case True
  with assms(1) obtain v args' num where v: "args = v # args'" "parse_num er v = Some num"
    by (auto split: list.splits option.splits)
  then have len: "length args' \<le> length args" by simp
  from True v assms(1) consider r where "baud num = Some r" "parse_opts er args' (s\<lparr>rate := r\<rparr>) = Some s'"
    | "parse_opts er args' (and_cflag (NOT CSTOPB) s) = Some s'" | "parse_opts er args' (or_cflag CSTOPB s) = Some s'"
    by (auto split: option.splits if_splits)
  then show ?thesis
  proof cases
    case 1
    with len line_ok_rate [OF assms(2)] show ?thesis by blast
  next
    case 2
    with len line_ok_and_cflag [OF assms(2)] show ?thesis by blast
  next
    case 3
    with len line_ok_flags [OF assms(2)] show ?thesis by blast
  qed
next
  case False
  with assms(1) consider "parse_opts er args (s\<lparr>print_time := True\<rparr>) = Some s'"
    | f where "f \<in> {CS5, CS6, CS7, CS8}" "parse_opts er args (or_cflag f s) = Some s'"
    | "parse_opts er args (or_iflag PARENB (or_iflag PARODD (or_iflag INPCK s))) = Some s'"
    | "parse_opts er args (or_iflag PARENB (or_iflag INPCK s)) = Some s'"
    | "parse_opts er args (and_iflag (NOT PARENB) (and_iflag (NOT PARODD) (and_iflag (NOT INPCK) s))) = Some s'"
    unfolding parse_opts.simps by (simp only: if_False split: if_splits) blast+
  then show ?thesis
    using line_ok_time [OF assms(2)] line_ok_or_cflag [OF assms(2)] line_ok_flags(6-8) line_ok_and_iflag assms(2)
    by cases (metis insert_iff order_refl)+
qed

lemma parse_opts_ok: "parse_opts er args s = Some s' \<Longrightarrow> line_ok s \<Longrightarrow> line_ok s'"
proof (induction "length args" arbitrary: args s rule: less_induct)
  case less
  show ?case
  proof (cases args)
    case (Cons a as)
    with parse_opts_step [of er a as s s'] less(2,3) obtain args' s1 where
      "length args' \<le> length as" "parse_opts er args' s1 = Some s'" "line_ok s1" by auto
    with less(1) [of args' s1] Cons show ?thesis by simp
  qed (use less in simp)
qed

lemma digit_chars:
  "digit_char 0 = CHR ''0''" "digit_char 1 = CHR ''1''" "digit_char 2 = CHR ''2''" "digit_char 3 = CHR ''3''"
  "digit_char 4 = CHR ''4''" "digit_char 5 = CHR ''5''" "digit_char 6 = CHR ''6''" "digit_char 7 = CHR ''7''"
  "digit_char 8 = CHR ''8''" "digit_char 9 = CHR ''9''"
  by code_simp+

definition rate_numbers :: "nat list" where
  "rate_numbers =
     [9600, 19200, 38400, 57600, 115200, 230400, 460800, 500000, 576000, 921600, 1000000, 1152000, 1500000,
      2000000, 2500000, 3000000, 3500000, 4000000]"

lemma usage_rates_numbers:
  "usage_rates = map (\<lambda>n. string_of_nat n @ (if n = 115200 then '' (default)'' else [])) rate_numbers"
  by (simp add: usage_rates_def rate_numbers_def string_of_nat.simps digit_chars digit_chars(2) [simplified])

lemma strtoul_string_of_nat_then:
  assumes "n < 2 ^ 64" "\<not> is_digit c"
  shows "strtoul10 (string_of_nat n @ c # r) = (n, False)"
proof -
  obtain d ds where s: "string_of_nat n = d # ds" by (metis list.exhaust string_of_nat_nonempty)
  then have "\<not> is_space d" "d \<noteq> CHR ''-''" "d \<noteq> CHR ''+''"
    using string_of_nat_hd_digit [of n] digit_plain by auto
  moreover have "takeWhile is_digit (string_of_nat n @ c # r) = string_of_nat n"
    using string_of_nat_digits assms(2) by (subst takeWhile_append2) auto
  then have "value_of_digits (takeWhile is_digit (d # ds @ c # r)) = n" by (metis append_Cons s value_string_of_nat)
  ultimately show ?thesis using assms(1) by (simp add: strtoul10_def s Let_def)
qed

lemma usage_rates_accepted: "r \<in> set usage_rates \<Longrightarrow> \<exists>n. parse_num False r = Some n \<and> baud n \<noteq> None"
proof -
  assume "r \<in> set usage_rates"
  then obtain n where n: "r = string_of_nat n @ (if n = 115200 then '' (default)'' else [])" "n \<in> set rate_numbers"
    unfolding usage_rates_numbers set_map by (rule imageE)
  have lt: "n < 2 ^ 64" using n(2) by (auto simp: rate_numbers_def)
  have "\<not> is_digit (CHR '' '')" by (simp add: is_digit_def)
  then have "strtoul10 r = (n, False)"
    using n(1) strtoul_string_of_nat [OF lt] strtoul_string_of_nat_then [OF lt, of "CHR '' ''" "''(default)''"]
    by (cases "n = 115200") simp_all
  then have "parse_num False r = Some (of_nat n)" by (simp add: parse_num_def)
  moreover have "baud (of_nat n) \<noteq> None" using n(2) by (auto simp: rate_numbers_def baud_def baud_rates_def)
  ultimately show ?thesis by blast
qed

text \<open>
  Whatever the command line, when it is accepted the terminal has one of the eighteen speeds and the
  receiver on, and every speed of the usage text is accepted. But it always has eight data bits and no
  parity: the options for the word length are or-ed onto the default of eight, and the options for
  the parity are set in the input flags, where these bits have another meaning.
\<close>

theorem serial_line_settings:
  assumes "parse_args er ok argv = Some (t, time)"
  shows "c_cflag t AND NOT CSTOPB = CREAD OR CLOCAL OR CS8 \<and> c_cflag t AND CS8 = CS8 \<and>
    c_cflag t AND (PARENB OR PARODD) = 0 \<and> c_iflag t AND NOT (INPCK OR PARODD OR PARENB) = 0 \<and>
    speed t \<in> snd ` set baud_rates \<and>
    (\<forall>r \<in> set usage_rates. \<exists>n. parse_num False r = Some n \<and> baud n \<noteq> None)"
proof -
  from assms obtain s where s: "parse_opts er (drop 2 argv) settings_init = Some s" "t = (tty s)\<lparr>speed := rate s\<rparr>"
    by (auto simp: parse_args_def split: if_splits option.splits)
  have ok: "line_ok s" using parse_opts_ok [OF s(1) line_ok_init] .
  then have c: "c_cflag t AND NOT CSTOPB = CREAD OR CLOCAL OR CS8" by (simp add: s(2) line_ok_def)
  have "c_cflag t AND CS8 = (c_cflag t AND NOT CSTOPB) AND CS8"
    "c_cflag t AND (PARENB OR PARODD) = (c_cflag t AND NOT CSTOPB) AND (PARENB OR PARODD)"
    by (simp_all add: and.assoc) (simp_all add: flag_defs)
  then have "c_cflag t AND CS8 = CS8" "c_cflag t AND (PARENB OR PARODD) = 0"
    unfolding c by (simp_all add: flag_defs)
  then show ?thesis using ok c usage_rates_accepted by (simp add: s(2) line_ok_def)
qed

theorem serial_line_settings_witness:
  "c_cflag (fst (the (parse_args False True [''dump'', ''/dev/ttyS0'', ''-7'', ''-e'']))) AND CS8 = CS8"
proof -
  let ?r = "parse_args False True [''dump'', ''/dev/ttyS0'', ''-7'', ''-e'']"
  have "?r \<noteq> None" by code_simp
  then obtain t time where "?r = Some (t, time)" by auto
  with serial_line_settings [OF this] show ?thesis by simp
qed

subsection \<open>The dump\<close>

definition hex_val :: "char \<Rightarrow> nat" where
  "hex_val c = (if is_digit c then of_char c - 48 else of_char c - 55)"

fun read_pairs :: "string \<Rightarrow> u8 list" where
  "read_pairs (a # b # r) = of_nat (16 * hex_val a + hex_val b) # read_pairs r"
| "read_pairs r = []"

lemma hex_val_digit: "d < 16 \<Longrightarrow> hex_val (upper_hex_digit d) = d"
proof -
  assume "d < 16"
  then have "d \<in> set [0..<16]" by simp
  then show ?thesis by (auto simp: upper_hex_digit_def hex_val_def is_digit_def upt_rec)
qed

lemma print_byte_pair:
  assumes "16 \<le> b" "b < 0x80"
  shows "print_byte b = [upper_hex_digit (unat b div 16), upper_hex_digit (unat b mod 16)]"
proof -
  have b: "16 \<le> unat b" "unat b < 128" using assms by (simp_all add: word_le_nat_alt word_less_nat_alt)
  have u: "0 \<le> uint b" "uint b < 128" using assms(2) by (simp_all add: word_less_def)
  then have "sint b = uint b" unfolding sint_uint by (intro signed_take_bit_int_eq_self) (use order_trans [of "- 128" 0 "uint b"] in simp_all)
  then have "(scast b :: u32) = word_of_int (uint b)" by (simp only: scast_eq)
  moreover have "uint (word_of_int (uint b) :: u32) = take_bit 32 (uint b)" by (rule uint_word_of_int_eq [where ?'a = 32, simplified])
  moreover have "take_bit 32 (uint b) = uint b" using u by (intro take_bit_int_eq_self) simp_all
  ultimately have "unat (scast b :: u32) = unat b" by (simp only: unat_eq_nat_uint)
  moreover have "unat b div 16 < 16" using b(2) by (simp add: div_less_iff_less_mult)
  ultimately show ?thesis using b by (simp add: print_byte_def upper_hex.simps [of "unat b"] upper_hex.simps [of "unat b div 16"])
qed

lemma read_pairs_print:
  "\<forall>b \<in> set bytes. 16 \<le> b \<and> b < 0x80 \<Longrightarrow> read_pairs (concat (map print_byte bytes)) = bytes"
proof (induction bytes)
  case (Cons b bytes)
  then have "16 \<le> b" "b < 0x80" by auto
  moreover have "unat b div 16 < 16" using \<open>b < 0x80\<close> by (simp add: word_less_nat_alt div_less_iff_less_mult)
  moreover have "(of_nat (16 * (unat b div 16) + unat b mod 16) :: u8) = b"
    by (simp only: mult_div_mod_eq) (simp only: of_nat_unat ucast_id)
  ultimately show ?case using Cons by (simp add: print_byte_pair hex_val_digit)
qed simp

lemma dump_no_data:
  "\<forall>t \<in> set ts. t = Select_timeout \<or> (\<exists>x. t = Readable None x) \<or> (\<exists>x. t = Readable (Some []) x) \<Longrightarrow>
   dump_loop with_time (ts @ us) = dump_loop with_time us"
  by (induction ts) auto

text \<open>
  C31: What the logger prints can be read back when the bytes are printable or at least above 15 and below
  128: two digits each. Outside this range it cannot: there is no leading zero, so different
  data print the same, and a byte from 128 on is sign-extended to eight digits. When the device is gone,
  \<^verbatim>\<open>read\<close> answers 0 or an error again and again, and the loop goes on for ever without a word.
\<close>

theorem serial_dump_reads_back:
  "(\<forall>bytes x. (\<forall>b \<in> set bytes. 16 \<le> b \<and> b < 0x80) \<longrightarrow> bytes \<noteq> [] \<longrightarrow>
      read_pairs (fst (dump_loop False [Readable (Some bytes) x])) = bytes) \<and>
   dump_loop False [Readable (Some [0x01, 0x23]) x] = dump_loop False [Readable (Some [0x12, 0x03]) x] \<and>
   dump_loop False [Readable (Some [0x80]) x] = (''FFFFFF80'', True) \<and>
   dump_loop with_time (replicate n (Readable (Some []) x)) = ([], True) \<and>
   dump_loop with_time (replicate n (Readable None x)) = ([], True)"
proof (intro conjI allI impI)
  fix bytes :: "u8 list" and x
  assume "\<forall>b \<in> set bytes. 16 \<le> b \<and> b < 0x80" "bytes \<noteq> []"
  then show "read_pairs (fst (dump_loop False [Readable (Some bytes) x])) = bytes"
    by (simp add: dump_chunk_def read_pairs_print)
next
  have "concat (map print_byte [0x01, 0x23]) = concat (map print_byte [0x12, 0x03])" by code_simp
  then show "dump_loop False [Readable (Some [0x01, 0x23]) x] = dump_loop False [Readable (Some [0x12, 0x03]) x]"
    by (simp add: dump_chunk_def)
  have "upper_hex 0xFFFFFF80 = ''FFFFFF80''"
    by (simp add: upper_hex.simps upper_hex_digit_def)
  moreover have "unat (scast (0x80 :: u8) :: u32) = 0xFFFFFF80" by simp
  ultimately have "print_byte 0x80 = ''FFFFFF80''" by (simp only: print_byte_def)
  then show "dump_loop False [Readable (Some [0x80]) x] = (''FFFFFF80'', True)"
    by (simp add: dump_chunk_def)
  show "dump_loop with_time (replicate n (Readable (Some []) x)) = ([], True)"
    using dump_no_data [of "replicate n (Readable (Some []) x)" with_time "[]"] by simp
  show "dump_loop with_time (replicate n (Readable None x)) = ([], True)"
    using dump_no_data [of "replicate n (Readable None x)" with_time "[]"] by simp
qed

theorem serial_dump_reads_back_witness:
  "read_pairs (fst (dump_loop False [Readable (Some [0x48, 0x69]) ('''', 0)])) = [0x48, 0x69]"
  using serial_dump_reads_back [of "('''', 0)"] by simp

end
