(* ===== verification/Subprocess.thy ===== *)
theory Subprocess
  imports Prelude
begin

section \<open>Running a program behind two pipes\<close>

text \<open>
  Models the class \<^verbatim>\<open>Subprocess\<close> of \<^verbatim>\<open>subprocess_io/subprocess_io.cpp\<close>. A process has a table of open
  descriptors; a new descriptor is the lowest free number, and a child starts with a copy of the table.
  A pipe is known by a number. The answers of \<^verbatim>\<open>pipe\<close>, \<^verbatim>\<open>fork\<close> and \<^verbatim>\<open>select\<close> are arguments. The
  descriptors of an object are not initialized before its constructor closes them: they are an argument.
\<close>

subsection \<open>Descriptors, users and signals\<close>

datatype obj = Other nat | Pipe_read nat | Pipe_write nat

type_synonym table = "obj option list"

definition fd_get :: "int \<Rightarrow> table \<Rightarrow> obj option" where
  "fd_get fd t = (if 0 \<le> fd \<and> nat fd < length t then t ! nat fd else None)"

definition fd_close :: "int \<Rightarrow> table \<Rightarrow> table" where
  "fd_close fd t = (if 0 \<le> fd \<and> nat fd < length t then t[nat fd := None] else t)"

definition fd_put :: "nat \<Rightarrow> obj option \<Rightarrow> table \<Rightarrow> table" where
  "fd_put fd x t = (if fd < length t then t[fd := x] else t @ replicate (fd - length t) None @ [x])"

definition fd_alloc :: "obj \<Rightarrow> table \<Rightarrow> int \<times> table" where
  "fd_alloc x t = (let i = length (takeWhile (\<lambda>y. y \<noteq> None) t) in (int i, fd_put i (Some x) t))"

definition open_pipe :: "nat \<Rightarrow> table \<Rightarrow> int \<times> int \<times> table" where
  "open_pipe k t =
     (case fd_alloc (Pipe_read k) t of (r, t) \<Rightarrow>
      case fd_alloc (Pipe_write k) t of (w, t) \<Rightarrow> (r, w, t))"

definition dup2 :: "int \<Rightarrow> nat \<Rightarrow> table \<Rightarrow> table" where
  "dup2 old new t = (if fd_get old t = None \<or> old = int new then t else fd_put new (fd_get old t) t)"

text \<open>The real, effective and saved user, and what \<^verbatim>\<open>setuid\<close> makes of them.\<close>

record ids =
  real_id :: nat
  effective_id :: nat
  saved_id :: nat

definition setuid :: "nat \<Rightarrow> ids \<Rightarrow> ids" where
  "setuid u i =
     (if effective_id i = 0 then \<lparr>real_id = u, effective_id = u, saved_id = u\<rparr>
      else if u = real_id i \<or> u = saved_id i then i\<lparr>effective_id := u\<rparr>
      else i)"

datatype disposition = Sig_default | Sig_ignore | Sig_handler nat

record process =
  table :: table
  sigpipe :: disposition
  user :: ids
  environ :: "string list"

subsection \<open>The object\<close>

record subprocess =
  pid :: int
  io :: "int list"
  cmd :: string
  path :: string
  sigpipe_handler :: disposition

datatype status = Ok | Timeout | Failed | Closed

text \<open>The answer of \<^verbatim>\<open>getpwnam\<close> and \<^verbatim>\<open>getgrnam\<close> is an argument; none is the invalid identifier.\<close>

definition get_uid :: "nat option \<Rightarrow> nat option" where
  "get_uid found = found"

definition close_all :: "int list \<Rightarrow> process \<Rightarrow> process" where
  "close_all fds p = p\<lparr>table := fold fd_close fds (table p)\<rparr>"

definition command_name :: "string \<Rightarrow> string" where
  "command_name p = (case str_rfind CHR ''/'' p of Some pos \<Rightarrow> drop (pos + 1) p | None \<Rightarrow> [])"

text \<open>The answer of the second \<^verbatim>\<open>sigaction\<close>, which reads the disposition, is an argument.\<close>

definition sub_new :: "int list \<Rightarrow> bool \<Rightarrow> string \<Rightarrow> process \<Rightarrow> subprocess \<times> process" where
  "sub_new io0 read_back c p =
     (let p = (close_all io0 p)\<lparr>sigpipe := Sig_ignore\<rparr>;
          h = (if read_back then sigpipe p else Sig_default)
      in (\<lparr>pid = 0, io = [0, 0, 0, 0], cmd = command_name c, path = c, sigpipe_handler = h\<rparr>,
          p\<lparr>sigpipe := Sig_ignore\<rparr>))"

definition sub_delete :: "subprocess \<Rightarrow> process \<Rightarrow> process" where
  "sub_delete sp p = close_all (io sp) (p\<lparr>sigpipe := sigpipe_handler sp\<rparr>)"

definition wait_pid :: "int \<Rightarrow> subprocess \<Rightarrow> int \<times> subprocess" where
  "wait_pid exit_status sp = (exit_status mod 256, sp\<lparr>pid := 0\<rparr>)"

text \<open>The loop over the environment; behind the last string is a null pointer, then unknown memory.\<close>

fun put_env :: "string list \<Rightarrow> string list \<Rightarrow> string list option" where
  "put_env (e # es) environment = put_env es (environment @ [e])"
| "put_env [] environment = None"

text \<open>What runs in the child after its preparation: the program and the process it gets.\<close>

record child =
  exec_path :: string
  exec_name :: string
  exec_process :: process

definition child_start ::
    "nat option \<Rightarrow> nat option \<Rightarrow> string list option \<Rightarrow> subprocess \<Rightarrow> process \<Rightarrow> child option" where
  "child_start uid gid env sp p =
     (let t = dup2 (io sp ! 0) 0 (table p);
          t = dup2 (io sp ! 3) 1 t;
          t = fd_close (io sp ! 1) t;
          t = fd_close (io sp ! 2) t;
          u = (case gid of Some g \<Rightarrow> setuid g (user p) | None \<Rightarrow> user p);
          u = (case uid of Some i \<Rightarrow> setuid i u | None \<Rightarrow> u)
      in case (case env of None \<Rightarrow> Some (environ p) | Some es \<Rightarrow> put_env es (environ p)) of
          None \<Rightarrow> None
        | Some e \<Rightarrow>
            Some \<lparr>exec_path = path sp, exec_name = cmd sp, exec_process = p\<lparr>table := t, user := u, environ := e\<rparr>\<rparr>)"

text \<open>
  \<^verbatim>\<open>run\<close>: whether the two pipes can be opened, their numbers, and the answer of \<^verbatim>\<open>fork\<close> in the parent are
  arguments. The last component is the child, when there is one; none inside it means that the
  child does not get as far as \<^verbatim>\<open>execl\<close>.
\<close>

definition sub_run ::
    "bool \<times> nat \<Rightarrow> bool \<times> nat \<Rightarrow> int \<Rightarrow> nat option \<Rightarrow> nat option \<Rightarrow> string list option \<Rightarrow>
     subprocess \<Rightarrow> process \<Rightarrow> bool \<times> subprocess \<times> process \<times> child option option" where
  "sub_run pipe1 pipe2 forked uid gid env sp p =
     (if pid sp \<noteq> 0 then (False, sp, p, None)
      else
        let p = close_all (io sp) p;
            sp = sp\<lparr>io := [0, 0, 0, 0]\<rparr>;
            failed = (\<lambda>sp p. (False, sp\<lparr>io := [0, 0, 0, 0], pid := 0\<rparr>, close_all (io sp) p, None))
        in if \<not> fst pipe1 then failed sp p
           else case open_pipe (snd pipe1) (table p) of (r1, w1, t) \<Rightarrow>
             let sp = sp\<lparr>io := [r1, w1, 0, 0]\<rparr>; p = p\<lparr>table := t\<rparr>
             in if \<not> fst pipe2 then failed sp p
                else case open_pipe (snd pipe2) (table p) of (r2, w2, t) \<Rightarrow>
                  let sp = sp\<lparr>io := [r1, w1, r2, w2], pid := forked\<rparr>; p = p\<lparr>table := t\<rparr>
                  in if forked = - 1 then failed sp p
                     else (True, sp, p\<lparr>table := fd_close w2 (fd_close r1 (table p))\<rparr>,
                           Some (child_start uid gid env sp p)))"

subsection \<open>Reading and writing\<close>

record pipe =
  data :: string
  writer_open :: bool
  broken_pipe :: bool

text \<open>The inner loop of \<^verbatim>\<open>read\<close>; none means that it blocks until the child writes again.\<close>

function read_loop :: "pipe \<Rightarrow> string \<Rightarrow> (status \<times> string \<times> pipe) option" where
  "read_loop p out =
     (if broken_pipe p then Some (Closed, out, p)
      else if data p = [] then (if writer_open p then None else Some (Closed, out, p))
      else
        let chunk = take 100 (data p); p' = p\<lparr>data := drop 100 (data p)\<rparr>
        in if length chunk < 100 then Some (Ok, out @ chunk, p') else read_loop p' (out @ chunk))"
  by pat_completeness auto
termination
  by (relation "measure (\<lambda>(p, out). length (data p))") auto

declare read_loop.simps [simp del]

definition sub_read :: "int \<Rightarrow> pipe \<Rightarrow> string \<Rightarrow> (status \<times> string \<times> pipe) option" where
  "sub_read selected p out =
     (if selected = 0 then Some (Timeout, out, p)
      else if selected = - 1 then Some (Failed, out, p)
      else read_loop p out)"

text \<open>\<^verbatim>\<open>expect\<close>: every turn meets the next answer of \<^verbatim>\<open>select\<close> with the pipe at that time.\<close>

fun expect :: "string \<Rightarrow> (int \<times> pipe) list \<Rightarrow> string \<Rightarrow> status option" where
  "expect text [] out = None"
| "expect text ((selected, p) # later) out =
     (case sub_read selected p out of
        None \<Rightarrow> None
      | Some (s, out, p) \<Rightarrow>
          if s \<noteq> Ok then Some s
          else if str_contains out text then Some Ok
          else expect text later out)"

definition purge :: "int \<Rightarrow> pipe \<Rightarrow> pipe option" where
  "purge selected p = map_option (\<lambda>(s, out, p). p) (sub_read selected p [])"

text \<open>The answers of the calls of the system's \<^verbatim>\<open>write\<close>; past the list it takes everything.\<close>

datatype written = Wrote nat | Write_error bool

fun write_loop :: "written list \<Rightarrow> string \<Rightarrow> string \<Rightarrow> status \<times> string" where
  "write_loop [] left sent = (Ok, sent @ left)"
| "write_loop (a # later) left sent =
     (case a of
        Write_error epipe \<Rightarrow> (if epipe then Closed else Failed, sent)
      | Wrote k \<Rightarrow>
          let n = min k (length left)
          in if length left - n > 0 then write_loop later (drop n left) (sent @ take n left)
             else (Ok, sent @ left))"

definition sub_write :: "written list \<Rightarrow> string \<Rightarrow> status \<times> string" where
  "sub_write answers c = write_loop answers c []"

end
