(* ===== verification/Test_App.thy ===== *)
theory Test_App
  imports Subprocess
begin

section \<open>The program that is run, and the dialogue\<close>

text \<open>
  Models \<^verbatim>\<open>subprocess_io/app.cpp\<close> and the main program of \<^verbatim>\<open>subprocess_io.cpp\<close>, which talks to it. The
  application is cut at its calls of \<^verbatim>\<open>fgets\<close>: one step takes the line read, or the end of the input,
  and gives everything printed until the next call. In the dialogue the application runs until
  it waits for input before the parent goes on.
\<close>

subsection \<open>The application\<close>

definition newline :: char where
  "newline = CHR 0x0A"

record test_app =
  quit :: bool
  buf :: string
  at_text :: bool

definition app_new :: test_app where
  "app_new = \<lparr>quit = False, buf = ''test'' @ [newline], at_text = False\<rparr>"

definition commands :: "(string \<times> string) list" where
  "commands = [(''in'', ''Stdin test''), (''out'', ''Stdout test''), (''quit'', ''Exit application'')]"

definition usage :: string where
  "usage = ''Usage:'' @ [newline] @ concat (map (\<lambda>(c, d). '' '' @ c @ '' - '' @ d @ [newline]) commands)"

definition prompt :: string where
  "prompt = ''Enter command: ''"

definition app_out :: "test_app \<Rightarrow> string" where
  "app_out a = [CHR 0x22] @ (if buf a = [] then buf a else take (length (buf a) - 1) (buf a)) @ [CHR 0x22, newline]"

definition app_quit :: "test_app \<Rightarrow> string \<times> test_app" where
  "app_quit a = (''Exiting...'' @ [newline], a\<lparr>quit := True\<rparr>)"

text \<open>Whether the line read is the command: the length without the last character, and the prefix.\<close>

definition is_command :: "string \<Rightarrow> string \<Rightarrow> bool" where
  "is_command line c \<longleftrightarrow> line \<noteq> [] \<and> length line - 1 = length c \<and> take (length c) line = c"

definition app_command :: "string \<Rightarrow> test_app \<Rightarrow> string \<times> test_app" where
  "app_command line a =
     (if is_command line ''in'' then (''Enter text: '', a\<lparr>at_text := True\<rparr>)
      else if is_command line ''out'' then (app_out a @ prompt, a)
      else if is_command line ''quit'' then app_quit a
      else (''Unknown command: '' @ line @ [newline] @ usage @ prompt, a))"

definition app_step :: "string option \<Rightarrow> test_app \<Rightarrow> string \<times> test_app" where
  "app_step got a =
     (if at_text a then
        (prompt, a\<lparr>at_text := False, buf := (case got of Some l \<Rightarrow> c_string l | None \<Rightarrow> buf a)\<rparr>)
      else case got of
        Some l \<Rightarrow> app_command (c_string l) a
      | None \<Rightarrow> app_quit a)"

text \<open>\<^verbatim>\<open>fgets\<close> reads a line with its end, but at most one character less than the buffer has.\<close>

definition fgets :: "nat \<Rightarrow> string \<Rightarrow> string option \<times> string" where
  "fgets n s =
     (if s = [] then (None, [])
      else
        let l = takeWhile (\<lambda>c. c \<noteq> newline) s;
            k = (if length l < length s then length l + 1 else length l);
            k = min k (n - 1)
        in (Some (take k s), drop k s))"

definition line_size :: "test_app \<Rightarrow> nat" where
  "line_size a = (if at_text a then 100 else 10)"

lemma fgets_takes:
  assumes "1 < n" "s \<noteq> []"
  shows "\<exists>k. 0 < k \<and> k \<le> length s \<and> fgets n s = (Some (take k s), drop k s)"
proof -
  let ?l = "takeWhile (\<lambda>c. c \<noteq> newline) s"
  let ?k = "min (if length ?l < length s then length ?l + 1 else length ?l) (n - 1)"
  have "0 < length s" "length ?l \<le> length s" using assms(2) length_takeWhile_le by auto
  then have "0 < ?k" "?k \<le> length s" using assms(1) by auto
  then show ?thesis using assms(2) by (intro exI [of _ ?k]) (simp add: fgets_def Let_def)
qed

lemma fgets_rest: "1 < n \<Longrightarrow> s \<noteq> [] \<Longrightarrow> (got, r) = fgets n s \<Longrightarrow> length r < length s"
  using fgets_takes [of n s] by auto

lemma line_size_pos: "1 < line_size a"
  by (simp add: line_size_def)

definition run_measure :: "string \<Rightarrow> test_app \<Rightarrow> nat" where
  "run_measure s a = 2 * length s + (if at_text a then 1 else 0) + (if quit a then 0 else 1)"

lemma run_measure_less:
  assumes "(got, r) = fgets (line_size a) s" "(t, a') = app_step got a" "\<not> quit a"
  shows "run_measure r a' < run_measure s a"
proof (cases "s = []")
  case True
  with assms(1) have "got = None" "r = []" by (simp_all add: fgets_def)
  with assms(2,3) True show ?thesis
    by (auto simp: run_measure_def app_step_def app_quit_def split: if_splits)
next
  case False
  with assms(1) have "length r < length s" using fgets_rest [OF line_size_pos False] by simp
  moreover have "at_text a' \<longrightarrow> \<not> quit a' \<or> at_text a" using assms(2,3)
    by (auto simp: app_step_def app_command_def app_quit_def split: if_splits option.splits)
  ultimately show ?thesis using assms(3) by (auto simp: run_measure_def)
qed

text \<open>The whole program on an input that ends: what it prints after the first prompt.\<close>

function app_run :: "string \<Rightarrow> test_app \<Rightarrow> string" where
  "app_run s a =
     (if quit a then []
      else case fgets (line_size a) s of (got, r) \<Rightarrow>
        (case app_step got a of (t, a') \<Rightarrow> t @ app_run r a'))"
  by pat_completeness auto
termination
  by (relation "measure (\<lambda>(s, a). run_measure s a)") (auto dest: run_measure_less)

declare app_run.simps [simp del]

definition app_program :: "string \<Rightarrow> string" where
  "app_program input = usage @ prompt @ app_run input app_new"

subsection \<open>The dialogue\<close>

record dialogue =
  app :: test_app
  stdin_buf :: string
  pipe_data :: string

definition dialogue_start :: dialogue where
  "dialogue_start = \<lparr>app = app_new, stdin_buf = [], pipe_data = usage @ prompt\<rparr>"

text \<open>Whether \<^verbatim>\<open>fgets\<close> can return although the input has not ended.\<close>

definition line_ready :: "nat \<Rightarrow> string \<Rightarrow> bool" where
  "line_ready n s \<longleftrightarrow> newline \<in> set (take (n - 1) s) \<or> n - 1 \<le> length s"

function app_feed :: "string \<Rightarrow> test_app \<Rightarrow> string \<times> test_app \<times> string" where
  "app_feed s a =
     (if quit a \<or> s = [] \<or> \<not> line_ready (line_size a) s then ([], a, s)
      else case fgets (line_size a) s of (got, r) \<Rightarrow>
        (case app_step got a of (t, a') \<Rightarrow>
          (case app_feed r a' of (u, a'', r') \<Rightarrow> (t @ u, a'', r'))))"
  by pat_completeness auto
termination
  by (relation "measure (\<lambda>(s, a). length s)") (auto dest: fgets_rest [OF line_size_pos, rotated])

declare app_feed.simps [simp del]

text \<open>
  Writing: the application that has ended has closed its end, so the write fails. Reading: \<^verbatim>\<open>select\<close>
  waits until the time is over, or there is something to read, or the end is closed.
\<close>

definition dialogue_write :: "string \<Rightarrow> dialogue \<Rightarrow> status \<times> dialogue" where
  "dialogue_write s d =
     (case sub_write (if quit (app d) then [Write_error True] else []) s of (st, sent) \<Rightarrow>
        (case app_feed (stdin_buf d @ sent) (app d) of (t, a, r) \<Rightarrow>
           (st, d\<lparr>app := a, stdin_buf := r, pipe_data := pipe_data d @ t\<rparr>)))"

definition dialogue_read :: "string \<Rightarrow> dialogue \<Rightarrow> (status \<times> string \<times> dialogue) option" where
  "dialogue_read out d =
     map_option (\<lambda>(st, out, p). (st, out, d\<lparr>pipe_data := data p\<rparr>))
       (sub_read (if pipe_data d = [] \<and> \<not> quit (app d) then 0 else 1)
          \<lparr>data = pipe_data d, writer_open = \<not> quit (app d), broken_pipe = False\<rparr> out)"

text \<open>\<^verbatim>\<open>expect\<close>: after a read that does not show the text nothing is left, so the next one ends the loop.\<close>

definition dialogue_expect :: "string \<Rightarrow> dialogue \<Rightarrow> (status \<times> dialogue) option" where
  "dialogue_expect text d =
     (case dialogue_read [] d of
        None \<Rightarrow> None
      | Some (s, out, d) \<Rightarrow>
          if s \<noteq> Ok then Some (s, d)
          else if str_contains out text then Some (Ok, d)
          else (case dialogue_read out d of
              None \<Rightarrow> None
            | Some (s, out, d) \<Rightarrow> Some (s, d)))"

definition status_number :: "status \<Rightarrow> int" where
  "status_number s = (case s of Ok \<Rightarrow> 0 | Timeout \<Rightarrow> 1 | Failed \<Rightarrow> 2 | Closed \<Rightarrow> 3)"

definition show_read :: "status \<Rightarrow> string \<Rightarrow> string" where
  "show_read s out =
     (if s = Ok then ''{'' @ out @ ''}'' @ [newline] else ''['' @ string_of_int (status_number s) @ '']'' @ [newline])"

text \<open>The main program, once \<^verbatim>\<open>run\<close> has succeeded: what it prints and its exit code.\<close>

definition subprocess_main :: "dialogue \<Rightarrow> (string \<times> int) option" where
  "subprocess_main d =
     (case dialogue_expect ''Enter command:'' d of
        None \<Rightarrow> None
      | Some (s, d) \<Rightarrow>
          if s \<noteq> Ok then Some ([], 2)
          else
            let d = snd (dialogue_write (''in'' @ [newline]) d) in
            case dialogue_expect ''Enter text:'' d of
              None \<Rightarrow> None
            | Some (s, d) \<Rightarrow>
                if s \<noteq> Ok then Some ([], 3)
                else
                  let d = snd (dialogue_write (''test string'' @ [newline]) d) in
                  case dialogue_read [] d of
                    None \<Rightarrow> None
                  | Some (_, _, d) \<Rightarrow>
                      let d = snd (dialogue_write (''out'' @ [newline]) d) in
                      case dialogue_read [] d of
                        None \<Rightarrow> None
                      | Some (s, out, d) \<Rightarrow>
                          let shown = show_read s out;
                              d = snd (dialogue_write (''quit'' @ [newline]) d) in
                          case dialogue_read [] d of
                            None \<Rightarrow> None
                          | Some (s, out, d) \<Rightarrow>
                              Some (shown @ show_read s out @ ''Return code: '' @ string_of_int 0 @ [newline], 0))"

end
