(* ===== verification/Subprocess_Properties.thy ===== *)
theory Subprocess_Properties
  imports Test_App
begin

section \<open>What running a program promises\<close>

subsection \<open>Descriptor tables\<close>

lemma fd_get_nat: "fd_get (int n) t = (if n < length t then t ! n else None)"
  by (simp add: fd_get_def)

lemma fd_get_close [simp]: "fd_get fd (fd_close fd' t) = (if fd = fd' then None else fd_get fd t)"
  by (auto simp: fd_get_def fd_close_def nth_list_update)

lemma fd_get_put: "fd_get fd (fd_put n x t) = (if fd = int n then x else fd_get fd t)"
  by (auto simp: fd_get_def fd_put_def nth_append nth_list_update nat_less_iff not_less nth_Cons' less_Suc_eq)

lemma fd_get_close_all: "fd_get fd (fold fd_close fds t) = (if fd \<in> set fds then None else fd_get fd t)"
  by (induction fds arbitrary: t) auto

text \<open>A new descriptor was free before, all numbers below it are taken, and nothing else changes.\<close>

lemma fd_alloc_gets:
  assumes "fd_alloc x t = (i, t')"
  shows "0 \<le> i" "fd_get i t = None" "fd_get j t' = (if j = i then Some x else fd_get j t)"
    "0 \<le> j \<Longrightarrow> j < i \<Longrightarrow> fd_get j t \<noteq> None"
proof -
  let ?n = "length (takeWhile (\<lambda>y. y \<noteq> None) t)"
  have i: "i = int ?n" "t' = fd_put ?n (Some x) t" using assms by (auto simp: fd_alloc_def Let_def)
  then show "0 \<le> i" "fd_get j t' = (if j = i then Some x else fd_get j t)" by (simp_all add: fd_get_put)
  show "fd_get i t = None"
    using nth_length_takeWhile [of "\<lambda>y. y \<noteq> None" t] by (auto simp: i fd_get_nat)
  show "fd_get j t \<noteq> None" if "0 \<le> j" "j < i"
  proof -
    have n: "nat j < ?n" using that i by simp
    then have "t ! nat j = takeWhile (\<lambda>y. y \<noteq> None) t ! nat j" by (simp add: takeWhile_nth)
    also have "\<dots> \<noteq> None" using nth_mem [OF n] set_takeWhileD by fastforce
    finally show ?thesis using that n length_takeWhile_le [of "\<lambda>y. y \<noteq> None" t] by (auto simp: fd_get_def)
  qed
qed

lemma fd_get_dup2:
  "fd_get old t \<noteq> None \<Longrightarrow> fd_get fd (dup2 old n t) = (if fd = int n then fd_get old t else fd_get fd t)"
  by (auto simp: dup2_def fd_get_put)

lemma open_pipe_gets:
  assumes "open_pipe k t = (r, w, t')"
  shows "0 \<le> r" "0 \<le> w" "r \<noteq> w" "fd_get r t = None" "fd_get w t = None"
    "fd_get j t' = (if j = r then Some (Pipe_read k) else if j = w then Some (Pipe_write k) else fd_get j t)"
    "fd_get 0 t = None \<Longrightarrow> r = 0"
proof -
  obtain u where a: "fd_alloc (Pipe_read k) t = (r, u)" "fd_alloc (Pipe_write k) u = (w, t')"
    using assms by (auto simp: open_pipe_def split: prod.splits)
  note r = fd_alloc_gets [OF a(1)] and w = fd_alloc_gets [OF a(2)]
  show "0 \<le> r" "0 \<le> w" "fd_get r t = None" by (rule r(1), rule w(1), rule r(2))
  have "fd_get w u = None" by (rule w(2))
  then show "r \<noteq> w" "fd_get w t = None" using r(3) [of w] by (auto split: if_splits)
  then show "fd_get j t' = (if j = r then Some (Pipe_read k) else if j = w then Some (Pipe_write k) else fd_get j t)"
    using r(3) w(3) by auto
  show "r = 0" if "fd_get 0 t = None" using r(4) [of 0] r(1) that by force
qed

text \<open>The descriptors that are ends of a pipe.\<close>

definition ends :: "nat \<Rightarrow> table \<Rightarrow> (int \<times> obj) set" where
  "ends k t = {(fd, x). fd_get fd t = Some x \<and> (x = Pipe_read k \<or> x = Pipe_write k)}"

text \<open>
  C32: After a successful \<^verbatim>\<open>run\<close>, in a process whose standard output is open: what the parent writes to
  its end arrives at the child's standard input, what the child writes to its standard output arrives at
  the parent's end, and each side has closed the ends of the other, so that both see the end of the
  input when the other is gone. The child is the program of the path.
\<close>

theorem sub_run_connects:
  assumes "sub_run (True, k1) (True, k2) forked uid gid None sp p = (ok, sp', p', started)"
    "pid sp = 0" "0 < forked" "k1 \<noteq> k2" "ends k1 (table p) = {}" "ends k2 (table p) = {}"
    "fd_get 1 (table p) \<noteq> None" "1 \<notin> set (io sp)"
  shows "ok \<and> pid sp' = forked \<and>
    (\<exists>c. started = Some (Some c) \<and> exec_path c = path sp \<and>
       fd_get 0 (table (exec_process c)) = Some (Pipe_read k1) \<and>
       fd_get 1 (table (exec_process c)) = Some (Pipe_write k2) \<and>
       (\<forall>fd. fd_get fd (table (exec_process c)) \<notin> {Some (Pipe_write k1), Some (Pipe_read k2)})) \<and>
    ends k1 (table p') = {(io sp' ! 1, Pipe_write k1)} \<and> ends k2 (table p') = {(io sp' ! 2, Pipe_read k2)}"
proof -
  let ?tz = "fold fd_close (io sp) (table p)"
  obtain r1 w1 t1 where o1: "open_pipe k1 ?tz = (r1, w1, t1)" by (metis prod_cases3)
  obtain r2 w2 t2 where o2: "open_pipe k2 t1 = (r2, w2, t2)" by (metis prod_cases3)
  note p1 = open_pipe_gets [OF o1] and p2 = open_pipe_gets [OF o2]
  let ?sp = "sp\<lparr>io := [r1, w1, r2, w2], pid := forked\<rparr>"
  let ?p = "p\<lparr>table := t2\<rparr>"
  have res: "ok" "sp' = ?sp" "p' = p\<lparr>table := fd_close w2 (fd_close r1 t2)\<rparr>"
    "started = Some (child_start uid gid None ?sp ?p)"
    using assms(1-3) o1 o2 by (auto simp: sub_run_def close_all_def Let_def)
  have none: "fd_get fd ?tz \<notin> {Some (Pipe_read k), Some (Pipe_write k)}" if "k = k1 \<or> k = k2" for fd k
    using assms(5,6) that by (auto simp: ends_def fd_get_close_all split: if_splits)
  have one: "fd_get 1 ?tz \<noteq> None" using assms(7,8) by (simp add: fd_get_close_all)
  have get1: "fd_get j t1 = (if j = r1 then Some (Pipe_read k1) else if j = w1 then Some (Pipe_write k1) else fd_get j ?tz)" for j
    by (rule p1(6))
  have get2: "fd_get j t2 = (if j = r2 then Some (Pipe_read k2) else if j = w2 then Some (Pipe_write k2) else fd_get j t1)" for j
    by (rule p2(6))
  have diff: "r2 \<noteq> r1" "r2 \<noteq> w1" "w2 \<noteq> r1" "w2 \<noteq> w1" using get1 [of r2] get1 [of w2] p2(4,5) by (auto split: if_splits)
  have not1: "r1 \<noteq> 1" "w1 \<noteq> 1" "r2 \<noteq> 1" "w2 \<noteq> 1"
    using one p1(4,5) p2(4,5) get1 [of 1] by (auto split: if_splits)
  have not0: "w1 \<noteq> 0" "r2 \<noteq> 0" "w2 \<noteq> 0"
    using p1(3,5,7) p2(4,5) get1 [of 0] diff by (auto split: if_splits)
  let ?ca = "dup2 r1 0 t2"
  let ?cb = "dup2 w2 1 ?ca"
  obtain tc where tc: "tc = fd_close r2 (fd_close w1 ?cb)" by simp
  have c0: "fd_get fd ?ca = (if fd = 0 then Some (Pipe_read k1) else fd_get fd t2)" for fd
    using fd_get_dup2 [of r1 t2 fd 0] get2 [of r1] get1 [of r1] diff(1,3) [symmetric] by simp
  have c1: "fd_get fd ?cb = (if fd = 1 then Some (Pipe_write k2) else fd_get fd ?ca)" for fd
    using fd_get_dup2 [of w2 ?ca fd 1] c0 [of w2] get2 [of w2] not0(3) p2(3) [symmetric] by simp
  have c: "fd_get fd tc = (if fd = r2 \<or> fd = w1 then None else if fd = 0 then Some (Pipe_read k1)
      else if fd = 1 then Some (Pipe_write k2) else fd_get fd t2)" for fd
    unfolding tc fd_get_close c1 c0 by simp
  obtain ch where ch: "started = Some (Some ch)" "exec_path ch = path sp" "table (exec_process ch) = tc"
    using res(4) by (auto simp: child_start_def Let_def tc)
  have "fd_get fd tc \<notin> {Some (Pipe_write k1), Some (Pipe_read k2)}" for fd
    using none [of k1 fd] none [of k2 fd] assms(4) by (auto simp: c get2 get1)
  moreover have "ends k1 (table p') = {(io sp' ! 1, Pipe_write k1)}"
    using none [of k1] assms(4) p1(3) diff by (auto simp: ends_def res get2 get1 split: if_splits)
  moreover have "ends k2 (table p') = {(io sp' ! 2, Pipe_read k2)}"
    using none [of k2] assms(4) p2(3) diff by (auto simp: ends_def res get2 get1 split: if_splits)
  moreover have "fd_get 0 tc = Some (Pipe_read k1)" "fd_get 1 tc = Some (Pipe_write k2)"
    unfolding c using not0 not1 by simp_all
  moreover have "pid sp' = forked" by (simp add: res)
  ultimately show ?thesis using res(1) ch by metis
qed

definition example_process :: process where
  "example_process =
     \<lparr>table = [Some (Other 0), Some (Other 1), Some (Other 2)], sigpipe = Sig_handler 7,
      user = \<lparr>real_id = 0, effective_id = 0, saved_id = 0\<rparr>, environ = []\<rparr>"

definition example_sub :: subprocess where
  "example_sub = fst (sub_new [] True ''./app'' example_process)"

lemma ends_none: "\<forall>x \<in> set t. x \<noteq> Some (Pipe_read k) \<and> x \<noteq> Some (Pipe_write k) \<Longrightarrow> ends k t = {}"
  by (force simp: ends_def fd_get_def split: if_splits dest: nth_mem)

theorem sub_run_connects_witness:
  "case sub_run (True, 1) (True, 2) 77 None None None example_sub example_process of
     (ok, sp', p', started) \<Rightarrow> ok \<and> pid sp' = 77 \<and> ends 1 (table p') = {(io sp' ! 1, Pipe_write 1)}"
proof -
  obtain ok sp' p' started where r:
    "sub_run (True, 1) (True, 2) 77 None None None example_sub example_process = (ok, sp', p', started)"
    by (metis prod_cases4)
  have "pid example_sub = 0" "fd_get 1 (table example_process) \<noteq> None" "1 \<notin> set (io example_sub)"
    by code_simp+
  moreover have "ends 1 (table example_process) = {}" "ends 2 (table example_process) = {}"
    by (rule ends_none; simp add: example_process_def)+
  ultimately show ?thesis using sub_run_connects [OF r] r by simp
qed

subsection \<open>Reading and writing\<close>

lemma read_loop_reads:
  "read_loop \<lparr>data = s, writer_open = w, broken_pipe = False\<rparr> out =
     (if length s mod 100 \<noteq> 0 then Some (Ok, out @ s, \<lparr>data = [], writer_open = w, broken_pipe = False\<rparr>)
      else if w then None else Some (Closed, out @ s, \<lparr>data = [], writer_open = w, broken_pipe = False\<rparr>))"
proof (induction "length s" arbitrary: s out rule: less_induct)
  case less
  show ?case
  proof (cases "length s < 100")
    case True
    then show ?thesis
      by (subst read_loop.simps, cases s) (auto simp: read_loop.simps Let_def)
  next
    case False
    then have "s \<noteq> []" "length (drop 100 s) < length s" by auto
    moreover have "length s mod 100 = length (drop 100 s) mod 100" using False by (simp add: mod_if)
    moreover have "take 100 s @ drop 100 s = s" by simp
    ultimately show ?thesis using less [of "drop 100 s" "out @ take 100 s"] False
      by (subst read_loop.simps) (simp add: Let_def)
  qed
qed

lemma write_loop_sends:
  "\<forall>a \<in> set answers. \<exists>k. a = Wrote k \<Longrightarrow> write_loop answers left sent = (Ok, sent @ left)"
  by (induction answers left sent rule: write_loop.induct) (auto simp: Let_def)

lemma write_loop_prefix:
  "write_loop answers left sent = (s, outp) \<Longrightarrow> (\<exists>n. outp = sent @ take n left) \<and> (s = Ok \<longrightarrow> outp = sent @ left)"
proof (induction answers left sent rule: write_loop.induct)
  case (2 a later left sent)
  show ?case
  proof (cases a)
    case (Wrote k)
    show ?thesis
    proof (cases "k < length left")
      case True
      then have "write_loop later (drop k left) (sent @ take k left) = (s, outp)"
        using 2(2) Wrote by (simp add: Let_def)
      then obtain n where "outp = (sent @ take k left) @ take n (drop k left)"
        "s = Ok \<longrightarrow> outp = (sent @ take k left) @ drop k left"
        using 2(1) [OF Wrote refl] True by auto
      then show ?thesis by (auto intro: exI [of _ "k + n"] simp: take_add)
    next
      case False
      with 2(2) Wrote show ?thesis by (auto simp: Let_def intro: exI [of _ "length left"])
    qed
  next
    case (Write_error e)
    with 2(2) show ?thesis by (auto intro: exI [of _ 0] split: if_splits)
  qed
next
  case (1 left sent)
  then show ?case by (auto intro: exI [of _ "length left"])
qed

text \<open>
  C33: A read takes everything that is in the pipe and says Ok, unless its length is a multiple of 100:
  then it waits for more while the child is there, and when the child is gone it says Closed,
  although it delivers the data. A write delivers the whole text, however the system cuts it up, and
  what arrives before an error is a beginning of the text.
\<close>

theorem sub_read_write:
  "sub_read 1 \<lparr>data = s, writer_open = w, broken_pipe = False\<rparr> out =
     (if length s mod 100 \<noteq> 0 then Some (Ok, out @ s, \<lparr>data = [], writer_open = w, broken_pipe = False\<rparr>)
      else if w then None else Some (Closed, out @ s, \<lparr>data = [], writer_open = w, broken_pipe = False\<rparr>)) \<and>
   ((\<forall>a \<in> set answers. \<exists>k. a = Wrote k) \<longrightarrow> sub_write answers c = (Ok, c)) \<and>
   (\<exists>n. snd (sub_write answers c) = take n c) \<and>
   (fst (sub_write answers c) = Ok \<longrightarrow> snd (sub_write answers c) = c)"
proof -
  obtain st outp where w: "write_loop answers c [] = (st, outp)" by fastforce
  from write_loop_prefix [OF w] show ?thesis
    by (simp add: sub_read_def read_loop_reads sub_write_def w) (use write_loop_sends [of answers c "[]"] w in auto)
qed

theorem sub_read_write_witness:
  "sub_write [Wrote 2, Wrote 0, Wrote 5] ''in it'' = (Ok, ''in it'') \<and>
   sub_read 1 \<lparr>data = replicate 100 CHR ''x'', writer_open = True, broken_pipe = False\<rparr> [] = None"
  using sub_read_write [of "replicate 100 CHR ''x''" True "[]" "[Wrote 2, Wrote 0, Wrote 5]" "''in it''"] by simp

subsection \<open>The application\<close>

lemma app_step_exits: "app_step got a = (t, a') \<Longrightarrow> \<not> quit a \<Longrightarrow> quit a' \<Longrightarrow> t = ''Exiting...'' @ [newline]"
  by (auto simp: app_step_def app_quit_def app_command_def split: if_splits option.splits)

lemma app_run_ends: "\<not> quit a \<Longrightarrow> \<exists>t. app_run s a = t @ ''Exiting...'' @ [newline]"
proof (induction s a rule: app_run.induct)
  case (1 s a)
  obtain got r where f: "fgets (line_size a) s = (got, r)" by fastforce
  obtain t a' where st: "app_step got a = (t, a')" by fastforce
  have run: "app_run s a = t @ app_run r a'" using 1(2) f st by (subst app_run.simps) simp
  show ?case
  proof (cases "quit a'")
    case True
    with app_step_exits [OF st 1(2)] run show ?thesis by (subst (asm) (2) app_run.simps) (auto intro: exI [of _ "[]"])
  next
    case False
    from 1(1) [OF 1(2) f [symmetric] st [symmetric] False] obtain u where
      "app_run r a' = u @ ''Exiting...'' @ [newline]" by blast
    with run show ?thesis by (intro exI [of _ "t @ u"]) simp
  qed
qed

lemma fgets_append:
  assumes "line_ready n s" "fgets n s = (got, r)" "s \<noteq> []"
  shows "fgets n (s @ u) = (got, r @ u)"
proof -
  let ?P = "\<lambda>c. c \<noteq> newline"
  consider "newline \<in> set (take (n - 1) s)" | "newline \<notin> set (take (n - 1) s)" "n - 1 \<le> length s"
    using assms(1) by (auto simp: line_ready_def)
  then show ?thesis
  proof cases
    case 1
    then have "newline \<in> set s" by (meson in_set_takeD)
    then have tw: "takeWhile ?P (s @ u) = takeWhile ?P s" "length (takeWhile ?P s) < length s"
      by (induction s) auto
    have "min (length (takeWhile ?P s) + 1) (n - 1) \<le> length s" using tw(2) by simp
    then show ?thesis using assms(2,3) tw by (auto simp: fgets_def Let_def)
  next
    case 2
    have "takeWhile ?P (take (n - 1) s @ v) = take (n - 1) s @ takeWhile ?P v" for v
      by (rule takeWhile_append2) (use 2(1) in auto)
    from this [of "drop (n - 1) s"] this [of "drop (n - 1) s @ u"]
    have "n - 1 \<le> length (takeWhile ?P s)" "n - 1 \<le> length (takeWhile ?P (s @ u))"
      using 2(2) by (simp_all flip: append_assoc)
    then show ?thesis using assms(2,3) 2(2) by (auto simp: fgets_def Let_def)
  qed
qed

lemma app_feed_run:
  "app_feed s a = (t, a', r) \<Longrightarrow> app_run (s @ u) a = t @ app_run (r @ u) a'"
proof (induction s a arbitrary: t a' r rule: app_feed.induct)
  case (1 s a)
  show ?case
  proof (cases "quit a \<or> s = [] \<or> \<not> line_ready (line_size a) s")
    case True
    with 1(2) show ?thesis by (subst (asm) app_feed.simps) (auto split: if_splits)
  next
    case False
    obtain got q where f: "fgets (line_size a) s = (got, q)" by fastforce
    obtain v b where st: "app_step got a = (v, b)" by fastforce
    obtain w c q' where fd: "app_feed q b = (w, c, q')" by (metis prod_cases3)
    have "app_feed s a = (v @ w, c, q')" using False f st fd by (subst app_feed.simps) simp
    with 1(2) have eq: "t = v @ w" "a' = c" "r = q'" by auto
    from fgets_append [OF _ f, of u] False have "fgets (line_size a) (s @ u) = (got, q @ u)" by simp
    then have "app_run (s @ u) a = v @ app_run (q @ u) b" using False st by (subst app_run.simps) simp
    also have "app_run (q @ u) b = w @ app_run (q' @ u) c"
      using 1(1) [OF False f [symmetric] st [symmetric] fd] .
    finally show ?thesis using eq by simp
  qed
qed

text \<open>
  C34: The application ends on every input, with its farewell, whether the input holds the command or just
  ends. And it does not matter how its input arrives: what it prints while the input comes piece by piece
  is what it prints on the whole input.
\<close>

theorem test_app_ends:
  "(\<exists>t. app_program input = usage @ prompt @ t @ ''Exiting...'' @ [newline]) \<and>
   (\<forall>s t a r. app_feed s app_new = (t, a, r) \<longrightarrow> app_run (s @ input) app_new = t @ app_run (r @ input) a)"
  using app_run_ends [of app_new input] app_feed_run by (auto simp: app_program_def app_new_def)

theorem test_app_ends_witness:
  "\<exists>t. app_program (''in'' @ [newline] @ ''x'') = usage @ prompt @ t @ ''Exiting...'' @ [newline]"
  using test_app_ends [of "''in'' @ [newline] @ ''x''"] by blast

text \<open>
  The dialogue of the two programs of the directory: the parent finds both prompts, the application
  keeps the text it is given and shows it, ends on its command, and the parent prints the answers
  and returns 0.
\<close>

theorem subprocess_dialogue:
  "subprocess_main dialogue_start =
     Some (''{'' @ [CHR 0x22] @ ''test string'' @ [CHR 0x22, newline] @ ''Enter command: }'' @ [newline] @
           ''{Exiting...'' @ [newline] @ ''}'' @ [newline] @ ''Return code: 0'' @ [newline], 0)"
  by code_simp

text \<open>
  Six faults of the class. With an environment the child never gets to its program, because the loop
  over the strings does not stop at the null pointer. The group is set with \<^verbatim>\<open>setuid\<close>: a child of the
  super user runs as the user with the number of the group. The destructor does not restore the
  handler of \<^verbatim>\<open>SIGPIPE\<close>. The first \<^verbatim>\<open>run\<close> closes descriptor 0 of the parent. A failed read is
  reported as Closed. A path without a slash gives the child an empty name.
\<close>

theorem subprocess_faults:
  "child_start uid gid (Some es) sp p = None \<and>
   map_option (\<lambda>c. effective_id (user (exec_process c))) (child_start (Some 1000) (Some 100) None example_sub example_process) =
     Some 100 \<and>
   (case sub_new io0 True c p of (sp1, p1) \<Rightarrow> sigpipe (sub_delete sp1 p1) = Sig_ignore) \<and>
   (case sub_run (False, 1) (True, 2) 77 None None None example_sub example_process of
      (ok, sp', p', started) \<Rightarrow> fd_get 0 (table example_process) \<noteq> None \<and> fd_get 0 (table p') = None) \<and>
   (case sub_read 1 \<lparr>data = ''x'', writer_open = True, broken_pipe = True\<rparr> [] of
      None \<Rightarrow> False | Some (s, out, q) \<Rightarrow> s = Closed) \<and>
   cmd (fst (sub_new io0 True ''app'' p)) = []"
proof (intro conjI)
  have "put_env es e = None" for e by (induction es arbitrary: e) simp_all
  then show "child_start uid gid (Some es) sp p = None" by (simp add: child_start_def Let_def)
  show "case sub_new io0 True c p of (sp1, p1) \<Rightarrow> sigpipe (sub_delete sp1 p1) = Sig_ignore"
    by (simp add: sub_new_def sub_delete_def close_all_def Let_def)
  show "cmd (fst (sub_new io0 True ''app'' p)) = []"
    by (simp add: sub_new_def command_name_def str_rfind_def Let_def)
qed code_simp+

end
