(* ===== verification/Json_Memory.thy ===== *)
theory Json_Memory
  imports Doubles Ordered_Set
begin

section \<open>Memory of the JSON wrapper\<close>

text \<open>
  The wrapper \<^verbatim>\<open>cjson++/cjson.hpp\<close> works on the nodes of the library cJSON, reads their fields and writes
  one, and keeps pointers to them in shared objects of its own. This theory has the nodes, the functions of
  the library as a record of functions, and the shared objects with their counts.
\<close>

subsection \<open>Nodes\<close>

text \<open>
  The fields of \<^verbatim>\<open>struct cJSON\<close>. An address is a position; a node or a text that is freed is \<^const>\<open>None\<close>. The null
  pointer is the address \<^const>\<open>None\<close>.
\<close>

type_synonym addr = "nat option"

record cjson_node =
  ntype :: u32
  nxt :: addr
  prv :: addr
  chl :: addr
  vtext :: addr
  vint :: int
  vdouble :: double
  nkey :: addr

record cheap =
  nodes :: "cjson_node option list"
  texts :: "string option list"

definition get_node :: "cheap \<Rightarrow> nat \<Rightarrow> cjson_node option" where
  "get_node h a = (if a < length (nodes h) then nodes h ! a else None)"

definition get_text :: "cheap \<Rightarrow> nat \<Rightarrow> string option" where
  "get_text h a = (if a < length (texts h) then texts h ! a else None)"

definition put_node :: "nat \<Rightarrow> cjson_node \<Rightarrow> cheap \<Rightarrow> cheap" where
  "put_node a n h = h\<lparr>nodes := (nodes h)[a := Some n]\<rparr>"

definition cJSON_False :: u32 where "cJSON_False = 1"
definition cJSON_True :: u32 where "cJSON_True = 2"
definition cJSON_NULL :: u32 where "cJSON_NULL = 4"
definition cJSON_Number :: u32 where "cJSON_Number = 8"
definition cJSON_String :: u32 where "cJSON_String = 16"
definition cJSON_Array :: u32 where "cJSON_Array = 32"
definition cJSON_Object :: u32 where "cJSON_Object = 64"
definition cJSON_IsReference :: u32 where "cJSON_IsReference = 256"

lemmas cJSON_types = cJSON_False_def cJSON_True_def cJSON_NULL_def cJSON_Number_def cJSON_String_def
  cJSON_Array_def cJSON_Object_def cJSON_IsReference_def

subsection \<open>The library\<close>

text \<open>
  The functions the wrapper calls. An outer \<^const>\<open>None\<close> is undefined behaviour: a pointer that is null where the
  function does not allow it, or a node that was freed.
\<close>

record cjson_lib =
  cj_parse :: "string \<Rightarrow> cheap \<Rightarrow> addr \<times> cheap"
  cj_minify :: "string \<Rightarrow> string"
  cj_create_null :: "cheap \<Rightarrow> addr \<times> cheap"
  cj_create_bool :: "bool \<Rightarrow> cheap \<Rightarrow> addr \<times> cheap"
  cj_create_number :: "double \<Rightarrow> cheap \<Rightarrow> addr \<times> cheap"
  cj_create_string :: "string \<Rightarrow> cheap \<Rightarrow> addr \<times> cheap"
  cj_create_array :: "cheap \<Rightarrow> addr \<times> cheap"
  cj_create_object :: "cheap \<Rightarrow> addr \<times> cheap"
  cj_delete :: "addr \<Rightarrow> cheap \<Rightarrow> cheap option"
  cj_array_size :: "addr \<Rightarrow> cheap \<Rightarrow> int option"
  cj_array_item :: "addr \<Rightarrow> int \<Rightarrow> cheap \<Rightarrow> addr option"
  cj_object_item_cs :: "addr \<Rightarrow> string \<Rightarrow> cheap \<Rightarrow> addr option"
  cj_has_item :: "addr \<Rightarrow> string \<Rightarrow> cheap \<Rightarrow> bool option"
  cj_add_ref_array :: "addr \<Rightarrow> addr \<Rightarrow> cheap \<Rightarrow> cheap option"
  cj_add_ref_object :: "addr \<Rightarrow> string \<Rightarrow> addr \<Rightarrow> cheap \<Rightarrow> cheap option"
  cj_detach_index :: "addr \<Rightarrow> int \<Rightarrow> cheap \<Rightarrow> (addr \<times> cheap) option"
  cj_detach_key :: "addr \<Rightarrow> string \<Rightarrow> cheap \<Rightarrow> (addr \<times> cheap) option"
  cj_set_text :: "addr \<Rightarrow> string \<Rightarrow> cheap \<Rightarrow> cheap option"
  cj_set_number :: "addr \<Rightarrow> double \<Rightarrow> cheap \<Rightarrow> cheap option"
  cj_is_true :: "addr \<Rightarrow> cheap \<Rightarrow> bool option"
  cj_is_false :: "addr \<Rightarrow> cheap \<Rightarrow> bool option"
  cj_compare :: "addr \<Rightarrow> addr \<Rightarrow> bool \<Rightarrow> cheap \<Rightarrow> bool option"
  cj_print :: "addr \<Rightarrow> cheap \<Rightarrow> string option"
  cj_print_unformatted :: "addr \<Rightarrow> cheap \<Rightarrow> string option"

subsection \<open>Shared objects\<close>

text \<open>
  A \<^verbatim>\<open>Json\<close> has two shared pointers: to a \<^verbatim>\<open>Data\<close>, which has the address of a node and whether to delete it,
  and to the set of the originals of its elements. Shared objects are known by their position, and are kept
  with the number of pointers to them. After a move both pointers are empty.
\<close>

record json =
  data_ptr :: "nat option"
  refs_ptr :: "nat option"

record data =
  data_node :: addr
  data_own :: bool
  data_count :: nat

record ref_set =
  members :: "(json \<times> addr) list"
  set_count :: nat

record jworld =
  heap :: cheap
  datas :: "data list"
  sets :: "ref_set list"

definition new_data :: "addr \<Rightarrow> bool \<Rightarrow> jworld \<Rightarrow> nat \<times> jworld" where
  "new_data obj own w =
     (length (datas w), w\<lparr>datas := datas w @ [\<lparr>data_node = obj, data_own = own, data_count = 1\<rparr>]\<rparr>)"

definition new_set :: "jworld \<Rightarrow> nat \<times> jworld" where
  "new_set w = (length (sets w), w\<lparr>sets := sets w @ [\<lparr>members = [], set_count = 1\<rparr>]\<rparr>)"

text \<open>Copying and destroying a \<^verbatim>\<open>Json\<close>; a set that loses its last pointer destroys its members.\<close>

definition share_data :: "nat option \<Rightarrow> jworld \<Rightarrow> jworld" where
  "share_data d w =
     (case d of None \<Rightarrow> w
      | Some i \<Rightarrow> w\<lparr>datas := (datas w)[i := (datas w ! i)\<lparr>data_count := data_count (datas w ! i) + 1\<rparr>]\<rparr>)"

definition share_set :: "nat option \<Rightarrow> jworld \<Rightarrow> jworld" where
  "share_set s w =
     (case s of None \<Rightarrow> w
      | Some i \<Rightarrow> w\<lparr>sets := (sets w)[i := (sets w ! i)\<lparr>set_count := set_count (sets w ! i) + 1\<rparr>]\<rparr>)"

definition drop_data :: "cjson_lib \<Rightarrow> nat \<Rightarrow> jworld \<Rightarrow> jworld option" where
  "drop_data lib i w =
     (let d = datas w ! i; w1 = w\<lparr>datas := (datas w)[i := d\<lparr>data_count := data_count d - 1\<rparr>]\<rparr>
      in if data_count d = 1 \<and> data_own d
         then do { h \<leftarrow> cj_delete lib (data_node d) (heap w); Some (w1\<lparr>heap := h\<rparr>) }
         else Some w1)"

definition drop_set :: "nat \<Rightarrow> jworld \<Rightarrow> (json \<times> addr) list \<times> jworld" where
  "drop_set i w =
     (let s = sets w ! i
      in if set_count s = 1
         then (members s, w\<lparr>sets := (sets w)[i := \<lparr>members = [], set_count = 0\<rparr>]\<rparr>)
         else ([], w\<lparr>sets := (sets w)[i := s\<lparr>set_count := set_count s - 1\<rparr>]\<rparr>))"

datatype job = Drop_set nat | Drop_data nat

definition jobs_of :: "json \<Rightarrow> job list" where
  "jobs_of j =
     (case refs_ptr j of None \<Rightarrow> [] | Some s \<Rightarrow> [Drop_set s]) @
     (case data_ptr j of None \<Rightarrow> [] | Some d \<Rightarrow> [Drop_data d])"

definition pending :: "jworld \<Rightarrow> nat" where
  "pending w = sum_list (map (\<lambda>s. length (members s)) (sets w))"

lemma jobs_of_le: "length (jobs_of j) \<le> 2"
  by (simp add: jobs_of_def split: option.split)

lemma jobs_of_concat_le: "length (concat (map (\<lambda>(j, a). jobs_of j) ms)) \<le> 2 * length ms"
proof (induction ms)
  case (Cons m ms)
  then show ?case using jobs_of_le [of "fst m"] by (cases m) simp
qed simp

lemma drop_data_pending: "drop_data lib i w = Some w' \<Longrightarrow> pending w' = pending w"
  by (auto simp: drop_data_def pending_def Let_def split: if_splits)

lemma drop_set_pending:
  assumes "i < length (sets w)" "drop_set i w = (ms, w')"
  shows "pending w' + length ms = pending w"
proof -
  have "(\<Sum>s\<leftarrow>(sets w)[i := s']. length (members s)) + length (members (sets w ! i)) =
      (\<Sum>s\<leftarrow>sets w. length (members s)) + length (members s')" for s'
    using assms(1) elem_le_sum_list [of i "map (\<lambda>s. length (members s)) (sets w)"]
    by (simp add: map_update sum_list_update)
  from this [of "\<lparr>members = [], set_count = 0\<rparr>"]
    this [of "(sets w ! i)\<lparr>set_count := set_count (sets w ! i) - 1\<rparr>"] assms(2)
  show ?thesis by (auto simp: drop_set_def Let_def pending_def split: if_splits)
qed

function release :: "cjson_lib \<Rightarrow> job list \<Rightarrow> jworld \<Rightarrow> jworld option" where
  "release lib [] w = Some w"
| "release lib (Drop_data i # js) w =
     (case drop_data lib i w of None \<Rightarrow> None | Some w' \<Rightarrow> release lib js w')"
| "release lib (Drop_set i # js) w =
     (if i < length (sets w)
      then case drop_set i w of (ms, w') \<Rightarrow> release lib (concat (map (\<lambda>(j, a). jobs_of j) ms) @ js) w'
      else None)"
  by pat_completeness auto
termination
proof (relation "measure (\<lambda>(lib, js, w). length js + 2 * pending w)")
  fix lib :: cjson_lib and i js w ms w'
  assume a: "i < length (sets w)" "(ms, w') = drop_set i w"
  then have "pending w' + length ms = pending w" using drop_set_pending by metis
  with jobs_of_concat_le [of ms]
  show "((lib, concat (map (\<lambda>(j, a). jobs_of j) ms) @ js, w'), lib, Drop_set i # js, w)
    \<in> measure (\<lambda>(lib, js, w). length js + 2 * pending w)" by simp
qed (auto dest: drop_data_pending)

definition destroy :: "cjson_lib \<Rightarrow> json \<Rightarrow> jworld \<Rightarrow> jworld option" where
  "destroy lib j w = release lib (jobs_of j) w"

end
