(* ===== verification/Json_Wrapper.thy ===== *)
theory Json_Wrapper
  imports Json_Memory
begin

section \<open>The JSON wrapper\<close>

text \<open>
  The class \<^verbatim>\<open>Json\<close> of \<^verbatim>\<open>cjson++/cjson.hpp\<close>. Every operation gets the two pointers of the object and the
  world, and answers the result, the new pointers where the object changes, and the new world; \<^const>\<open>None\<close> is the
  dereference of a null pointer, of a freed node or of an object that was moved from.
\<close>

datatype jtype = JNull | JBool | JNumber | JString | JArray | JObject

subsection \<open>Access\<close>

definition node_ptr :: "json \<Rightarrow> jworld \<Rightarrow> addr option" where
  "node_ptr j w = map_option (\<lambda>i. data_node (datas w ! i)) (data_ptr j)"

definition node_of :: "json \<Rightarrow> jworld \<Rightarrow> cjson_node option" where
  "node_of j w = do { p \<leftarrow> node_ptr j w; a \<leftarrow> p; get_node (heap w) a }"

definition type_of_bits :: "u32 \<Rightarrow> jtype" where
  "type_of_bits b =
     (let t = b AND 0xff
      in if t = cJSON_False \<or> t = cJSON_True then JBool
         else if t = cJSON_Number then JNumber
         else if t = cJSON_String then JString
         else if t = cJSON_Array then JArray
         else if t = cJSON_Object then JObject
         else JNull)"

definition json_type :: "json \<Rightarrow> jworld \<Rightarrow> jtype option" where
  "json_type j w = map_option (\<lambda>n. type_of_bits (ntype n)) (node_of j w)"

definition json_is :: "jtype \<Rightarrow> json \<Rightarrow> jworld \<Rightarrow> bool option" where
  "json_is t j w = map_option (\<lambda>t'. t' = t) (json_type j w)"

subsection \<open>Construction\<close>

definition create :: "(cheap \<Rightarrow> addr \<times> cheap) \<Rightarrow> jworld \<Rightarrow> addr \<times> jworld" where
  "create f w = (case f (heap w) of (p, h) \<Rightarrow> (p, w\<lparr>heap := h\<rparr>))"

text \<open>\<^verbatim>\<open>Json( cJSON*, bool )\<close>, and the constructors from a value, which leave \<^verbatim>\<open>refs_\<close> empty.\<close>

definition json_new :: "addr \<Rightarrow> bool \<Rightarrow> jworld \<Rightarrow> json \<times> jworld" where
  "json_new p own w =
     (case new_data p own w of (d, w) \<Rightarrow>
        case new_set w of (s, w) \<Rightarrow> (\<lparr>data_ptr = Some d, refs_ptr = Some s\<rparr>, w))"

definition json_plain :: "(cheap \<Rightarrow> addr \<times> cheap) \<Rightarrow> jworld \<Rightarrow> json \<times> jworld" where
  "json_plain f w =
     (case create f w of (p, w) \<Rightarrow>
        case new_data p True w of (d, w) \<Rightarrow> (\<lparr>data_ptr = Some d, refs_ptr = None\<rparr>, w))"

definition json_null :: "cjson_lib \<Rightarrow> jworld \<Rightarrow> json \<times> jworld" where
  "json_null lib w = (case create (cj_create_null lib) w of (p, w) \<Rightarrow> json_new p True w)"

definition creator :: "cjson_lib \<Rightarrow> jtype \<Rightarrow> (cheap \<Rightarrow> addr \<times> cheap) option" where
  "creator lib t =
     (case t of
        JNull \<Rightarrow> None
      | JBool \<Rightarrow> Some (cj_create_bool lib False)
      | JNumber \<Rightarrow> Some (cj_create_number lib (double_of_int 0))
      | JString \<Rightarrow> Some (cj_create_string lib [])
      | JArray \<Rightarrow> Some (cj_create_array lib)
      | JObject \<Rightarrow> Some (cj_create_object lib))"

definition reset_data :: "cjson_lib \<Rightarrow> addr \<Rightarrow> json \<Rightarrow> jworld \<Rightarrow> (json \<times> jworld) option" where
  "reset_data lib p j w =
     (case new_data p True w of (d, w) \<Rightarrow>
        do { w \<leftarrow> release lib (jobs_of (j\<lparr>refs_ptr := None\<rparr>)) w; Some (j\<lparr>data_ptr := Some d\<rparr>, w) })"

definition json_of_type :: "cjson_lib \<Rightarrow> jtype \<Rightarrow> jworld \<Rightarrow> (json \<times> jworld) option" where
  "json_of_type lib t w =
     (case json_null lib w of (j, w) \<Rightarrow>
        case creator lib t of
          None \<Rightarrow> Some (j, w)
        | Some f \<Rightarrow> (case create f w of (p, w) \<Rightarrow> reset_data lib p j w))"

definition json_copy :: "json \<Rightarrow> jworld \<Rightarrow> json \<times> jworld" where
  "json_copy rhs w = (rhs, share_set (refs_ptr rhs) (share_data (data_ptr rhs) w))"

subsection \<open>The originals of the elements\<close>

text \<open>The set is ordered by the addresses of the nodes of its members, then by those of the references.\<close>

definition addr_less :: "addr \<Rightarrow> addr \<Rightarrow> bool" where
  "addr_less p q =
     (case q of None \<Rightarrow> False | Some b \<Rightarrow> (case p of None \<Rightarrow> True | Some a \<Rightarrow> a < b))"

definition json_less :: "jworld \<Rightarrow> json \<Rightarrow> json \<Rightarrow> bool" where
  "json_less w a b = addr_less (the (node_ptr a w)) (the (node_ptr b w))"

definition member_less :: "jworld \<Rightarrow> json \<times> addr \<Rightarrow> json \<times> addr \<Rightarrow> bool" where
  "member_less w x y \<longleftrightarrow>
     json_less w (fst x) (fst y) \<or> \<not> json_less w (fst y) (fst x) \<and> addr_less (snd x) (snd y)"

definition put_members :: "nat \<Rightarrow> (json \<times> addr) list \<Rightarrow> jworld \<Rightarrow> jworld" where
  "put_members s ms w = w\<lparr>sets := (sets w)[s := (sets w ! s)\<lparr>members := ms\<rparr>]\<rparr>"

definition add_member :: "cjson_lib \<Rightarrow> json \<Rightarrow> json \<times> addr \<Rightarrow> jworld \<Rightarrow> jworld option" where
  "add_member lib j m w =
     do { s \<leftarrow> refs_ptr j;
          case sorted_emplace (member_less w) m (members (sets w ! s)) of
            (ms, it, inserted) \<Rightarrow>
              if inserted then Some (put_members s ms w) else destroy lib (fst m) w }"

subsection \<open>Arrays\<close>

text \<open>What a constructor, \<^verbatim>\<open>insert\<close> or \<^verbatim>\<open>set\<close> can be given.\<close>

datatype jvalue =
    Bool_value bool | Double_value double | Int_value int | Uint_value u32 | Text_value string
  | Type_value jtype | Json_value json | List_value "jvalue list"

definition link_item :: "cjson_lib \<Rightarrow> json \<Rightarrow> json \<Rightarrow> jworld \<Rightarrow> jworld option" where
  "link_item lib j v w =
     do { p \<leftarrow> node_ptr j w;
          i \<leftarrow> cj_array_size lib p (heap w);
          q \<leftarrow> node_ptr v w;
          h \<leftarrow> cj_add_ref_array lib p q (heap w);
          ref \<leftarrow> cj_array_item lib p i h;
          add_member lib j (v, ref) (w\<lparr>heap := h\<rparr>) }"

fun construct :: "cjson_lib \<Rightarrow> jvalue \<Rightarrow> jworld \<Rightarrow> (json \<times> jworld) option"
  and insert_all :: "cjson_lib \<Rightarrow> json \<Rightarrow> jvalue list \<Rightarrow> jworld \<Rightarrow> jworld option" where
  "construct lib (Bool_value b) w = Some (json_plain (cj_create_bool lib b) w)"
| "construct lib (Double_value d) w = Some (json_plain (cj_create_number lib d) w)"
| "construct lib (Int_value i) w = Some (json_plain (cj_create_number lib (double_of_int i)) w)"
| "construct lib (Uint_value u) w = Some (json_plain (cj_create_number lib (double_of_int (uint u))) w)"
| "construct lib (Text_value s) w = Some (json_plain (cj_create_string lib (c_string s)) w)"
| "construct lib (Type_value t) w = json_of_type lib t w"
| "construct lib (Json_value j) w = Some (json_copy j w)"
| "construct lib (List_value vs) w =
     (case create (cj_create_array lib) w of (p, w) \<Rightarrow>
        case json_new p True w of (j, w) \<Rightarrow> do { w \<leftarrow> insert_all lib j vs w; Some (j, w) })"
| "insert_all lib j [] w = Some w"
| "insert_all lib j (v # vs) w =
     do { t \<leftarrow> json_type j w;
          w \<leftarrow> (if t = JArray then do { (x, w) \<leftarrow> construct lib v w; link_item lib j x w } else Some w);
          insert_all lib j vs w }"

definition json_insert :: "cjson_lib \<Rightarrow> jvalue \<Rightarrow> json \<Rightarrow> jworld \<Rightarrow> jworld option" where
  "json_insert lib v j w = insert_all lib j [v] w"

text \<open>An element as a value of its own: it does not own the node, and shares the originals of its elements.\<close>

definition json_element :: "cjson_lib \<Rightarrow> json \<Rightarrow> nat \<Rightarrow> jworld \<Rightarrow> (json \<times> jworld) option" where
  "json_element lib j item w =
     (case json_new (Some item) False w of (x, w) \<Rightarrow>
        do { s \<leftarrow> refs_ptr j;
             case find (\<lambda>m. snd m = Some item) (members (sets w ! s)) of
               None \<Rightarrow> Some (x, w)
             | Some m \<Rightarrow>
                 do { w \<leftarrow> release lib (jobs_of (x\<lparr>data_ptr := None\<rparr>)) (share_set (refs_ptr (fst m)) w);
                      Some (x\<lparr>refs_ptr := refs_ptr (fst m)\<rparr>, w) } })"

definition at_index :: "cjson_lib \<Rightarrow> int \<Rightarrow> json \<Rightarrow> jworld \<Rightarrow> (json \<times> jworld) option" where
  "at_index lib i j w =
     do { t \<leftarrow> json_type j w;
          if t \<noteq> JArray then Some (json_null lib w)
          else do { p \<leftarrow> node_ptr j w;
                    item \<leftarrow> cj_array_item lib p i (heap w);
                    case item of None \<Rightarrow> Some (json_null lib w) | Some a \<Rightarrow> json_element lib j a w } }"

definition at_key :: "cjson_lib \<Rightarrow> string \<Rightarrow> json \<Rightarrow> jworld \<Rightarrow> (json \<times> jworld) option" where
  "at_key lib k j w =
     do { t \<leftarrow> json_type j w;
          if t \<noteq> JObject then Some (json_null lib w)
          else do { p \<leftarrow> node_ptr j w;
                    item \<leftarrow> cj_object_item_cs lib p k (heap w);
                    case item of None \<Rightarrow> Some (json_null lib w) | Some a \<Rightarrow> json_element lib j a w } }"

definition json_size :: "cjson_lib \<Rightarrow> json \<Rightarrow> jworld \<Rightarrow> int option" where
  "json_size lib j w =
     do { t \<leftarrow> json_type j w;
          if t = JArray then do { p \<leftarrow> node_ptr j w; cj_array_size lib p (heap w) }
          else Some (case refs_ptr j of
                 Some s \<Rightarrow> if t = JObject then int (length (members (sets w ! s))) else 0
               | None \<Rightarrow> 0) }"

definition json_back :: "cjson_lib \<Rightarrow> json \<Rightarrow> jworld \<Rightarrow> (json \<times> jworld) option" where
  "json_back lib j w =
     do { index \<leftarrow> json_size lib j w;
          t \<leftarrow> json_type j w;
          p \<leftarrow> node_ptr j w;
          item \<leftarrow> (if t = JArray \<and> index > 0 then cj_array_item lib p (index - 1) (heap w) else Some None);
          Some (case item of None \<Rightarrow> json_null lib w | Some a \<Rightarrow> json_new (Some a) False w) }"

fun erase_first :: "('a \<Rightarrow> bool) \<Rightarrow> 'a list \<Rightarrow> ('a option \<times> 'a list)" where
  "erase_first P [] = (None, [])"
| "erase_first P (x # xs) =
     (if P x then (Some x, xs) else case erase_first P xs of (found, ys) \<Rightarrow> (found, x # ys))"

text \<open>The loop over \<^verbatim>\<open>refs_\<close> in both versions of \<^verbatim>\<open>remove\<close>: the first member of the kind is erased.\<close>

definition erase_member :: "cjson_lib \<Rightarrow> (jworld \<Rightarrow> json \<times> addr \<Rightarrow> bool) \<Rightarrow> json \<Rightarrow> jworld \<Rightarrow> jworld option" where
  "erase_member lib P j w =
     do { s \<leftarrow> refs_ptr j;
          case erase_first (P w) (members (sets w ! s)) of
            (None, _) \<Rightarrow> Some w
          | (Some m, ms) \<Rightarrow> destroy lib (fst m) (put_members s ms w) }"

definition remove_index :: "cjson_lib \<Rightarrow> int \<Rightarrow> json \<Rightarrow> jworld \<Rightarrow> jworld option" where
  "remove_index lib i j w =
     do { t \<leftarrow> json_type j w;
          if t \<noteq> JArray then Some w
          else do { p \<leftarrow> node_ptr j w;
                    (detached, h) \<leftarrow> cj_detach_index lib p i (heap w);
                    let w = w\<lparr>heap := h\<rparr>;
                    if detached = None then Some w
                    else do { w \<leftarrow> erase_member lib (\<lambda>w m. node_ptr (fst m) w = Some detached) j w;
                              h \<leftarrow> cj_delete lib detached (heap w);
                              Some (w\<lparr>heap := h\<rparr>) } } }"

subsection \<open>Objects\<close>

definition json_has :: "cjson_lib \<Rightarrow> string \<Rightarrow> json \<Rightarrow> jworld \<Rightarrow> bool option" where
  "json_has lib k j w =
     do { t \<leftarrow> json_type j w;
          if t \<noteq> JObject then Some False else do { p \<leftarrow> node_ptr j w; cj_has_item lib p k (heap w) } }"

definition remove_key :: "cjson_lib \<Rightarrow> string \<Rightarrow> json \<Rightarrow> jworld \<Rightarrow> jworld option" where
  "remove_key lib k j w =
     do { t \<leftarrow> json_type j w;
          if t \<noteq> JObject then Some w
          else do { p \<leftarrow> node_ptr j w;
                    (detached, h) \<leftarrow> cj_detach_key lib p k (heap w);
                    let w = w\<lparr>heap := h\<rparr>;
                    if detached = None then Some w
                    else do { w \<leftarrow> erase_member lib (\<lambda>w m. snd m = detached) j w;
                              h \<leftarrow> cj_delete lib detached (heap w);
                              Some (w\<lparr>heap := h\<rparr>) } } }"

definition link_key :: "cjson_lib \<Rightarrow> string \<Rightarrow> json \<Rightarrow> json \<Rightarrow> jworld \<Rightarrow> jworld option" where
  "link_key lib k j v w =
     do { p \<leftarrow> node_ptr j w;
          q \<leftarrow> node_ptr v w;
          h \<leftarrow> cj_add_ref_object lib p k q (heap w);
          ref \<leftarrow> cj_object_item_cs lib p k h;
          add_member lib j (v, ref) (w\<lparr>heap := h\<rparr>) }"

definition json_set :: "cjson_lib \<Rightarrow> string \<Rightarrow> jvalue \<Rightarrow> json \<Rightarrow> jworld \<Rightarrow> jworld option" where
  "json_set lib k v j w =
     do { t \<leftarrow> json_type j w;
          if t \<noteq> JObject then Some w
          else do { has \<leftarrow> json_has lib k j w;
                    w \<leftarrow> (if has then remove_key lib k j w else Some w);
                    (x, w) \<leftarrow> construct lib v w;
                    link_key lib k j x w } }"

subsection \<open>Assignment\<close>

definition json_assign :: "cjson_lib \<Rightarrow> json \<Rightarrow> json \<Rightarrow> jworld \<Rightarrow> (json \<times> jworld) option" where
  "json_assign lib rhs this w =
     do { w \<leftarrow> release lib (jobs_of (this\<lparr>refs_ptr := None\<rparr>)) (share_data (data_ptr rhs) w);
          w \<leftarrow> release lib (jobs_of (this\<lparr>data_ptr := None\<rparr>)) (share_set (refs_ptr rhs) w);
          Some (rhs, w) }"

definition json_swap :: "json \<Rightarrow> json \<Rightarrow> json \<times> json" where
  "json_swap this rhs = (rhs, this)"

text \<open>\<^verbatim>\<open>swap( Json( t ) )\<close> unless the type is already \<open>t\<close>: the temporary takes the old pointers and is destroyed.\<close>

definition become :: "cjson_lib \<Rightarrow> jtype \<Rightarrow> json \<Rightarrow> jworld \<Rightarrow> (json \<times> jworld) option" where
  "become lib t j w =
     do { t' \<leftarrow> json_type j w;
          if t' = t then Some (j, w)
          else do { (tmp, w) \<leftarrow> json_of_type lib t w;
                    (j, tmp) \<leftarrow> Some (json_swap j tmp);
                    w \<leftarrow> destroy lib tmp w;
                    Some (j, w) } }"

definition assign_text :: "cjson_lib \<Rightarrow> string \<Rightarrow> json \<Rightarrow> jworld \<Rightarrow> (json \<times> jworld) option" where
  "assign_text lib s j w =
     do { (j, w) \<leftarrow> become lib JString j w;
          p \<leftarrow> node_ptr j w;
          h \<leftarrow> cj_set_text lib p (c_string s) (heap w);
          Some (j, w\<lparr>heap := h\<rparr>) }"

definition bool_bits :: "bool \<Rightarrow> u32" where
  "bool_bits b = (if b then cJSON_True else cJSON_False)"

definition assign_bool :: "cjson_lib \<Rightarrow> bool \<Rightarrow> json \<Rightarrow> jworld \<Rightarrow> (json \<times> jworld) option" where
  "assign_bool lib b j w =
     do { (j, w) \<leftarrow> become lib JBool j w;
          p \<leftarrow> node_ptr j w;
          a \<leftarrow> p;
          n \<leftarrow> get_node (heap w) a;
          let n = n\<lparr>ntype := (ntype n AND NOT (cJSON_False OR cJSON_True)) OR bool_bits b\<rparr>;
          Some (j, w\<lparr>heap := put_node a n (heap w)\<rparr>) }"

definition assign_number :: "cjson_lib \<Rightarrow> double \<Rightarrow> json \<Rightarrow> jworld \<Rightarrow> (json \<times> jworld) option" where
  "assign_number lib d j w =
     do { (j, w) \<leftarrow> become lib JNumber j w;
          p \<leftarrow> node_ptr j w;
          h \<leftarrow> cj_set_number lib p d (heap w);
          Some (j, w\<lparr>heap := h\<rparr>) }"

definition json_clean :: "cjson_lib \<Rightarrow> json \<Rightarrow> jworld \<Rightarrow> (json \<times> jworld) option" where
  "json_clean lib j w =
     (case json_null lib w of (jo, w) \<Rightarrow>
        case json_swap j jo of (j, jo) \<Rightarrow> do { w \<leftarrow> destroy lib jo w; Some (j, w) })"

subsection \<open>Comparison\<close>

definition eq_bool :: "cjson_lib \<Rightarrow> bool \<Rightarrow> json \<Rightarrow> jworld \<Rightarrow> bool option" where
  "eq_bool lib b j w =
     do { t \<leftarrow> json_type j w;
          if t \<noteq> JBool then Some False
          else do { p \<leftarrow> node_ptr j w;
                    is_true \<leftarrow> cj_is_true lib p (heap w);
                    is_false \<leftarrow> cj_is_false lib p (heap w);
                    Some (is_true \<and> b \<or> is_false \<and> \<not> b) } }"

definition value_text :: "json \<Rightarrow> jworld \<Rightarrow> string option" where
  "value_text j w = do { n \<leftarrow> node_of j w; t \<leftarrow> vtext n; get_text (heap w) t }"

definition eq_text :: "string \<Rightarrow> json \<Rightarrow> jworld \<Rightarrow> bool option" where
  "eq_text s j w =
     do { t \<leftarrow> json_type j w;
          if t \<noteq> JString then Some False else map_option (\<lambda>v. v = c_string s) (value_text j w) }"

definition eq_number :: "double \<Rightarrow> json \<Rightarrow> jworld \<Rightarrow> bool option" where
  "eq_number d j w =
     do { t \<leftarrow> json_type j w;
          if t \<noteq> JNumber then Some False
          else map_option (\<lambda>n. dless (dabs (dsub (vdouble n) d)) (Dbl 1 (- 52))) (node_of j w) }"

definition eq_json :: "cjson_lib \<Rightarrow> json \<Rightarrow> json \<Rightarrow> jworld \<Rightarrow> bool option" where
  "eq_json lib this v w =
     do { p \<leftarrow> node_ptr this w;
          q \<leftarrow> node_ptr v w;
          if p = None \<or> q = None then Some False else cj_compare lib p q True (heap w) }"

definition json_bool :: "json \<Rightarrow> jworld \<Rightarrow> bool option" where
  "json_bool j w = json_is JNull j w"

subsection \<open>Reading\<close>

definition json_name :: "json \<Rightarrow> jworld \<Rightarrow> string option" where
  "json_name j w =
     do { n \<leftarrow> node_of j w; case nkey n of None \<Rightarrow> Some [] | Some t \<Rightarrow> get_text (heap w) t }"

definition json_empty :: "json \<Rightarrow> jworld \<Rightarrow> bool option" where
  "json_empty j w =
     do { t \<leftarrow> json_type j w;
          n \<leftarrow> node_of j w;
          Some (case t of
              JNull \<Rightarrow> True
            | JArray \<Rightarrow> nxt n = None \<and> prv n = None
            | JObject \<Rightarrow> nxt n = None \<and> prv n = None
            | _ \<Rightarrow> False) }"

definition as_int :: "json \<Rightarrow> jworld \<Rightarrow> int option" where
  "as_int j w = do { t \<leftarrow> json_type j w; n \<leftarrow> node_of j w; Some (if t = JNumber then vint n else 0) }"

definition as_uint :: "json \<Rightarrow> jworld \<Rightarrow> u32 option" where
  "as_uint j w = map_option of_int (as_int j w)"

definition as_int64 :: "json \<Rightarrow> jworld \<Rightarrow> int option" where
  "as_int64 j w =
     do { t \<leftarrow> json_type j w;
          n \<leftarrow> node_of j w;
          let r = dtrunc (vdouble n);
          if t \<noteq> JNumber then Some 0 else if - (2 ^ 63) \<le> r \<and> r < 2 ^ 63 then Some r else None }"

definition as_float :: "json \<Rightarrow> jworld \<Rightarrow> double option" where
  "as_float j w =
     do { t \<leftarrow> json_type j w; n \<leftarrow> node_of j w; Some (if t = JNumber then vdouble n else Dbl 0 0) }"

definition as_bool :: "json \<Rightarrow> jworld \<Rightarrow> bool option" where
  "as_bool j w = map_option (\<lambda>n. ntype n AND 0xff = cJSON_True) (node_of j w)"

definition as_string :: "json \<Rightarrow> jworld \<Rightarrow> string option" where
  "as_string j w =
     do { n \<leftarrow> node_of j w;
          let t = ntype n AND 0xff;
          if t = cJSON_False then Some ''false''
          else if t = cJSON_True then Some ''true''
          else if t = cJSON_Number then map_option string_of_int (as_int j w)
          else if t = cJSON_String then value_text j w
          else if t = cJSON_Array \<or> t = cJSON_Object then Some []
          else Some ''null'' }"

text \<open>The loop of \<^verbatim>\<open>as_array\<close> asks for the size before every turn, which does not change.\<close>

fun collect :: "cjson_lib \<Rightarrow> addr \<Rightarrow> int list \<Rightarrow> jworld \<Rightarrow> (json list \<times> jworld) option" where
  "collect lib p [] w = Some ([], w)"
| "collect lib p (i # is) w =
     do { item \<leftarrow> cj_array_item lib p i (heap w);
          (x, w) \<leftarrow> Some (json_new item False w);
          (xs, w) \<leftarrow> collect lib p is w;
          Some (x # xs, w) }"

definition as_array :: "cjson_lib \<Rightarrow> json \<Rightarrow> jworld \<Rightarrow> (json list \<times> jworld) option" where
  "as_array lib j w =
     do { t \<leftarrow> json_type j w;
          if t \<noteq> JArray then Some ([], w)
          else do { p \<leftarrow> node_ptr j w;
                    n \<leftarrow> cj_array_size lib p (heap w);
                    collect lib p (map int [0..<nat n]) w } }"

text \<open>Iterators: the pointer to a node.\<close>

definition json_begin :: "json \<Rightarrow> jworld \<Rightarrow> addr option" where
  "json_begin j w =
     (case data_ptr j of
        None \<Rightarrow> Some None
      | Some i \<Rightarrow>
          (case data_node (datas w ! i) of
             None \<Rightarrow> Some None
           | Some a \<Rightarrow> map_option chl (get_node (heap w) a)))"

definition json_iter_next :: "addr \<Rightarrow> jworld \<Rightarrow> addr option" where
  "json_iter_next i w =
     (case i of None \<Rightarrow> Some None | Some a \<Rightarrow> map_option nxt (get_node (heap w) a))"

definition json_iter_get :: "addr \<Rightarrow> jworld \<Rightarrow> json \<times> jworld" where
  "json_iter_get i w = json_new i False w"

definition json_end :: addr where
  "json_end = None"

definition iter_equal :: "addr \<Rightarrow> addr \<Rightarrow> bool" where
  "iter_equal i rhs \<longleftrightarrow> i = rhs"

definition iter_differs :: "addr \<Rightarrow> addr \<Rightarrow> bool" where
  "iter_differs i rhs \<longleftrightarrow> i \<noteq> rhs"

subsection \<open>Short forms\<close>

text \<open>The tests for a type, the index operators, and the operations that take a key as a \<^verbatim>\<open>std::string\<close>.\<close>

definition is_null :: "json \<Rightarrow> jworld \<Rightarrow> bool option" where "is_null = json_is JNull"
definition is_bool :: "json \<Rightarrow> jworld \<Rightarrow> bool option" where "is_bool = json_is JBool"
definition is_number :: "json \<Rightarrow> jworld \<Rightarrow> bool option" where "is_number = json_is JNumber"
definition is_string :: "json \<Rightarrow> jworld \<Rightarrow> bool option" where "is_string = json_is JString"
definition is_array :: "json \<Rightarrow> jworld \<Rightarrow> bool option" where "is_array = json_is JArray"
definition is_object :: "json \<Rightarrow> jworld \<Rightarrow> bool option" where "is_object = json_is JObject"

definition eq_string :: "string \<Rightarrow> json \<Rightarrow> jworld \<Rightarrow> bool option" where
  "eq_string s = eq_text (c_string s)"

definition json_differs :: "(json \<Rightarrow> jworld \<Rightarrow> bool option) \<Rightarrow> json \<Rightarrow> jworld \<Rightarrow> bool option" where
  "json_differs eq j w = map_option Not (eq j w)"

definition index_int :: "cjson_lib \<Rightarrow> int \<Rightarrow> json \<Rightarrow> jworld \<Rightarrow> (json \<times> jworld) option" where
  "index_int = at_index"

definition at_string :: "cjson_lib \<Rightarrow> string \<Rightarrow> json \<Rightarrow> jworld \<Rightarrow> (json \<times> jworld) option" where
  "at_string lib s = at_key lib (c_string s)"

definition index_string :: "cjson_lib \<Rightarrow> string \<Rightarrow> json \<Rightarrow> jworld \<Rightarrow> (json \<times> jworld) option" where
  "index_string = at_string"

definition index_key :: "cjson_lib \<Rightarrow> string \<Rightarrow> json \<Rightarrow> jworld \<Rightarrow> (json \<times> jworld) option" where
  "index_key = at_key"

definition has_string :: "cjson_lib \<Rightarrow> string \<Rightarrow> json \<Rightarrow> jworld \<Rightarrow> bool option" where
  "has_string lib s = json_has lib (c_string s)"

definition set_string :: "cjson_lib \<Rightarrow> string \<Rightarrow> jvalue \<Rightarrow> json \<Rightarrow> jworld \<Rightarrow> jworld option" where
  "set_string lib s = json_set lib (c_string s)"

definition remove_string :: "cjson_lib \<Rightarrow> string \<Rightarrow> json \<Rightarrow> jworld \<Rightarrow> jworld option" where
  "remove_string lib s = remove_key lib (c_string s)"

subsection \<open>Text\<close>

definition json_build :: "cjson_lib \<Rightarrow> bool \<Rightarrow> json \<Rightarrow> jworld \<Rightarrow> string option" where
  "json_build lib formatted j w =
     do { p \<leftarrow> node_ptr j w;
          if formatted then cj_print lib p (heap w) else cj_print_unformatted lib p (heap w) }"

definition json_parse :: "cjson_lib \<Rightarrow> string \<Rightarrow> json \<Rightarrow> jworld \<Rightarrow> (bool \<times> json \<times> jworld) option" where
  "json_parse lib s jo w =
     (case create (cj_parse lib (c_string s)) w of
        (None, w) \<Rightarrow> do { (jo, w) \<leftarrow> json_clean lib jo w; Some (False, jo, w) }
      | (Some a, w) \<Rightarrow>
          (case json_new (Some a) True w of (tmp, w) \<Rightarrow>
             do { (jo, w) \<leftarrow> json_assign lib tmp jo w;
                  w \<leftarrow> destroy lib tmp w;
                  Some (True, jo, w) }))"

definition json_minimize :: "cjson_lib \<Rightarrow> string \<Rightarrow> string" where
  "json_minimize lib s = cj_minify lib (c_string s)"

end
