(* ===== verification/Json_Counts.thy ===== *)
theory Json_Counts
  imports Json_Wrapper "HOL-Library.Multiset"
begin

section \<open>The counts of the shared objects\<close>

text \<open>
  Every shared object of the JSON wrapper counts exactly the pointers to it: those of the variables of the program and
  those of the members of the sets of originals. A pointer is written as the \<^typ>\<open>job\<close> of releasing it. \<open>counted P w\<close>
  says that the counts of \<open>w\<close> are right when the program holds the pointers \<open>P\<close>. Each part of an operation moves
  pointers between \<open>P\<close> and the world, and the invariant follows it through the operations of the class, whatever the
  library does with the nodes.
\<close>

subsection \<open>Pointers\<close>

definition data_job :: "nat option \<Rightarrow> job multiset" where
  "data_job d = (case d of None \<Rightarrow> {#} | Some i \<Rightarrow> {#Drop_data i#})"

definition set_job :: "nat option \<Rightarrow> job multiset" where
  "set_job s = (case s of None \<Rightarrow> {#} | Some i \<Rightarrow> {#Drop_set i#})"

definition ptrs :: "json \<Rightarrow> job multiset" where
  "ptrs j = set_job (refs_ptr j) + data_job (data_ptr j)"

definition member_ptrs :: "(json \<times> addr) list \<Rightarrow> job multiset" where
  "member_ptrs ms = (\<Sum>m\<leftarrow>ms. ptrs (fst m))"

definition held :: "jworld \<Rightarrow> job multiset" where
  "held w = (\<Sum>s\<leftarrow>sets w. member_ptrs (members s))"

fun uses :: "jworld \<Rightarrow> job \<Rightarrow> nat" where
  "uses w (Drop_data i) = (if i < length (datas w) then data_count (datas w ! i) else 0)"
| "uses w (Drop_set i) = (if i < length (sets w) then set_count (sets w ! i) else 0)"

definition counted :: "job multiset \<Rightarrow> jworld \<Rightarrow> bool" where
  "counted P w \<longleftrightarrow> (\<forall>x. uses w x = count (P + held w) x)"

lemma jobs_ptrs: "mset (jobs_of j) = ptrs j"
  by (simp add: jobs_of_def ptrs_def set_job_def data_job_def split: option.split)

lemma jobs_ptrs_part [simp]:
  "mset (jobs_of (j\<lparr>refs_ptr := None\<rparr>)) = data_job (data_ptr j)"
  "mset (jobs_of (j\<lparr>data_ptr := None\<rparr>)) = set_job (refs_ptr j)"
  by (simp_all add: jobs_ptrs) (simp_all add: ptrs_def set_job_def data_job_def)

lemma ptrs_simps [simp]:
  "ptrs \<lparr>data_ptr = d, refs_ptr = s\<rparr> = set_job s + data_job d"
  "ptrs (j\<lparr>data_ptr := d\<rparr>) = set_job (refs_ptr j) + data_job d"
  "ptrs (j\<lparr>refs_ptr := s\<rparr>) = set_job s + data_job (data_ptr j)"
  by (simp_all add: ptrs_def)

lemma job_simps [simp]:
  "data_job None = {#}" "data_job (Some i) = {#Drop_data i#}" "set_job None = {#}" "set_job (Some i) = {#Drop_set i#}"
  by (simp_all add: data_job_def set_job_def)

lemma member_jobs: "mset (concat (map (\<lambda>(j, a). jobs_of j) ms)) = member_ptrs ms"
  by (induction ms) (auto simp: member_ptrs_def jobs_ptrs)

lemma member_ptrs_simps [simp]:
  "member_ptrs [] = {#}" "member_ptrs (m # ms) = ptrs (fst m) + member_ptrs ms"
  by (simp_all add: member_ptrs_def)

lemma held_member: "s < length (sets w) \<Longrightarrow> m \<in> set (members (sets w ! s)) \<Longrightarrow> ptrs (fst m) \<subseteq># held w"
proof -
  have *: "x \<in> set xs \<Longrightarrow> f x \<subseteq># (\<Sum>x\<leftarrow>xs. f x)" for x xs and f :: "'b \<Rightarrow> job multiset"
    by (induction xs) (auto intro: subset_mset.add_increasing subset_mset.add_increasing2)
  assume a: "s < length (sets w)" "m \<in> set (members (sets w ! s))"
  have "member_ptrs (members (sets w ! s)) \<subseteq># held w" unfolding held_def by (rule *) (use a in simp)
  moreover have "ptrs (fst m) \<subseteq># member_ptrs (members (sets w ! s))" unfolding member_ptrs_def by (rule *) (use a in simp)
  ultimately show ?thesis by (rule subset_mset.order_trans [rotated])
qed

subsection \<open>The parts of the operations\<close>

named_theorems counts

lemma held_heap [simp]: "held (w\<lparr>heap := h\<rparr>) = held w" "held (w\<lparr>datas := ds\<rparr>) = held w"
  by (simp_all add: held_def)

lemma uses_heap [simp]: "uses (w\<lparr>heap := h\<rparr>) x = uses w x"
  by (cases x) simp_all

lemma counted_heap [simp]: "counted P (w\<lparr>heap := h\<rparr>) = counted P w"
  by (simp add: counted_def)

lemma counted_change:
  assumes "counted P w" "\<And>x. uses w x + count A x = uses w' x + count B x" "P + held w + A = Q + held w' + B"
  shows "counted Q w'"
  unfolding counted_def
proof
  fix x
  have "uses w' x + count B x = count (P + held w + A) x"
    using assms(1) assms(2) [of x, symmetric] by (simp add: counted_def)
  also have "\<dots> = count (Q + held w') x + count B x" by (simp only: assms(3) count_union)
  finally show "uses w' x = count (Q + held w') x" by simp
qed

lemma counted_range:
  assumes "counted P w" "x \<in># P + held w"
  shows "uses w x > 0" "x = Drop_data d \<Longrightarrow> d < length (datas w)" "x = Drop_set s \<Longrightarrow> s < length (sets w)"
proof -
  have "count (P + held w) x > 0" using assms(2) by (simp only: count_greater_zero_iff)
  then show "uses w x > 0" using assms(1) by (simp only: counted_def)
  then show "x = Drop_data d \<Longrightarrow> d < length (datas w)" "x = Drop_set s \<Longrightarrow> s < length (sets w)"
    by (auto split: if_splits)
qed

lemma counted_new_data: "counted P w \<Longrightarrow> new_data p own w = (d, w') \<Longrightarrow> counted (add_mset (Drop_data d) P) w'"
proof -
  assume a: "counted P w" "new_data p own w = (d, w')"
  have "uses w' x = uses w x + (if x = Drop_data d then 1 else 0)" for x
    using a(2) by (cases x) (auto simp: new_data_def nth_append)
  then show ?thesis using a by (auto simp: counted_def new_data_def)
qed

lemma counted_new_set: "counted P w \<Longrightarrow> new_set w = (s, w') \<Longrightarrow> counted (add_mset (Drop_set s) P) w'"
proof -
  assume a: "counted P w" "new_set w = (s, w')"
  have "uses w' x = uses w x + (if x = Drop_set s then 1 else 0)" for x
    using a(2) by (cases x) (auto simp: new_set_def nth_append)
  then show ?thesis using a by (auto simp: counted_def new_set_def held_def)
qed

lemma counted_share_data:
  assumes "counted P w" "data_job d \<subseteq># P + held w"
  shows "counted (data_job d + P) (share_data d w)"
proof (cases d)
  case (Some i)
  then have "i < length (datas w)" using counted_range(2) [OF assms(1)] assms(2) by simp
  then have "uses (share_data d w) x = uses w x + (if x = Drop_data i then 1 else 0)" for x
    using Some by (cases x) (auto simp: share_data_def nth_list_update)
  then show ?thesis using assms(1) Some by (auto simp: counted_def share_data_def)
qed (use assms in \<open>simp add: share_data_def\<close>)

lemma held_update:
  assumes "s < length (sets w)"
  shows "held (w\<lparr>sets := (sets w)[s := t]\<rparr>) + member_ptrs (members (sets w ! s)) = held w + member_ptrs (members t)"
proof -
  have "i < length xs \<Longrightarrow> (\<Sum>x\<leftarrow>xs[i := y]. f x) + f (xs ! i) = (\<Sum>x\<leftarrow>xs. f x) + f y"
    for xs i y and f :: "ref_set \<Rightarrow> job multiset"
    by (induction xs arbitrary: i) (auto split: nat.split simp: add_ac)
  from this [OF assms] show ?thesis by (simp add: held_def)
qed

lemma counted_share_set:
  assumes "counted P w" "set_job s \<subseteq># P + held w"
  shows "counted (set_job s + P) (share_set s w)"
proof (cases s)
  case (Some i)
  then have i: "i < length (sets w)" using counted_range(3) [OF assms(1)] assms(2) by simp
  then have "uses (share_set s w) x = uses w x + (if x = Drop_set i then 1 else 0)" for x
    using Some by (cases x) (auto simp: share_set_def nth_list_update)
  moreover have "held (share_set s w) = held w"
    using held_update [OF i, of "(sets w ! i)\<lparr>set_count := set_count (sets w ! i) + 1\<rparr>"] Some by (simp add: share_set_def)
  ultimately show ?thesis using assms(1) Some by (auto simp: counted_def)
qed (use assms in \<open>simp add: share_set_def\<close>)

lemma counted_put_members:
  assumes "counted P w" "s < length (sets w)" "P + member_ptrs (members (sets w ! s)) = Q + member_ptrs ms"
  shows "counted Q (put_members s ms w)"
proof -
  let ?w = "put_members s ms w"
  have "held ?w + member_ptrs (members (sets w ! s)) = held w + member_ptrs ms"
    using held_update [OF assms(2)] by (simp add: put_members_def)
  with assms(3) have "(Q + held ?w) + member_ptrs (members (sets w ! s)) = (P + held w) + member_ptrs (members (sets w ! s))"
    by (metis add.commute add.left_commute)
  then have "Q + held ?w = P + held w" by simp
  moreover have "uses ?w x = uses w x" for x
    using assms(2) by (cases x) (auto simp: put_members_def nth_list_update)
  ultimately show ?thesis using assms(1) by (simp add: counted_def)
qed

subsection \<open>Releasing\<close>

lemma counted_drop_data:
  assumes "counted (add_mset (Drop_data i) P) w" "drop_data lib i w = Some w'"
  shows "counted P w'"
proof -
  let ?w = "w\<lparr>datas := (datas w)[i := (datas w ! i)\<lparr>data_count := data_count (datas w ! i) - 1\<rparr>]\<rparr>"
  have i: "i < length (datas w)" "data_count (datas w ! i) > 0"
    using counted_range [OF assms(1), of "Drop_data i"] by auto
  then have "uses w x + count {#} x = uses ?w x + count {#Drop_data i#} x" for x
    by (cases x) (auto simp: nth_list_update)
  from assms(1) this have "counted P ?w" by (rule counted_change) simp
  then show ?thesis using assms(2) by (auto simp: drop_data_def Let_def split: if_splits bind_splits)
qed

lemma counted_drop_set:
  assumes "counted (add_mset (Drop_set i) P) w" "drop_set i w = (ms, w')"
  shows "counted (member_ptrs ms + P) w'"
proof -
  have i: "i < length (sets w)" "set_count (sets w ! i) > 0"
    using counted_range [OF assms(1), of "Drop_set i"] by auto
  have "uses w x + count {#} x = uses w' x + count {#Drop_set i#} x" for x
    using i assms(2) by (cases x) (auto simp: drop_set_def Let_def nth_list_update split: if_splits)
  moreover have "member_ptrs ms + held w' = held w"
    using assms(2) held_update [OF i(1), of "\<lparr>members = [], set_count = 0\<rparr>"]
      held_update [OF i(1), of "(sets w ! i)\<lparr>set_count := set_count (sets w ! i) - 1\<rparr>"]
    by (auto simp: drop_set_def Let_def add.commute split: if_splits)
  then have "add_mset (Drop_set i) P + held w + {#} = member_ptrs ms + P + held w' + {#Drop_set i#}"
    by (simp flip: \<open>member_ptrs ms + held w' = held w\<close> add: ac_simps)
  ultimately show ?thesis by (rule counted_change [OF assms(1)])
qed

lemma counted_release: "counted (mset js + P) w \<Longrightarrow> release lib js w = Some w' \<Longrightarrow> counted P w'"
proof (induction lib js w arbitrary: P rule: release.induct)
  case (2 lib i js w)
  then obtain w1 where w1: "drop_data lib i w = Some w1" "release lib js w1 = Some w'" by (auto split: option.splits)
  have "counted (mset js + P) w1" using counted_drop_data [OF _ w1(1)] 2(2) by simp
  then show ?case using 2(1) [OF w1(1)] w1(2) by blast
next
  case (3 lib i js w)
  then obtain ms w1 where w1: "i < length (sets w)" "drop_set i w = (ms, w1)"
    "release lib (concat (map (\<lambda>(j, a). jobs_of j) ms) @ js) w1 = Some w'" by (auto split: if_splits prod.splits)
  have "counted (mset (concat (map (\<lambda>(j, a). jobs_of j) ms) @ js) + P) w1"
    using counted_drop_set [OF _ w1(2), of "mset js + P"] 3(2) by (simp add: member_jobs union_assoc)
  then show ?case using 3(1) [OF w1(1) w1(2) [symmetric]] w1(3) by blast
qed simp

lemma counted_destroy: "counted (ptrs j + P) w \<Longrightarrow> destroy lib j w = Some w' \<Longrightarrow> counted P w'"
  unfolding destroy_def by (rule counted_release) (simp_all add: jobs_ptrs)

subsection \<open>Construction and copies\<close>

lemma counted_create: "counted P w \<Longrightarrow> create f w = (p, w') \<Longrightarrow> counted P w'"
  by (auto simp: create_def split: prod.splits)

lemma counted_json_new:
  assumes "counted P w" "json_new p own w = (j, w')"
  shows "counted (ptrs j + P) w'"
proof -
  obtain d w1 where d: "new_data p own w = (d, w1)" by force
  obtain s where s: "new_set w1 = (s, w')" "j = \<lparr>data_ptr = Some d, refs_ptr = Some s\<rparr>"
    using assms(2) d by (auto simp: json_new_def split: prod.splits)
  show ?thesis using counted_new_set [OF counted_new_data [OF assms(1) d] s(1)] s(2) by (simp add: add_mset_commute)
qed

lemma counted_json_plain:
  assumes "counted P w" "json_plain f w = (j, w')"
  shows "counted (ptrs j + P) w'"
proof -
  obtain p w1 where p: "create f w = (p, w1)" by force
  obtain d where d: "new_data p True w1 = (d, w')" "j = \<lparr>data_ptr = Some d, refs_ptr = None\<rparr>"
    using assms(2) p by (auto simp: json_plain_def split: prod.splits)
  show ?thesis using counted_new_data [OF counted_create [OF assms(1) p] d(1)] d(2) by simp
qed

lemma counted_json_null: "counted P w \<Longrightarrow> json_null lib w = (j, w') \<Longrightarrow> counted (ptrs j + P) w'"
  by (auto simp: json_null_def split: prod.splits dest: counted_create intro: counted_json_new)

lemma counted_reset_data:
  assumes "counted (ptrs j + P) w" "reset_data lib p j w = Some (j', w')"
  shows "counted (ptrs j' + P) w'"
proof -
  from assms(2) obtain d w1 where d: "new_data p True w = (d, w1)" "j' = j\<lparr>data_ptr := Some d\<rparr>"
    and r: "release lib (jobs_of (j\<lparr>refs_ptr := None\<rparr>)) w1 = Some w'"
    by (auto simp: reset_data_def split: prod.splits bind_splits)
  have "counted (mset (jobs_of (j\<lparr>refs_ptr := None\<rparr>)) + (ptrs j' + P)) w1"
    using counted_new_data [OF assms(1) d(1)] d(2) by (simp add: ptrs_def ac_simps)
  then show ?thesis using r by (rule counted_release)
qed

lemma counted_json_of_type:
  assumes "counted P w" "json_of_type lib t w = Some (j, w')"
  shows "counted (ptrs j + P) w'"
proof -
  obtain j0 w0 where n: "json_null lib w = (j0, w0)" by force
  have "counted (ptrs j0 + P) w0" using assms(1) n by (rule counted_json_null)
  then show ?thesis using assms(2) n
    by (auto simp: json_of_type_def split: option.splits prod.splits dest: counted_create intro: counted_reset_data)
qed

lemma ptrs_parts:
  "ptrs j \<subseteq># P \<Longrightarrow> data_job (data_ptr j) \<subseteq># P + Q" "ptrs j \<subseteq># P \<Longrightarrow> set_job (refs_ptr j) \<subseteq># P + Q"
  by (auto simp: ptrs_def subset_mset.le_iff_add ac_simps)

lemma counted_json_copy:
  assumes "counted P w" "ptrs j \<subseteq># P" "json_copy j w = (j', w')"
  shows "counted (ptrs j' + P) w'"
proof -
  let ?w = "share_data (data_ptr j) w"
  have "counted (data_job (data_ptr j) + P) ?w" using assms(1) ptrs_parts(1) [OF assms(2)] by (rule counted_share_data)
  moreover have "set_job (refs_ptr j) \<subseteq># (data_job (data_ptr j) + P) + held ?w"
    using ptrs_parts(2) [OF assms(2), of "data_job (data_ptr j) + held ?w"] by (simp add: ac_simps)
  ultimately have "counted (set_job (refs_ptr j) + (data_job (data_ptr j) + P)) (share_set (refs_ptr j) ?w)"
    by (rule counted_share_set)
  then show ?thesis using assms(3) by (auto simp: json_copy_def ptrs_def union_assoc)
qed

subsection \<open>Members\<close>

lemma emplace_ptrs:
  "sorted_emplace lt m ms = (ms', it, True) \<Longrightarrow> member_ptrs ms' = ptrs (fst m) + member_ptrs ms"
  by (induction ms arbitrary: ms') (auto simp: ac_simps split: if_splits prod.splits)

lemma counted_add_member:
  assumes "counted (ptrs (fst m) + P) w" "ptrs j \<subseteq># P" "add_member lib j m w = Some w'"
  shows "counted P w'"
proof -
  from assms(3) obtain s where s: "refs_ptr j = Some s" by (cases "refs_ptr j") (auto simp: add_member_def)
  obtain ms it inserted where e: "sorted_emplace (member_less w) m (members (sets w ! s)) = (ms, it, inserted)"
    using prod_cases3 by blast
  have "s < length (sets w)" using counted_range(3) [OF assms(1), of "Drop_set s"] ptrs_parts(2) [OF assms(2), of "held w"] s by auto
  then show ?thesis
    using assms(3) s e emplace_ptrs [of "member_less w" m] counted_destroy [OF assms(1)]
      counted_put_members [OF assms(1), of s P ms] by (cases inserted) (auto simp: add_member_def ac_simps)
qed

lemma erase_ptrs:
  "erase_first p ms = (Some m, ms') \<Longrightarrow> member_ptrs ms = ptrs (fst m) + member_ptrs ms'"
  by (induction ms arbitrary: ms') (auto simp: ac_simps split: if_splits prod.splits)

lemma counted_erase_member:
  assumes "counted P w" "ptrs j \<subseteq># P" "erase_member lib p j w = Some w'"
  shows "counted P w'"
proof -
  from assms(3) obtain s where s: "refs_ptr j = Some s" by (cases "refs_ptr j") (auto simp: erase_member_def)
  obtain found ms where e: "erase_first (p w) (members (sets w ! s)) = (found, ms)" by force
  have "s < length (sets w)" using counted_range(3) [OF assms(1), of "Drop_set s"] ptrs_parts(2) [OF assms(2), of "held w"] s by auto
  show ?thesis
  proof (cases found)
    case None
    then show ?thesis using assms(1,3) s e by (simp add: erase_member_def)
  next
    case (Some m)
    have "counted (ptrs (fst m) + P) (put_members s ms w)"
      using assms(1) \<open>s < length (sets w)\<close>
      by (rule counted_put_members) (use e Some in \<open>simp add: erase_ptrs ac_simps\<close>)
    then show ?thesis using assms(3) s e Some counted_destroy by (simp add: erase_member_def)
  qed
qed

end
