(* ===== verification/Json_Laws.thy ===== *)
theory Json_Laws
  imports Json_Wrapper
begin

section \<open>What the wrapper relies on\<close>

text \<open>
  The behaviour of cJSON 1.7.15 that the properties use, as predicates on the record of its functions: nodes
  are created at free addresses with the given value and nothing else changes; an array or object has a list
  of items, linked by \<^verbatim>\<open>child\<close> and \<^verbatim>\<open>next\<close>; adding a reference appends a new node with the content of the item.
\<close>

subsection \<open>Nodes as values\<close>

datatype content =
  Bool_content bool | Number_content double int | Text_content string | Null_content | Array_content | Object_content

definition content_of_node :: "cheap \<Rightarrow> cjson_node \<Rightarrow> content option" where
  "content_of_node h n =
     (let t = ntype n AND 0xff
      in if t = cJSON_False then Some (Bool_content False)
         else if t = cJSON_True then Some (Bool_content True)
         else if t = cJSON_Number then Some (Number_content (vdouble n) (vint n))
         else if t = cJSON_String then
           do { p \<leftarrow> vtext n; s \<leftarrow> get_text h p; Some (Text_content s) }
         else if t = cJSON_Array then Some Array_content
         else if t = cJSON_Object then Some Object_content
         else if t = cJSON_NULL then Some Null_content
         else None)"

definition content_at :: "cheap \<Rightarrow> nat \<Rightarrow> content option" where
  "content_at h a = Option.bind (get_node h a) (content_of_node h)"

fun content_type :: "content \<Rightarrow> jtype" where
  "content_type (Bool_content b) = JBool"
| "content_type (Number_content d i) = JNumber"
| "content_type (Text_content s) = JString"
| "content_type Null_content = JNull"
| "content_type Array_content = JArray"
| "content_type Object_content = JObject"

text \<open>The integer of a number is the double without its fraction, within the range of \<^verbatim>\<open>int\<close>.\<close>

definition clamp :: "int \<Rightarrow> int" where
  "clamp i = max (- (2 ^ 31)) (min (2 ^ 31 - 1) i)"

definition number_content :: "double \<Rightarrow> content" where
  "number_content d = Number_content d (clamp (dtrunc d))"

fun scalar_content :: "jvalue \<Rightarrow> content option" where
  "scalar_content (Bool_value b) = Some (Bool_content b)"
| "scalar_content (Double_value d) = Some (number_content d)"
| "scalar_content (Int_value i) = Some (number_content (double_of_int i))"
| "scalar_content (Uint_value u) = Some (number_content (double_of_int (uint u)))"
| "scalar_content (Text_value s) = Some (Text_content (c_string s))"
| "scalar_content _ = None"

subsection \<open>Lists of items\<close>

fun chain :: "cheap \<Rightarrow> addr \<Rightarrow> nat list \<Rightarrow> bool" where
  "chain h p [] \<longleftrightarrow> p = None"
| "chain h p (a # as) \<longleftrightarrow>
     p = Some a \<and> (case get_node h a of None \<Rightarrow> False | Some n \<Rightarrow> chain h (nxt n) as)"

definition items_of :: "cheap \<Rightarrow> nat \<Rightarrow> nat list \<Rightarrow> bool" where
  "items_of h p as \<longleftrightarrow> (case get_node h p of None \<Rightarrow> False | Some n \<Rightarrow> chain h (chl n) as)"

definition key_at :: "cheap \<Rightarrow> nat \<Rightarrow> string option" where
  "key_at h a = do { n \<leftarrow> get_node h a; t \<leftarrow> nkey n; get_text h t }"

text \<open>Keys are compared with or without the case of the letters of ASCII.\<close>

definition lower :: "string \<Rightarrow> string" where
  "lower = map (\<lambda>c. if 65 \<le> (of_char c :: nat) \<and> (of_char c :: nat) \<le> 90 then char_of ((of_char c :: nat) + 32) else c)"

definition same_key :: "cheap \<Rightarrow> string \<Rightarrow> nat \<Rightarrow> bool" where
  "same_key h k a \<longleftrightarrow> map_option lower (key_at h a) = Some (lower k)"

definition keeps_nodes :: "cheap \<Rightarrow> cheap \<Rightarrow> bool" where
  "keeps_nodes h h' \<longleftrightarrow>
     (\<forall>b n. get_node h b = Some n \<longrightarrow> get_node h' b = Some n) \<and>
     (\<forall>t s. get_text h t = Some s \<longrightarrow> get_text h' t = Some s)"

text \<open>A node of its own: not a reference, not in a list, without items, its text at a new address.\<close>

definition separate :: "cheap \<Rightarrow> cjson_node \<Rightarrow> bool" where
  "separate h n \<longleftrightarrow>
     ntype n AND cJSON_IsReference = 0 \<and> nxt n = None \<and> prv n = None \<and> chl n = None \<and> nkey n = None \<and>
     (\<forall>t. vtext n = Some t \<longrightarrow> get_text h t = None)"

text \<open>What stays of the other nodes when items are linked: all but the links.\<close>

definition keeps_values :: "cheap \<Rightarrow> cheap \<Rightarrow> bool" where
  "keeps_values h h' \<longleftrightarrow>
     (\<forall>b n. get_node h b = Some n \<longrightarrow>
        (\<exists>n'. get_node h' b = Some n' \<and> ntype n' = ntype n \<and> vtext n' = vtext n \<and> vint n' = vint n \<and>
           vdouble n' = vdouble n \<and> nkey n' = nkey n)) \<and>
     (\<forall>t s. get_text h t = Some s \<longrightarrow> get_text h' t = Some s)"

subsection \<open>The laws\<close>

definition creates :: "(cheap \<Rightarrow> addr \<times> cheap) \<Rightarrow> content \<Rightarrow> bool" where
  "creates f c \<longleftrightarrow>
     (\<forall>h. \<exists>a h'. f h = (Some a, h') \<and> get_node h a = None \<and> content_at h' a = Some c \<and>
        (\<exists>n. get_node h' a = Some n \<and> separate h n \<and> ((\<forall>s. c \<noteq> Text_content s) \<longrightarrow> vtext n = None)) \<and>
        keeps_nodes h h')"

definition creation_laws :: "cjson_lib \<Rightarrow> bool" where
  "creation_laws lib \<longleftrightarrow>
     creates (cj_create_null lib) Null_content \<and>
     (\<forall>b. creates (cj_create_bool lib b) (Bool_content b)) \<and>
     (\<forall>d. creates (cj_create_number lib d) (number_content d)) \<and>
     (\<forall>s. creates (cj_create_string lib s) (Text_content s)) \<and>
     creates (cj_create_array lib) Array_content \<and>
     creates (cj_create_object lib) Object_content"

definition list_laws :: "cjson_lib \<Rightarrow> bool" where
  "list_laws lib \<longleftrightarrow>
     (\<forall>h p as. items_of h p as \<longrightarrow> cj_array_size lib (Some p) h = Some (int (length as))) \<and>
     (\<forall>h p as i. items_of h p as \<longrightarrow>
        cj_array_item lib (Some p) i h = Some (if 0 \<le> i \<and> nat i < length as then Some (as ! nat i) else None)) \<and>
     (\<forall>h p as k. items_of h p as \<longrightarrow> (\<forall>a \<in> set as. key_at h a \<noteq> None) \<longrightarrow>
        cj_object_item_cs lib (Some p) k h = Some (find (\<lambda>a. key_at h a = Some k) as) \<and>
        cj_has_item lib (Some p) k h = Some (find (same_key h k) as \<noteq> None))"

definition appends :: "cheap \<Rightarrow> cheap \<Rightarrow> nat \<Rightarrow> nat list \<Rightarrow> nat \<Rightarrow> nat \<Rightarrow> bool" where
  "appends h h' p as q a \<longleftrightarrow>
     get_node h a = None \<and> items_of h' p (as @ [a]) \<and>
     (\<exists>n. get_node h' a = Some n \<and> ntype n AND cJSON_IsReference \<noteq> 0) \<and>
     (\<forall>c. content_at h q = Some c \<longrightarrow> content_at h' a = Some c) \<and> keeps_values h h'"

definition append_laws :: "cjson_lib \<Rightarrow> bool" where
  "append_laws lib \<longleftrightarrow>
     (\<forall>h p q as. items_of h p as \<longrightarrow> get_node h q \<noteq> None \<longrightarrow> p \<noteq> q \<longrightarrow> p \<notin> set as \<longrightarrow>
        (\<exists>a h'. cj_add_ref_array lib (Some p) (Some q) h = Some h' \<and> appends h h' p as q a \<and>
           (\<forall>n. get_node h' a = Some n \<longrightarrow> nkey n = None))) \<and>
     (\<forall>h p q as k. items_of h p as \<longrightarrow> get_node h q \<noteq> None \<longrightarrow> p \<noteq> q \<longrightarrow> p \<notin> set as \<longrightarrow>
        (\<exists>a h'. cj_add_ref_object lib (Some p) k (Some q) h = Some h' \<and> appends h h' p as q a \<and>
           key_at h' a = Some k))"

text \<open>
  Detaching an item leaves the others in order. Deleting a node that has no items, or is a reference, frees
  the node and its texts, but not the text of a reference.
\<close>

definition detach_laws :: "cjson_lib \<Rightarrow> bool" where
  "detach_laws lib \<longleftrightarrow>
     (\<forall>h p as i. items_of h p as \<longrightarrow> p \<notin> set as \<longrightarrow>
        (\<exists>h'. cj_detach_index lib (Some p) i h =
             Some (if 0 \<le> i \<and> nat i < length as then Some (as ! nat i) else None, h') \<and>
           keeps_values h h' \<and>
           items_of h' p (if 0 \<le> i \<and> nat i < length as then take (nat i) as @ drop (Suc (nat i)) as else as) \<and>
           (0 \<le> i \<and> nat i < length as \<longrightarrow> (\<exists>n. get_node h' (as ! nat i) = Some n \<and> nxt n = None))))"

definition delete_laws :: "cjson_lib \<Rightarrow> bool" where
  "delete_laws lib \<longleftrightarrow>
     (\<forall>h a n. get_node h a = Some n \<longrightarrow> nxt n = None \<longrightarrow> chl n = None \<or> ntype n AND cJSON_IsReference \<noteq> 0 \<longrightarrow>
        (\<exists>h'. cj_delete lib (Some a) h = Some h' \<and> (\<forall>b. b \<noteq> a \<longrightarrow> get_node h' b = get_node h b) \<and>
           (\<forall>t. ntype n AND cJSON_IsReference \<noteq> 0 \<or> vtext n \<noteq> Some t \<longrightarrow> nkey n \<noteq> Some t \<longrightarrow>
              get_text h' t = get_text h t)))"

text \<open>Setting the value of a node leaves its type, links and key.\<close>

definition same_place :: "cjson_node \<Rightarrow> cjson_node \<Rightarrow> bool" where
  "same_place n n' \<longleftrightarrow>
     ntype n' = ntype n \<and> nxt n' = nxt n \<and> prv n' = prv n \<and> chl n' = chl n \<and> nkey n' = nkey n"

definition set_laws :: "cjson_lib \<Rightarrow> bool" where
  "set_laws lib \<longleftrightarrow>
     (\<forall>h a n s s'. get_node h a = Some n \<longrightarrow> content_at h a = Some (Text_content s) \<longrightarrow>
        ntype n AND cJSON_IsReference = 0 \<longrightarrow>
        (\<exists>h' n'. cj_set_text lib (Some a) s' h = Some h' \<and> get_node h' a = Some n' \<and> same_place n n' \<and>
           content_at h' a = Some (Text_content s'))) \<and>
     (\<forall>h a n d i d'. get_node h a = Some n \<longrightarrow> content_at h a = Some (Number_content d i) \<longrightarrow>
        (\<exists>h' n'. cj_set_number lib (Some a) d' h = Some h' \<and> get_node h' a = Some n' \<and> same_place n n' \<and>
           vtext n' = vtext n \<and> texts h' = texts h \<and> content_at h' a = Some (number_content d')))"

text \<open>Parsing gives a null pointer or a new node with new items; nothing else changes.\<close>

definition parsed :: "cheap \<Rightarrow> addr \<Rightarrow> cheap \<Rightarrow> bool" where
  "parsed h p h' \<longleftrightarrow>
     keeps_nodes h h' \<and>
     (case p of
        None \<Rightarrow> True
      | Some a \<Rightarrow> get_node h a = None \<and>
          (\<exists>n c as. get_node h' a = Some n \<and> content_at h' a = Some c \<and>
             (\<forall>t. vtext n = Some t \<longrightarrow> get_text h t = None) \<and>
             items_of h' a as \<and> (\<forall>b \<in> set as. get_node h b = None)))"

definition parse_laws :: "cjson_lib \<Rightarrow> bool" where
  "parse_laws lib \<longleftrightarrow> (\<forall>s h. parsed h (fst (cj_parse lib s h)) (snd (cj_parse lib s h)))"

subsection \<open>Items are nodes\<close>

lemma chain_live: "chain h p as \<Longrightarrow> a \<in> set as \<Longrightarrow> get_node h a \<noteq> None"
  by (induction as arbitrary: p) (auto split: option.splits)

lemma items_live: "items_of h p as \<Longrightarrow> a \<in> set as \<Longrightarrow> get_node h a \<noteq> None"
  using chain_live by (auto simp: items_of_def split: option.splits)

lemma chain_unique: "chain h p as \<Longrightarrow> chain h p bs \<Longrightarrow> as = bs"
proof (induction as arbitrary: p bs)
  case Nil
  then show ?case by (cases bs) auto
next
  case (Cons a as)
  then show ?case by (cases bs) (auto split: option.splits)
qed

lemma chain_suffix: "chain h p (as @ b # bs) \<Longrightarrow> chain h (Some b) (b # bs)"
proof (induction as arbitrary: p)
  case (Cons a as)
  then obtain n :: cjson_node where "chain h (nxt n) (as @ b # bs)" by (cases "get_node h a") auto
  then show ?case by (rule Cons.IH)
qed simp

lemma chain_distinct: "chain h p as \<Longrightarrow> distinct as"
proof (induction as arbitrary: p)
  case (Cons a as)
  have "a \<notin> set as"
  proof
    assume "a \<in> set as"
    then obtain xs ys where as: "as = xs @ a # ys" by (meson split_list)
    have "chain h (Some a) (a # ys)" using Cons.prems chain_suffix [of h p "a # xs" a ys] as by simp
    moreover have "chain h (Some a) (a # as)" using Cons.prems by simp
    ultimately have "a # ys = a # as" using chain_unique by blast
    then show False using as by simp
  qed
  then show ?case using Cons by (auto split: option.splits)
qed simp

lemma keeps_values_trans:
  assumes a: "keeps_values h1 h2" and b: "keeps_values h2 h3"
  shows "keeps_values h1 h3"
  unfolding keeps_values_def
proof (intro conjI allI impI)
  fix x n assume "get_node h1 x = Some n"
  with a obtain n2 where n2: "get_node h2 x = Some n2" "ntype n2 = ntype n" "vtext n2 = vtext n" "vint n2 = vint n"
    "vdouble n2 = vdouble n" "nkey n2 = nkey n" unfolding keeps_values_def by blast
  with b obtain n3 where "get_node h3 x = Some n3" "ntype n3 = ntype n2" "vtext n3 = vtext n2" "vint n3 = vint n2"
    "vdouble n3 = vdouble n2" "nkey n3 = nkey n2" unfolding keeps_values_def by blast
  with n2 show "\<exists>n'. get_node h3 x = Some n' \<and> ntype n' = ntype n \<and> vtext n' = vtext n \<and> vint n' = vint n \<and>
      vdouble n' = vdouble n \<and> nkey n' = nkey n" by simp
qed (use a b in \<open>auto simp: keeps_values_def\<close>)

subsection \<open>Reading a node\<close>

lemma content_of_node_type: "content_of_node h n = Some c \<Longrightarrow> type_of_bits (ntype n) = content_type c"
  by (auto simp: content_of_node_def type_of_bits_def Let_def cJSON_types split: if_splits)

lemma type_of_content:
  assumes "node_ptr j w = Some (Some a)" "content_at (heap w) a = Some c"
  shows "json_type j w = Some (content_type c)"
  using assms content_of_node_type by (auto simp: json_type_def node_of_def content_at_def)

lemma read_bool:
  assumes "node_ptr j w = Some (Some a)" "content_at (heap w) a = Some (Bool_content b)"
  shows "as_bool j w = Some b"
  using assms
  by (auto simp: as_bool_def node_of_def content_at_def content_of_node_def Let_def cJSON_types split: if_splits)

lemma read_number:
  assumes "node_ptr j w = Some (Some a)" "content_at (heap w) a = Some (Number_content d i)"
  shows "as_int j w = Some i" "as_float j w = Some d"
  using assms type_of_content [OF assms]
  by (auto simp: as_int_def as_float_def node_of_def content_at_def content_of_node_def Let_def split: if_splits)

lemma read_text:
  assumes "node_ptr j w = Some (Some a)" "content_at (heap w) a = Some (Text_content s)"
  shows "as_string j w = Some s"
  using assms
  by (auto simp: as_string_def value_text_def node_of_def content_at_def content_of_node_def Let_def cJSON_types
      split: if_splits)

end
