(* ===== verification/Json_Example.thy ===== *)
theory Json_Example
  imports Json_Laws
begin

section \<open>Functions with the laws of the library\<close>

text \<open>
  The hypotheses about cJSON can hold: functions on linked nodes that satisfy them. Addresses are never used
  again. Deleting does not look for items, parsing knows no text, and printing and comparing are not used.
\<close>

subsection \<open>Definitions\<close>

definition blank :: "u32 \<Rightarrow> cjson_node" where
  "blank t =
     \<lparr>ntype = t, nxt = None, prv = None, chl = None, vtext = None, vint = 0, vdouble = Dbl 0 0, nkey = None\<rparr>"

definition alloc_node :: "cjson_node \<Rightarrow> cheap \<Rightarrow> nat \<times> cheap" where
  "alloc_node n h = (length (nodes h), h\<lparr>nodes := nodes h @ [Some n]\<rparr>)"

definition alloc_text :: "string \<Rightarrow> cheap \<Rightarrow> nat \<times> cheap" where
  "alloc_text s h = (length (texts h), h\<lparr>texts := texts h @ [Some s]\<rparr>)"

definition ex_create :: "cjson_node \<Rightarrow> cheap \<Rightarrow> addr \<times> cheap" where
  "ex_create n h = (case alloc_node n h of (a, h) \<Rightarrow> (Some a, h))"

definition ex_number :: "double \<Rightarrow> cjson_node" where
  "ex_number d = (blank cJSON_Number)\<lparr>vdouble := d, vint := clamp (dtrunc d)\<rparr>"

definition ex_create_string :: "string \<Rightarrow> cheap \<Rightarrow> addr \<times> cheap" where
  "ex_create_string s h = (case alloc_text s h of (t, h) \<Rightarrow> ex_create ((blank cJSON_String)\<lparr>vtext := Some t\<rparr>) h)"

fun walk :: "nat \<Rightarrow> cheap \<Rightarrow> addr \<Rightarrow> nat list" where
  "walk 0 h p = []"
| "walk (Suc n) h p =
     (case p of None \<Rightarrow> []
      | Some a \<Rightarrow> (case get_node h a of None \<Rightarrow> [] | Some m \<Rightarrow> a # walk n h (nxt m)))"

definition ex_items :: "cheap \<Rightarrow> nat \<Rightarrow> nat list" where
  "ex_items h p = (case get_node h p of None \<Rightarrow> [] | Some n \<Rightarrow> walk (length (nodes h)) h (chl n))"

definition ex_nth :: "nat list \<Rightarrow> int \<Rightarrow> addr" where
  "ex_nth as i = (if 0 \<le> i \<and> nat i < length as then Some (as ! nat i) else None)"

definition update_node :: "nat \<Rightarrow> (cjson_node \<Rightarrow> cjson_node) \<Rightarrow> cheap \<Rightarrow> cheap" where
  "update_node a f h = h\<lparr>nodes := (nodes h)[a := map_option f (get_node h a)]\<rparr>"

definition ex_link :: "nat \<Rightarrow> addr \<Rightarrow> nat \<Rightarrow> cheap \<Rightarrow> cheap option" where
  "ex_link p k q h =
     do { n \<leftarrow> get_node h q;
          let as = ex_items h p;
          let (t, h) = (case k of None \<Rightarrow> (None, h) | Some t \<Rightarrow> (Some t, h));
          let ref = n\<lparr>ntype := ntype n OR cJSON_IsReference, nxt := None, prv := None, nkey := t\<rparr>;
          let (a, h) = alloc_node ref h;
          Some (if as = [] then update_node p (\<lambda>m. m\<lparr>chl := Some a\<rparr>) h
                else update_node (last as) (\<lambda>m. m\<lparr>nxt := Some a\<rparr>) h) }"

definition ex_add_array :: "addr \<Rightarrow> addr \<Rightarrow> cheap \<Rightarrow> cheap option" where
  "ex_add_array p q h = do { p \<leftarrow> p; q \<leftarrow> q; ex_link p None q h }"

definition ex_add_object :: "addr \<Rightarrow> string \<Rightarrow> addr \<Rightarrow> cheap \<Rightarrow> cheap option" where
  "ex_add_object p k q h =
     do { p \<leftarrow> p; q \<leftarrow> q; let (t, h) = alloc_text k h; ex_link p (Some t) q h }"

definition free_text :: "addr \<Rightarrow> cheap \<Rightarrow> cheap" where
  "free_text t h = (case t of None \<Rightarrow> h | Some t \<Rightarrow> h\<lparr>texts := (texts h)[t := None]\<rparr>)"

definition ex_delete :: "addr \<Rightarrow> cheap \<Rightarrow> cheap option" where
  "ex_delete p h =
     (case p of None \<Rightarrow> Some h
      | Some a \<Rightarrow>
          do { n \<leftarrow> get_node h a;
               let h = h\<lparr>nodes := (nodes h)[a := None]\<rparr>;
               let h = free_text (nkey n) h;
               Some (if ntype n AND cJSON_IsReference = 0 then free_text (vtext n) h else h) })"

definition ex_detach :: "(nat list \<Rightarrow> addr) \<Rightarrow> addr \<Rightarrow> cheap \<Rightarrow> (addr \<times> cheap) option" where
  "ex_detach pick p h =
     do { p \<leftarrow> p;
          let as = ex_items h p;
          case pick as of
            None \<Rightarrow> Some (None, h)
          | Some a \<Rightarrow>
              do { n \<leftarrow> get_node h a;
                   let ahead = takeWhile (\<lambda>b. b \<noteq> a) as;
                   let h = (if ahead = [] then update_node p (\<lambda>m. m\<lparr>chl := nxt n\<rparr>) h
                            else update_node (last ahead) (\<lambda>m. m\<lparr>nxt := nxt n\<rparr>) h);
                   Some (Some a, update_node a (\<lambda>m. m\<lparr>nxt := None, prv := None\<rparr>) h) } }"

definition ex_set_text :: "addr \<Rightarrow> string \<Rightarrow> cheap \<Rightarrow> cheap option" where
  "ex_set_text p s h =
     do { a \<leftarrow> p; n \<leftarrow> get_node h a;
          if ntype n AND cJSON_String = 0 \<or> ntype n AND cJSON_IsReference \<noteq> 0 then Some h
          else (let (t, h) = alloc_text s (free_text (vtext n) h)
                in Some (put_node a (n\<lparr>vtext := Some t\<rparr>) h)) }"

definition ex_set_number :: "addr \<Rightarrow> double \<Rightarrow> cheap \<Rightarrow> cheap option" where
  "ex_set_number p d h =
     do { a \<leftarrow> p; n \<leftarrow> get_node h a;
          Some (put_node a (n\<lparr>vdouble := d, vint := clamp (dtrunc d)\<rparr>) h) }"

definition ex_is :: "u32 \<Rightarrow> addr \<Rightarrow> cheap \<Rightarrow> bool option" where
  "ex_is t p h = Some (case Option.bind p (get_node h) of None \<Rightarrow> False | Some n \<Rightarrow> ntype n AND 0xff = t)"

definition ex_parse :: "string \<Rightarrow> cheap \<Rightarrow> addr \<times> cheap" where
  "ex_parse s h =
     (if s = ''{\"a\":true}''
      then (case alloc_text ''a'' h of (t, h) \<Rightarrow>
        case alloc_node ((blank cJSON_True)\<lparr>nkey := Some t\<rparr>) h of (b, h) \<Rightarrow>
          ex_create ((blank cJSON_Object)\<lparr>chl := Some b\<rparr>) h)
      else (None, h))"

definition example_lib :: cjson_lib where
  "example_lib =
     \<lparr>cj_parse = ex_parse,
      cj_minify = (\<lambda>s. s),
      cj_create_null = ex_create (blank cJSON_NULL),
      cj_create_bool = (\<lambda>b. ex_create (blank (bool_bits b))),
      cj_create_number = (\<lambda>d. ex_create (ex_number d)),
      cj_create_string = ex_create_string,
      cj_create_array = ex_create (blank cJSON_Array),
      cj_create_object = ex_create (blank cJSON_Object),
      cj_delete = ex_delete,
      cj_array_size = (\<lambda>p h. map_option (\<lambda>a. int (length (ex_items h a))) p),
      cj_array_item = (\<lambda>p i h. map_option (\<lambda>a. ex_nth (ex_items h a) i) p),
      cj_object_item_cs = (\<lambda>p k h. map_option (\<lambda>a. find (\<lambda>b. key_at h b = Some k) (ex_items h a)) p),
      cj_has_item = (\<lambda>p k h. map_option (\<lambda>a. find (same_key h k) (ex_items h a) \<noteq> None) p),
      cj_add_ref_array = ex_add_array,
      cj_add_ref_object = ex_add_object,
      cj_detach_index = (\<lambda>p i h. ex_detach (\<lambda>as. ex_nth as i) p h),
      cj_detach_key = (\<lambda>p k h. ex_detach (find (same_key h k)) p h),
      cj_set_text = ex_set_text,
      cj_set_number = ex_set_number,
      cj_is_true = ex_is cJSON_True,
      cj_is_false = ex_is cJSON_False,
      cj_compare = (\<lambda>p q cs h. Some (p = q)),
      cj_print = (\<lambda>p h. None),
      cj_print_unformatted = (\<lambda>p h. None)\<rparr>"

subsection \<open>Creation\<close>

lemma get_node_alloc: "get_node (h\<lparr>nodes := nodes h @ [Some n]\<rparr>) b = (if b = length (nodes h) then Some n else get_node h b)"
  by (auto simp: get_node_def nth_append)

lemma get_text_alloc: "get_text (h\<lparr>texts := texts h @ [Some s]\<rparr>) t = (if t = length (texts h) then Some s else get_text h t)"
  by (auto simp: get_text_def nth_append)

lemma get_node_texts [simp]: "get_node (h\<lparr>texts := ts\<rparr>) b = get_node h b"
  and get_text_nodes [simp]: "get_text (h\<lparr>nodes := ns\<rparr>) t = get_text h t"
  by (simp_all add: get_node_def get_text_def)

lemma ex_creates:
  assumes "ntype n AND cJSON_IsReference = 0" "nxt n = None" "prv n = None" "chl n = None" "nkey n = None" "vtext n = None"
    and "\<And>h. content_of_node h n = Some c"
  shows "creates (ex_create n) c"
  unfolding creates_def
proof
  fix h :: cheap
  let ?h = "h\<lparr>nodes := nodes h @ [Some n]\<rparr>"
  have "get_node h (length (nodes h)) = None" by (simp add: get_node_def)
  moreover have "separate h n" using assms by (simp add: separate_def)
  moreover have "keeps_nodes h ?h" by (auto simp: keeps_nodes_def get_node_def nth_append)
  ultimately show "\<exists>a h'. ex_create n h = (Some a, h') \<and> get_node h a = None \<and> content_at h' a = Some c \<and>
      (\<exists>n. get_node h' a = Some n \<and> separate h n \<and> ((\<forall>s. c \<noteq> Text_content s) \<longrightarrow> vtext n = None)) \<and>
      keeps_nodes h h'"
    using assms(6,7) by (auto simp: ex_create_def alloc_node_def get_node_alloc content_at_def)
qed

lemma ex_creates_string: "creates (ex_create_string s) (Text_content s)"
  unfolding creates_def
proof
  fix h :: cheap
  let ?n = "(blank cJSON_String)\<lparr>vtext := Some (length (texts h))\<rparr>"
  let ?h = "h\<lparr>texts := texts h @ [Some s], nodes := nodes h @ [Some ?n]\<rparr>"
  have "get_node h (length (nodes h)) = None" by (simp add: get_node_def)
  moreover have "separate h ?n" by (simp add: separate_def blank_def cJSON_types get_text_def)
  moreover have "keeps_nodes h ?h"
    by (auto simp: keeps_nodes_def get_node_def get_text_def nth_append split: if_splits)
  moreover have "get_node ?h (length (nodes h)) = Some ?n" "get_text ?h (length (texts h)) = Some s"
    by (simp_all add: get_node_def get_text_def)
  ultimately show "\<exists>a h'. ex_create_string s h = (Some a, h') \<and> get_node h a = None \<and>
      content_at h' a = Some (Text_content s) \<and> (\<exists>n. get_node h' a = Some n \<and> separate h n \<and>
        ((\<forall>r. Text_content s \<noteq> Text_content r) \<longrightarrow> vtext n = None)) \<and> keeps_nodes h h'"
    by (auto simp: ex_create_string_def ex_create_def alloc_node_def alloc_text_def content_at_def
        content_of_node_def blank_def cJSON_types)
qed

lemma example_creation: "creation_laws example_lib"
  unfolding creation_laws_def example_lib_def
  by (auto intro!: ex_creates ex_creates_string
      simp: blank_def ex_number_def number_content_def content_of_node_def bool_bits_def cJSON_types)

subsection \<open>Lists\<close>

lemma chain_walk: "chain h p as \<Longrightarrow> length as \<le> n \<Longrightarrow> walk n h p = as"
proof (induction as arbitrary: p n)
  case Nil
  then show ?case by (cases n) auto
next
  case (Cons a as)
  then show ?case by (cases n) (auto split: option.splits)
qed

lemma chain_below: "chain h p as \<Longrightarrow> set as \<subseteq> {..<length (nodes h)}"
  by (induction as arbitrary: p) (auto simp: get_node_def split: option.splits if_splits)

lemma ex_items_eq:
  assumes "items_of h p as"
  shows "ex_items h p = as"
proof -
  from assms obtain n where n: "get_node h p = Some n" "chain h (chl n) as"
    by (auto simp: items_of_def split: option.splits)
  have "card (set as) \<le> card {..<length (nodes h)}"
    using chain_below [OF n(2)] by (rule card_mono [rotated]) simp
  then have "length as \<le> length (nodes h)" using distinct_card [OF chain_distinct [OF n(2)]] by simp
  then show ?thesis using n chain_walk by (simp add: ex_items_def)
qed

lemma example_lists: "list_laws example_lib"
  by (auto simp: list_laws_def example_lib_def ex_items_eq ex_nth_def)

subsection \<open>Appending\<close>

lemma get_node_update:
  "get_node (update_node a f h) b = (if b = a then map_option f (get_node h a) else get_node h b)"
  by (auto simp: update_node_def get_node_def nth_list_update)

lemma get_text_update [simp]: "get_text (update_node a f h) t = get_text h t"
  by (simp add: update_node_def get_text_def)

text \<open>The node behind the last item is the new one; the other links are as before.\<close>

lemma chain_snoc:
  assumes "get_node h' a = Some n" "nxt n = None" "a \<notin> set as"
    and "\<forall>b \<in> set as. \<exists>m m'. get_node h b = Some m \<and> get_node h' b = Some m' \<and>
      nxt m' = (if b = last as then Some a else nxt m)"
  shows "chain h p as \<Longrightarrow> as \<noteq> [] \<Longrightarrow> chain h' p (as @ [a])"
  using assms(3,4)
proof (induction as arbitrary: p)
  case (Cons b bs)
  from Cons.prems(4) obtain m m' where m: "get_node h b = Some m" "get_node h' b = Some m'"
    "nxt m' = (if b = last (b # bs) then Some a else nxt m)" by auto
  have dist: "distinct (b # bs)" by (rule chain_distinct [OF Cons.prems(1)])
  show ?case
  proof (cases "bs = []")
    case True
    then show ?thesis using Cons.prems(1) m assms(1,2) by simp
  next
    case False
    then have "b \<noteq> last (b # bs)" using dist by (auto simp: last_in_set)
    moreover have "chain h (nxt m) bs" using Cons.prems(1) m(1) by simp
    ultimately show ?thesis using Cons.IH [of "nxt m"] Cons.prems False m by auto
  qed
qed simp

lemma content_of_node_cong:
  assumes "ntype n' AND 0xff = ntype n AND 0xff" "vtext n' = vtext n" "vint n' = vint n" "vdouble n' = vdouble n"
    and "\<And>t. get_text h' t = get_text h t"
  shows "content_of_node h' n' = content_of_node h n"
  using assms by (simp add: content_of_node_def Let_def)

lemma ex_link_appends:
  assumes its: "items_of h p as" and q: "get_node h q \<noteq> None" and pa: "p \<notin> set as"
  shows "\<exists>h'. ex_link p k q h = Some h' \<and> appends h h' p as q (length (nodes h)) \<and>
    (\<exists>n'. get_node h' (length (nodes h)) = Some n' \<and> nkey n' = k) \<and> texts h' = texts h"
proof -
  let ?a = "length (nodes h)"
  from q obtain n where n: "get_node h q = Some n" by auto
  from its obtain pn where pn: "get_node h p = Some pn" "chain h (chl pn) as"
    by (auto simp: items_of_def split: option.splits)
  let ?ref = "n\<lparr>ntype := ntype n OR cJSON_IsReference, nxt := None, prv := None, nkey := k\<rparr>"
  let ?h1 = "h\<lparr>nodes := nodes h @ [Some ?ref]\<rparr>"
  obtain h2 where h2: "h2 = (if as = [] then update_node p (\<lambda>m. m\<lparr>chl := Some ?a\<rparr>) ?h1
     else update_node (last as) (\<lambda>m. m\<lparr>nxt := Some ?a\<rparr>) ?h1)" by simp
  have run: "ex_link p k q h = Some h2"
    using n ex_items_eq [OF its] by (simp add: ex_link_def alloc_node_def h2 split: option.split)
  have free: "get_node h ?a = None" by (simp add: get_node_def)
  have pne: "p \<noteq> ?a" using pn free by auto
  have ane: "?a \<notin> set as" using chain_below [OF pn(2)] by auto
  have last: "as \<noteq> [] \<Longrightarrow> last as \<noteq> ?a" using ane last_in_set by metis
  have new: "get_node h2 ?a = Some ?ref" using pne last by (cases "as = []") (auto simp: h2 get_node_update get_node_alloc)
  have bits: "ntype ?ref AND 0xff = ntype n AND 0xff"
    by (simp add: cJSON_types word_ao_dist)
  have texts: "texts h2 = texts h" by (simp add: h2 update_node_def)
  then have tx: "get_text h2 t = get_text h t" for t by (simp add: get_text_def)
  have "content_at h2 ?a = content_at h q"
    using new n content_of_node_cong [OF bits, of h2 h] tx by (simp add: content_at_def)
  then have "\<forall>c. content_at h q = Some c \<longrightarrow> content_at h2 ?a = Some c" by simp
  moreover have "items_of h2 p (as @ [?a])"
  proof (cases "as = []")
    case True
    then show ?thesis using pn pne new by (simp add: items_of_def h2 get_node_update get_node_alloc)
  next
    case False
    have "\<exists>m m'. get_node h b = Some m \<and> get_node h2 b = Some m' \<and> nxt m' = (if b = last as then Some ?a else nxt m)"
      if b: "b \<in> set as" for b
    proof -
      from chain_live [OF pn(2) b] obtain m where "get_node h b = Some m" by auto
      moreover have "b \<noteq> ?a" using b ane by auto
      ultimately show ?thesis using False by (auto simp: h2 get_node_update get_node_alloc)
    qed
    then have "chain h2 (chl pn) (as @ [?a])"
      using chain_snoc [OF new _ ane _ pn(2) False] by simp
    moreover have "p \<noteq> last as" using pa False last_in_set by metis
    ultimately show ?thesis using False pn pne by (simp add: h2 items_of_def get_node_update get_node_alloc)
  qed
  moreover have "keeps_values h h2"
    using tx free by (auto simp: h2 keeps_values_def get_node_update get_node_alloc)
  moreover have "ntype ?ref AND cJSON_IsReference \<noteq> 0" by (simp add: cJSON_types word_ao_dist)
  ultimately show ?thesis using run free new texts by (auto simp: appends_def)
qed

lemma example_append: "append_laws example_lib"
  unfolding append_laws_def
proof (intro conjI allI impI)
  fix h p q as assume "items_of h p as" "get_node h q \<noteq> None" "p \<noteq> q" "p \<notin> set as"
  then show "\<exists>a h'. cj_add_ref_array example_lib (Some p) (Some q) h = Some h' \<and>
      appends h h' p as q a \<and> (\<forall>n. get_node h' a = Some n \<longrightarrow> nkey n = None)"
    using ex_link_appends [of h p as q None]
    by (auto simp: example_lib_def ex_add_array_def intro!: exI [of _ "length (nodes h)"])
next
  fix h p q as k assume a: "items_of h p as" "get_node h q \<noteq> None" "p \<noteq> q" "p \<notin> set as"
  let ?h = "h\<lparr>texts := texts h @ [Some k]\<rparr>"
  have chain: "chain h r bs \<Longrightarrow> chain ?h r bs" for r bs
    by (induction bs arbitrary: r) (auto split: option.splits)
  then have "items_of ?h p as" using a(1) by (auto simp: items_of_def split: option.splits)
  from ex_link_appends [OF this _ a(4), of q "Some (length (texts h))"] a(2) obtain h' n' where
    h': "ex_link p (Some (length (texts h))) q ?h = Some h'" "appends ?h h' p as q (length (nodes h))"
    "get_node h' (length (nodes h)) = Some n'" "nkey n' = Some (length (texts h))" "texts h' = texts ?h" by auto
  have tx: "get_text h' t = get_text ?h t" for t using h'(5) by (simp add: get_text_def)
  have more: "get_text h t = Some s \<Longrightarrow> get_text ?h t = Some s" for t s by (simp add: get_text_def nth_append split: if_splits)
  have "keeps_values h h'"
    using h'(2) tx more unfolding appends_def keeps_values_def by simp
  moreover have "content_at h q = Some c \<Longrightarrow> content_at ?h q = Some c" for c
    using more by (auto simp: content_at_def content_of_node_def Let_def split: if_splits)
  ultimately show "\<exists>a h'. cj_add_ref_object example_lib (Some p) k (Some q) h = Some h' \<and> appends h h' p as q a \<and>
      key_at h' a = Some k"
    using h' by (auto simp: example_lib_def ex_add_object_def alloc_text_def appends_def key_at_def tx get_text_alloc)
qed

subsection \<open>Detaching\<close>

lemma chain_links:
  assumes "\<forall>b \<in> set as. \<exists>m m'. get_node h b = Some m \<and> get_node h' b = Some m' \<and> nxt m' = nxt m"
  shows "chain h p as \<Longrightarrow> chain h' p as"
  using assms by (induction as arbitrary: p) auto

lemma chain_bypass:
  assumes "get_node h a = Some n"
    and "\<forall>b \<in> set (xs @ ys). \<exists>m m'. get_node h b = Some m \<and> get_node h' b = Some m' \<and>
      nxt m' = (if b = last xs then nxt n else nxt m)"
  shows "chain h p (xs @ a # ys) \<Longrightarrow> xs \<noteq> [] \<Longrightarrow> chain h' p (xs @ ys)"
  using assms(2)
proof (induction xs arbitrary: p)
  case (Cons b xs)
  from Cons.prems(3) obtain m m' where m: "get_node h b = Some m" "get_node h' b = Some m'"
    "nxt m' = (if b = last (b # xs) then nxt n else nxt m)" by auto
  have dist: "distinct (b # xs @ a # ys)" using chain_distinct [OF Cons.prems(1)] by simp
  have rest: "chain h (nxt m) (xs @ a # ys)" "p = Some b" using Cons.prems(1) m(1) by auto
  show ?case
  proof (cases "xs = []")
    case True
    have "chain h (nxt n) ys" using rest True assms(1) by simp
    moreover have "\<forall>b \<in> set ys. \<exists>m m'. get_node h b = Some m \<and> get_node h' b = Some m' \<and> nxt m' = nxt m"
      using Cons.prems(3) dist True by auto
    ultimately have "chain h' (nxt n) ys" using chain_links by blast
    then show ?thesis using m rest True by simp
  next
    case False
    then have "b \<noteq> last (b # xs)" using dist last_in_set [OF False] by auto
    then show ?thesis using Cons.IH [OF rest(1) False] Cons.prems(3) m rest False by simp
  qed
qed simp

lemma keeps_values_update:
  assumes "\<And>n. ntype (f n) = ntype n \<and> vtext (f n) = vtext n \<and> vint (f n) = vint n \<and> vdouble (f n) = vdouble n \<and> nkey (f n) = nkey n"
  shows "keeps_values h (update_node a f h)"
  using assms by (auto simp: keeps_values_def get_node_update)

lemma ex_detach_item:
  assumes its: "items_of h p (xs @ a # ys)" and p: "p \<notin> set (xs @ a # ys)" and pick: "pick (xs @ a # ys) = Some a"
  shows "\<exists>h' n. ex_detach pick (Some p) h = Some (Some a, h') \<and> keeps_values h h' \<and> items_of h' p (xs @ ys) \<and>
    get_node h' a = Some n \<and> nxt n = None"
proof -
  from its obtain m where m: "get_node h p = Some m" "chain h (chl m) (xs @ a # ys)"
    by (auto simp: items_of_def split: option.splits)
  then obtain n where n: "get_node h a = Some n" using chain_live [OF m(2), of a] by auto
  have dist: "distinct (xs @ a # ys)" by (rule chain_distinct [OF m(2)])
  then have before: "takeWhile (\<lambda>b. b \<noteq> a) (xs @ a # ys) = xs" by (subst takeWhile_append2) auto
  obtain h1 where h1: "h1 = (if xs = [] then update_node p (\<lambda>m. m\<lparr>chl := nxt n\<rparr>) h
      else update_node (last xs) (\<lambda>m. m\<lparr>nxt := nxt n\<rparr>) h)" by simp
  let ?h = "update_node a (\<lambda>m. m\<lparr>nxt := None, prv := None\<rparr>) h1"
  have run: "ex_detach pick (Some p) h = Some (Some a, ?h)"
    using ex_items_eq [OF its] pick n before by (simp add: ex_detach_def h1)
  have "keeps_values h h1" using h1 by (auto intro!: keeps_values_update)
  moreover have "keeps_values h1 ?h" by (rule keeps_values_update) simp
  ultimately have kv: "keeps_values h ?h" by (rule keeps_values_trans)
  have live: "\<exists>k. get_node h b = Some k" if "b \<in> set (xs @ a # ys)" for b using chain_live [OF m(2) that] by auto
  have "items_of ?h p (xs @ ys)"
  proof (cases "xs = []")
    case True
    have "chain h (nxt n) ys" using m(2) n True by simp
    moreover have "\<forall>b \<in> set ys. \<exists>k k'. get_node h b = Some k \<and> get_node ?h b = Some k' \<and> nxt k' = nxt k"
    proof
      fix b assume b: "b \<in> set ys"
      then obtain k where "get_node h b = Some k" using live by auto
      moreover have "b \<noteq> a" "b \<noteq> p" using b dist p by auto
      ultimately show "\<exists>k k'. get_node h b = Some k \<and> get_node ?h b = Some k' \<and> nxt k' = nxt k"
        using True h1 by (simp add: get_node_update)
    qed
    ultimately have "chain ?h (nxt n) ys" using chain_links by blast
    then show ?thesis using True m(1) p h1 by (auto simp: items_of_def get_node_update)
  next
    case False
    have "\<forall>b \<in> set (xs @ ys). \<exists>k k'. get_node h b = Some k \<and> get_node ?h b = Some k' \<and>
        nxt k' = (if b = last xs then nxt n else nxt k)"
    proof
      fix b assume b: "b \<in> set (xs @ ys)"
      then obtain k where "get_node h b = Some k" using live by auto
      moreover have "b \<noteq> a" using b dist by auto
      ultimately show "\<exists>k k'. get_node h b = Some k \<and> get_node ?h b = Some k' \<and>
          nxt k' = (if b = last xs then nxt n else nxt k)" using False h1 by (auto simp: get_node_update)
    qed
    then have "chain ?h (chl m) (xs @ ys)" using chain_bypass [OF n _ m(2) False] by blast
    moreover have "p \<noteq> a" "p \<noteq> last xs" using p False last_in_set [OF False] by auto
    ultimately show ?thesis using False m(1) h1 by (simp add: items_of_def get_node_update)
  qed
  moreover have "a \<noteq> p" "xs \<noteq> [] \<longrightarrow> a \<noteq> last xs" using p dist last_in_set [of xs] by auto
  then have "get_node h1 a = Some n" using n h1 by (simp add: get_node_update)
  then have "\<exists>k. get_node ?h a = Some k \<and> nxt k = None" by (simp add: get_node_update)
  ultimately show ?thesis using run kv by blast
qed

lemma keeps_values_refl: "keeps_values h h"
  by (simp add: keeps_values_def)

lemma example_detach: "detach_laws example_lib"
  unfolding detach_laws_def
proof (intro allI impI)
  fix h p as i assume a: "items_of h p as" "p \<notin> set as"
  show "\<exists>h'. cj_detach_index example_lib (Some p) i h =
      Some (if 0 \<le> i \<and> nat i < length as then Some (as ! nat i) else None, h') \<and> keeps_values h h' \<and>
      items_of h' p (if 0 \<le> i \<and> nat i < length as then take (nat i) as @ drop (Suc (nat i)) as else as) \<and>
      (0 \<le> i \<and> nat i < length as \<longrightarrow> (\<exists>n. get_node h' (as ! nat i) = Some n \<and> nxt n = None))"
  proof (cases "0 \<le> i \<and> nat i < length as")
    case True
    then have split: "take (nat i) as @ as ! nat i # drop (Suc (nat i)) as = as" by (simp add: id_take_nth_drop [symmetric])
    have "ex_nth as i = Some (as ! nat i)" using True by (simp add: ex_nth_def)
    with ex_detach_item [of h p "take (nat i) as" "as ! nat i" "drop (Suc (nat i)) as" "\<lambda>as. ex_nth as i"] a split
    obtain h' n where "ex_detach (\<lambda>as. ex_nth as i) (Some p) h = Some (Some (as ! nat i), h')" "keeps_values h h'"
      "items_of h' p (take (nat i) as @ drop (Suc (nat i)) as)" "get_node h' (as ! nat i) = Some n" "nxt n = None"
      unfolding split by blast
    then show ?thesis using True by (auto simp: example_lib_def)
  next
    case False
    then have "ex_nth as i = None" by (auto simp: ex_nth_def)
    then have "cj_detach_index example_lib (Some p) i h = Some (None, h)"
      using ex_items_eq [OF a(1)] by (simp add: example_lib_def ex_detach_def)
    then show ?thesis using False a(1) keeps_values_refl by auto
  qed
qed

subsection \<open>Deleting and setting\<close>

lemma get_node_delete: "get_node (h\<lparr>nodes := (nodes h)[a := None]\<rparr>) b = (if b = a then None else get_node h b)"
  by (auto simp: get_node_def nth_list_update)

lemma get_node_free [simp]: "get_node (free_text t h) b = get_node h b"
  by (auto simp: free_text_def split: option.split)

lemma get_text_free: "get_text (free_text t h) s = (if t = Some s then None else get_text h s)"
  by (auto simp: free_text_def get_text_def nth_list_update split: option.split)

lemma example_delete: "delete_laws example_lib"
  by (auto simp: delete_laws_def example_lib_def ex_delete_def get_node_delete get_text_free Let_def)

lemma content_number: "content_at h a = Some (Number_content d i) \<Longrightarrow> get_node h a = Some n \<Longrightarrow> ntype n AND 0xff = cJSON_Number"
  by (auto simp: content_at_def content_of_node_def Let_def split: if_splits bind_splits)

lemma content_string: "content_at h a = Some (Text_content s) \<Longrightarrow> get_node h a = Some n \<Longrightarrow> ntype n AND 0xff = cJSON_String"
  by (auto simp: content_at_def content_of_node_def Let_def split: if_splits bind_splits)

lemma string_bit:
  assumes "x AND 0xff = cJSON_String"
  shows "x AND cJSON_String \<noteq> 0"
proof -
  have "x AND cJSON_String = (x AND 0xff) AND cJSON_String" by (simp add: cJSON_types and.assoc)
  then show ?thesis using assms by (simp add: cJSON_types)
qed

lemma put_node_get: "get_node h a = Some n \<Longrightarrow> get_node (put_node a n' h) b = (if b = a then Some n' else get_node h b)"
  by (auto simp: get_node_def put_node_def nth_list_update split: if_splits)

lemma example_set: "set_laws example_lib"
  unfolding set_laws_def
proof (intro conjI allI impI)
  fix h a n s s' assume a: "get_node h a = Some n" "content_at h a = Some (Text_content s)" "ntype n AND cJSON_IsReference = 0"
  have bits: "ntype n AND 0xff = cJSON_String" by (rule content_string [OF a(2,1)])
  let ?h1 = "free_text (vtext n) h"
  let ?h2 = "?h1\<lparr>texts := texts ?h1 @ [Some s']\<rparr>"
  let ?n = "n\<lparr>vtext := Some (length (texts ?h1))\<rparr>"
  have "get_node ?h2 a = Some n" using a(1) by simp
  from put_node_get [OF this, of ?n] have new: "get_node (put_node a ?n ?h2) a = Some ?n" by simp
  have "get_text (put_node a ?n ?h2) (length (texts ?h1)) = Some s'" by (simp add: put_node_def get_text_alloc)
  then have "content_at (put_node a ?n ?h2) a = Some (Text_content s')"
    using new bits by (simp add: content_at_def content_of_node_def cJSON_types)
  moreover have "cj_set_text example_lib (Some a) s' h = Some (put_node a ?n ?h2)"
    using a(1,3) string_bit [OF bits] by (simp add: example_lib_def ex_set_text_def alloc_text_def Let_def)
  ultimately show "\<exists>h' n'. cj_set_text example_lib (Some a) s' h = Some h' \<and> get_node h' a = Some n' \<and> same_place n n' \<and>
      content_at h' a = Some (Text_content s')" using new by (auto simp: same_place_def)
next
  fix h a n d i d' assume a: "get_node h a = Some n" "content_at h a = Some (Number_content d i)"
  have bits: "ntype n AND 0xff = cJSON_Number" by (rule content_number [OF a(2,1)])
  let ?n = "n\<lparr>vdouble := d', vint := clamp (dtrunc d')\<rparr>"
  from put_node_get [OF a(1), of ?n] have new: "get_node (put_node a ?n h) a = Some ?n" by simp
  then have "content_at (put_node a ?n h) a = Some (number_content d')"
    using bits by (simp add: content_at_def content_of_node_def cJSON_types number_content_def)
  moreover have "cj_set_number example_lib (Some a) d' h = Some (put_node a ?n h)"
    using a(1) by (simp add: example_lib_def ex_set_number_def)
  ultimately show "\<exists>h' n'. cj_set_number example_lib (Some a) d' h = Some h' \<and> get_node h' a = Some n' \<and> same_place n n' \<and>
      vtext n' = vtext n \<and> texts h' = texts h \<and> content_at h' a = Some (number_content d')"
    using new by (auto simp: same_place_def put_node_def)
qed

subsection \<open>Parsing\<close>

lemma ex_parse_object:
  "\<exists>a h'. ex_parse ''{\"a\":true}'' h = (Some a, h') \<and> content_at h' a = Some Object_content \<and> parsed h (Some a) h'"
proof -
  let ?b = "length (nodes h)" and ?t = "length (texts h)"
  let ?m = "(blank cJSON_True)\<lparr>nkey := Some ?t\<rparr>" and ?n = "(blank cJSON_Object)\<lparr>chl := Some ?b\<rparr>"
  let ?h = "h\<lparr>nodes := nodes h @ [Some ?m, Some ?n], texts := texts h @ [Some ''a'']\<rparr>"
  have run: "ex_parse ''{\"a\":true}'' h = (Some (Suc ?b), ?h)"
    by (simp add: ex_parse_def alloc_text_def alloc_node_def ex_create_def)
  have n: "get_node ?h (Suc ?b) = Some ?n" "get_node ?h ?b = Some ?m" by (simp_all add: get_node_def nth_append)
  have "keeps_nodes h ?h" by (auto simp: keeps_nodes_def get_node_def get_text_def nth_append split: if_splits)
  moreover have "get_node h (Suc ?b) = None" "get_node h ?b = None" by (simp_all add: get_node_def)
  moreover have "items_of ?h (Suc ?b) [?b]" using n by (simp add: items_of_def blank_def)
  moreover have c: "content_at ?h (Suc ?b) = Some Object_content"
    using n by (simp add: content_at_def content_of_node_def blank_def cJSON_types)
  moreover have "vtext ?n = None" by (simp add: blank_def)
  ultimately have "parsed h (Some (Suc ?b)) ?h" using n unfolding parsed_def by force
  then show ?thesis using run c by blast
qed

lemma example_parse: "parse_laws example_lib"
  unfolding parse_laws_def
proof (intro allI)
  fix s h
  show "parsed h (fst (cj_parse example_lib s h)) (snd (cj_parse example_lib s h))"
  proof (cases "s = ''{\"a\":true}''")
    case True
    then show ?thesis using ex_parse_object [of h] by (auto simp: example_lib_def)
  next
    case False
    then show ?thesis by (simp add: example_lib_def ex_parse_def parsed_def keeps_nodes_def)
  qed
qed

end
