(* ===== verification/Json_Programs.thy ===== *)
theory Json_Programs
  imports Json_Counts Json_Example
begin

section \<open>Programs over JSON values\<close>

text \<open>
  A program keeps a list of variables, the \<^verbatim>\<open>Json\<close> objects that live at the moment, and calls the operations of the
  class on them; an operation that returns an object adds a variable. Variables are known by their position.
\<close>

definition json_move :: "json \<Rightarrow> json \<times> json" where
  "json_move rhs = (rhs, \<lparr>data_ptr = None, refs_ptr = None\<rparr>)"

fun jsons_of :: "jvalue \<Rightarrow> json list" where
  "jsons_of (Json_value j) = [j]"
| "jsons_of (List_value vs) = concat (map jsons_of vs)"
| "jsons_of _ = []"

datatype json_op =
    Op_new jvalue
  | Op_destroy nat
  | Op_move nat
  | Op_assign nat nat
  | Op_swap nat nat
  | Op_text nat string
  | Op_bool nat bool
  | Op_number nat double
  | Op_clean nat
  | Op_parse nat string
  | Op_insert nat jvalue
  | Op_set nat string jvalue
  | Op_remove_index nat int
  | Op_remove_key nat string
  | Op_at_index nat int
  | Op_at_key nat string
  | Op_back nat
  | Op_array nat
  | Op_item addr

type_synonym json_state = "json list \<times> jworld"

definition adds :: "json list \<Rightarrow> (json \<times> jworld) option \<Rightarrow> json_state option" where
  "adds vs r = map_option (\<lambda>(j, w). (vs @ [j], w)) r"

definition sets_var :: "json list \<Rightarrow> nat \<Rightarrow> (json \<times> jworld) option \<Rightarrow> json_state option" where
  "sets_var vs i r = map_option (\<lambda>(j, w). (vs[i := j], w)) r"

definition stays :: "json list \<Rightarrow> jworld option \<Rightarrow> json_state option" where
  "stays vs r = map_option (Pair vs) r"

definition op_vars :: "json_op \<Rightarrow> nat list" where
  "op_vars c =
     (case c of
        Op_new v \<Rightarrow> [] | Op_destroy i \<Rightarrow> [i] | Op_move i \<Rightarrow> [i] | Op_assign i k \<Rightarrow> [i, k] | Op_swap i k \<Rightarrow> [i, k]
      | Op_text i s \<Rightarrow> [i] | Op_bool i b \<Rightarrow> [i] | Op_number i d \<Rightarrow> [i] | Op_clean i \<Rightarrow> [i] | Op_parse i s \<Rightarrow> [i]
      | Op_insert i v \<Rightarrow> [i] | Op_set i k v \<Rightarrow> [i] | Op_remove_index i n \<Rightarrow> [i] | Op_remove_key i k \<Rightarrow> [i]
      | Op_at_index i n \<Rightarrow> [i] | Op_at_key i k \<Rightarrow> [i] | Op_back i \<Rightarrow> [i] | Op_array i \<Rightarrow> [i] | Op_item a \<Rightarrow> [])"

definition op_jsons :: "json_op \<Rightarrow> json list" where
  "op_jsons c = (case c of Op_new v \<Rightarrow> jsons_of v | Op_insert i v \<Rightarrow> jsons_of v | Op_set i k v \<Rightarrow> jsons_of v | _ \<Rightarrow> [])"

text \<open>The objects an operation is given are variables of the program.\<close>

definition op_allowed :: "json_op \<Rightarrow> json list \<Rightarrow> bool" where
  "op_allowed c vs \<longleftrightarrow> list_all (\<lambda>i. i < length vs) (op_vars c) \<and> list_all (\<lambda>j. j \<in> set vs) (op_jsons c)"

definition json_exec :: "cjson_lib \<Rightarrow> json_op \<Rightarrow> json_state \<Rightarrow> json_state option" where
  "json_exec lib c = (\<lambda>(vs, w).
     if \<not> op_allowed c vs then None
     else case c of
        Op_new v \<Rightarrow> adds vs (construct lib v w)
      | Op_destroy i \<Rightarrow> map_option (Pair (take i vs @ drop (Suc i) vs)) (destroy lib (vs ! i) w)
      | Op_move i \<Rightarrow> (case json_move (vs ! i) of (j, rest) \<Rightarrow> Some (vs[i := rest] @ [j], w))
      | Op_assign i k \<Rightarrow> if i = k then Some (vs, w) else sets_var vs i (json_assign lib (vs ! k) (vs ! i) w)
      | Op_swap i k \<Rightarrow> (case json_swap (vs ! i) (vs ! k) of (a, b) \<Rightarrow> Some (vs[i := a, k := b], w))
      | Op_text i s \<Rightarrow> sets_var vs i (assign_text lib s (vs ! i) w)
      | Op_bool i b \<Rightarrow> sets_var vs i (assign_bool lib b (vs ! i) w)
      | Op_number i d \<Rightarrow> sets_var vs i (assign_number lib d (vs ! i) w)
      | Op_clean i \<Rightarrow> sets_var vs i (json_clean lib (vs ! i) w)
      | Op_parse i s \<Rightarrow> sets_var vs i (map_option snd (json_parse lib s (vs ! i) w))
      | Op_insert i v \<Rightarrow> stays vs (json_insert lib v (vs ! i) w)
      | Op_set i k v \<Rightarrow> stays vs (json_set lib k v (vs ! i) w)
      | Op_remove_index i n \<Rightarrow> stays vs (remove_index lib n (vs ! i) w)
      | Op_remove_key i k \<Rightarrow> stays vs (remove_key lib k (vs ! i) w)
      | Op_at_index i n \<Rightarrow> adds vs (at_index lib n (vs ! i) w)
      | Op_at_key i k \<Rightarrow> adds vs (at_key lib k (vs ! i) w)
      | Op_back i \<Rightarrow> adds vs (json_back lib (vs ! i) w)
      | Op_array i \<Rightarrow> map_option (\<lambda>(xs, w). (vs @ xs, w)) (as_array lib (vs ! i) w)
      | Op_item a \<Rightarrow> adds vs (Some (json_iter_get a w)))"

fun json_run :: "cjson_lib \<Rightarrow> json_op list \<Rightarrow> json_state \<Rightarrow> json_state option" where
  "json_run lib [] st = Some st"
| "json_run lib (c # cs) st = (case json_exec lib c st of None \<Rightarrow> None | Some st \<Rightarrow> json_run lib cs st)"

subsection \<open>Every operation keeps the counts\<close>




















subsection \<open>Programs\<close>















subsection \<open>The counts\<close>





definition json_start :: "cheap \<Rightarrow> json_state" where
  "json_start h = ([], \<lparr>heap = h, datas = [], sets = []\<rparr>)"






text \<open>
  The counts are right, but they do not free what points to itself: an array that was inserted into itself is never
  freed, as its set of originals has a copy of it, which keeps the set.
\<close>

lemma json_self_leak:
  "map_option (\<lambda>(vs, w). (vs, map data_count (datas w), map set_count (sets w)))
     (json_run example_lib
        [Op_new (Type_value JArray), Op_insert 0 (Json_value \<lparr>data_ptr = Some 1, refs_ptr = Some 0\<rparr>), Op_destroy 0]
        (json_start \<lparr>nodes = [], texts = []\<rparr>)) =
   Some ([], [0, 1], [1])"
  by code_simp

end
