(* ===== verification/Json_Tests.thy ===== *)
theory Json_Tests
  imports Json_Programs
begin

section \<open>The unit tests of the class\<close>

text \<open>
  Those tests of \<^verbatim>\<open>cjson++/test.cpp\<close> that need no text to be parsed, printed or compared by cJSON, as programs over the
  class with checks in between, on the functions of Json\_Example. Variables are in the order of their declarations;
  what an expression of a check creates is the last variable until the check is made, and is destroyed then. The
  comparisons of arrays and objects are left out, as they are made by cJSON.
\<close>

datatype json_step = Do json_op | Do_with "json list \<Rightarrow> json_op" | Check "json list \<Rightarrow> jworld \<Rightarrow> bool option"

fun test_run :: "json_step list \<Rightarrow> json_state \<Rightarrow> json_state option" where
  "test_run [] st = Some st"
| "test_run (Do c # ts) st = Option.bind (json_exec example_lib c st) (test_run ts)"
| "test_run (Do_with f # ts) st = Option.bind (json_exec example_lib (f (fst st)) st) (test_run ts)"
| "test_run (Check p # ts) st = (if p (fst st) (snd st) = Some True then test_run ts st else None)"

definition unit_test_passes :: "json_step list \<Rightarrow> bool" where
  "unit_test_passes ts \<longleftrightarrow> test_run ts (json_start \<lparr>nodes = [], texts = []\<rparr>) \<noteq> None"

definition equals :: "'a \<Rightarrow> 'a option \<Rightarrow> bool option" where
  "equals v r = map_option (\<lambda>x. x = v) r"

text \<open>A check of the variable \<open>i\<close>, and of the object an operation returns when there are \<open>n\<close> variables.\<close>

definition is_at :: "jtype \<Rightarrow> nat \<Rightarrow> json_step" where
  "is_at t i = Check (\<lambda>vs. json_is t (vs ! i))"

definition returns :: "nat \<Rightarrow> json_op \<Rightarrow> (json \<Rightarrow> jworld \<Rightarrow> bool option) \<Rightarrow> json_step list" where
  "returns n c p = [Do c, Check (\<lambda>vs. p (vs ! n)), Do (Op_destroy n)]"

definition size_is :: "int \<Rightarrow> nat \<Rightarrow> json_step" where
  "size_is k i = Check (\<lambda>vs w. equals k (json_size example_lib (vs ! i) w))"

definition numbers :: "int list \<Rightarrow> jvalue" where
  "numbers is = List_value (map Int_value is)"

definition constructor_test :: "json_step list" where
  "constructor_test =
     [Do (Op_new (Type_value JNull)), is_at JNull 0] @
     concat (map (\<lambda>(i, t). [Do (Op_new (Type_value t)), is_at t i])
       [(1, JBool), (2, JNumber), (3, JString), (4, JArray), (5, JObject)]) @
     map (\<lambda>i. Do (Op_destroy i)) [5, 4, 3, 2, 1] @
     [Do (Op_new (Bool_value True)), is_at JBool 1,
      Do (Op_new (Double_value (ratio 1 2))), is_at JNumber 2,
      Do (Op_new (Int_value 5)), is_at JNumber 3,
      Do (Op_new (Uint_value 5)), is_at JNumber 4,
      Do (Op_new (Text_value ''test'')), is_at JString 5,
      Do (Op_new (Text_value ''test'')), is_at JString 6,
      Do (Op_new (numbers [1, 2, 3])), is_at JArray 7,
      Do (Op_new (List_value [Text_value ''4'', Text_value ''5'', Text_value ''6''])), is_at JArray 8,
      Do_with (\<lambda>vs. Op_new (Json_value (vs ! 8))), is_at JArray 9,
      Do (Op_move 6), is_at JString 10]"

definition swap_test :: "json_step list" where
  "swap_test = [Do (Op_new (Int_value 5)), Do (Op_new (Text_value ''test'')), Do (Op_swap 0 1), is_at JNumber 1, is_at JString 0]"

definition assignment_test :: "json_step list" where
  "assignment_test =
     [Do (Op_new (Int_value 5)), Do (Op_new (Type_value JNull)), Do (Op_assign 1 0), is_at JNumber 1, is_at JNumber 0,
      Do (Op_text 1 ''test''), is_at JString 1, Do (Op_bool 1 True), is_at JBool 1] @
     concat (map (\<lambda>d. [Do (Op_number 1 d), is_at JNumber 1])
       (replicate 5 (double_of_int 123) @ [ratio 10317988 8388608, ratio 123 100]))"

definition comparison_test :: "json_step list" where
  "comparison_test =
     [Do (Op_new (Bool_value True)), Check (\<lambda>vs. eq_bool example_lib True (vs ! 0)),
      Do (Op_new (Bool_value False)), Check (\<lambda>vs. eq_bool example_lib False (vs ! 1)),
      Do (Op_new (Text_value ''C string'')), Check (\<lambda>vs. eq_text ''C string'' (vs ! 2)),
      Do (Op_new (Text_value ''string'')), Check (\<lambda>vs. eq_text ''string'' (vs ! 3)),
      Do (Op_new (Int_value 5))] @
     replicate 7 (Check (\<lambda>vs. eq_number (double_of_int 5) (vs ! 4)))"

definition operator_bool_test :: "json_step list" where
  "operator_bool_test =
     [Do (Op_new (Type_value JNull)), Check (\<lambda>vs. json_bool (vs ! 0)),
      Do (Op_new (Int_value 5)), Check (\<lambda>vs w. equals False (json_bool (vs ! 1) w))]"

definition clean_test :: "json_step list" where
  "clean_test = [Do (Op_new (Int_value 5)), Do (Op_clean 0), Check (\<lambda>vs. json_bool (vs ! 0))]"

definition array_index_test :: "json_step list" where
  "array_index_test =
     (let look = concat (map (\<lambda>(i, t). returns 1 (Op_at_index 0 i) (json_is t)) [(0, JNumber), (1, JNumber), (2, JNull)])
      in [Do (Op_new (numbers [1, 2])), size_is 2 0] @ look @ look)"

definition type_test :: "json_step list" where
  "type_test =
     concat (map (\<lambda>(i, t, is_t). [Do (Op_new (Type_value t)), Check (\<lambda>vs w. equals t (json_type (vs ! i) w)), is_at t i,
         Check (\<lambda>vs. is_t (vs ! i))])
       [(0, JNull, is_null), (1, JBool, is_bool), (2, JNumber, is_number), (3, JString, is_string), (4, JArray, is_array),
        (5, JObject, is_object)])"

definition empty_test :: "json_step list" where
  "empty_test = [Do (Op_new (Type_value JNull)), Check (\<lambda>vs. json_empty (vs ! 0))]"

definition array_modify_test :: "json_step list" where
  "array_modify_test =
     [Do (Op_new (Type_value JArray)), size_is 0 0, Check (\<lambda>vs. json_empty (vs ! 0)),
      Do (Op_insert 0 (Int_value 1)), Do (Op_insert 0 (Text_value ''test'')), size_is 2 0] @
     returns 1 (Op_back 0) (\<lambda>x w. equals ''test'' (as_string x w)) @
     [Do (Op_remove_index 0 2), size_is 2 0, Do (Op_remove_index 0 1), size_is 1 0] @
     returns 1 (Op_back 0) (\<lambda>x w. equals 1 (as_int x w))"

definition object_modify_test :: "json_step list" where
  "object_modify_test =
     (let look = (\<lambda>t. concat (map (\<lambda>(k, t). returns 1 (Op_at_key 0 k) (json_is t)) [(''a'', JBool), (''b'', t), (''c'', JString)]))
      in [Do (Op_new (Type_value JObject)), size_is 0 0, Check (\<lambda>vs. json_empty (vs ! 0)),
          Do (Op_set 0 ''a'' (Bool_value True)), Do (Op_set 0 ''b'' (Int_value 1)), Do (Op_set 0 ''c'' (Text_value ''test'')),
          size_is 3 0] @ look JNumber @
         [Do (Op_remove_key 0 ''b''), size_is 2 0] @ look JNull @
         [Do (Op_new (Type_value JObject)), Do (Op_set 1 ''name'' (Text_value ''test'')), Do (Op_set 1 ''value'' (Int_value 5)),
          Do_with (\<lambda>vs. Op_set 0 ''branch'' (Json_value (vs ! 1))), size_is 3 0,
          Check (\<lambda>vs. json_has example_lib ''branch'' (vs ! 0)), Do (Op_at_key 0 ''branch'')] @
         returns 3 (Op_at_key 2 ''name'') (\<lambda>x w. equals ''test'' (as_string x w)) @
         returns 3 (Op_at_key 2 ''value'') (\<lambda>x w. equals 5 (as_int x w)))"

definition item_int :: "addr \<Rightarrow> jworld \<Rightarrow> int option" where
  "item_int i w = (case json_iter_get i w of (x, w) \<Rightarrow> as_int x w)"

definition iterator_test :: "json_step list" where
  "iterator_test =
     [Do (Op_new (numbers [1, 2])),
      Check (\<lambda>vs w. do { i \<leftarrow> json_begin (vs ! 0) w; a \<leftarrow> item_int i w;
        j \<leftarrow> json_iter_next i w; b \<leftarrow> item_int j w; k \<leftarrow> json_iter_next j w;
        Some (iter_differs i json_end \<and> a = 1 \<and> iter_differs j json_end \<and> b = 2 \<and> iter_equal k json_end) })]"

theorem json_unit_tests:
  "list_all unit_test_passes
     [constructor_test, swap_test, assignment_test, comparison_test, operator_bool_test, clean_test, array_index_test,
      type_test, empty_test, array_modify_test, object_modify_test, iterator_test]"
  by code_simp

end
