(* ===== verification/Json_Containers.thy ===== *)
theory Json_Containers
  imports Json_Laws
begin

section \<open>Arrays and objects of the JSON wrapper\<close>

text \<open>
  What the operations on a value with items do under the laws of the library: the predicate \<open>holder\<close> has the
  shared objects of the value, the items in the memory of the library and their contents; adding keeps it, and
  reading and removing rest on it.
\<close>

subsection \<open>What is kept\<close>

lemma keeps_content:
  assumes "keeps_nodes h h' \<or> keeps_values h h'" "content_at h a = Some c"
  shows "content_at h' a = Some c"
proof -
  from assms(2) obtain n where n: "get_node h a = Some n" "content_of_node h n = Some c"
    by (auto simp: content_at_def)
  from assms(1) n(1) obtain n' where n': "get_node h' a = Some n'" "ntype n' = ntype n" "vtext n' = vtext n"
    "vint n' = vint n" "vdouble n' = vdouble n"
    unfolding keeps_nodes_def keeps_values_def by metis
  have "get_text h t = Some s \<Longrightarrow> get_text h' t = Some s" for t s
    using assms(1) unfolding keeps_nodes_def keeps_values_def by blast
  with n n' show ?thesis
    by (auto simp: content_at_def content_of_node_def Let_def split: if_splits)
qed

lemma keeps_chain: "keeps_nodes h h' \<Longrightarrow> chain h p as \<Longrightarrow> chain h' p as"
proof (induction as arbitrary: p)
  case (Cons a as)
  then obtain n where "p = Some a" "get_node h a = Some n" "chain h (nxt n) as"
    by (auto split: option.splits)
  with Cons show ?case unfolding keeps_nodes_def by auto
qed simp

lemma keeps_items: "keeps_nodes h h' \<Longrightarrow> items_of h p as \<Longrightarrow> items_of h' p as"
  using keeps_chain [of h h'] unfolding items_of_def keeps_nodes_def
  by (auto split: option.splits)

lemma keeps_nodes_values: "keeps_nodes h h' \<Longrightarrow> keeps_values h h'"
  unfolding keeps_nodes_def keeps_values_def by metis

lemma keeps_live: "keeps_values h h' \<Longrightarrow> get_node h a \<noteq> None \<Longrightarrow> get_node h' a \<noteq> None"
  unfolding keeps_values_def by (metis not_None_eq)

lemma keeps_key:
  assumes "keeps_values h h'" "key_at h a = Some k"
  shows "key_at h' a = Some k"
proof -
  from assms(2) obtain n t where n: "get_node h a = Some n" "nkey n = Some t" "get_text h t = Some k"
    by (auto simp: key_at_def split: bind_splits)
  with assms(1) obtain n' where "get_node h' a = Some n'" "nkey n' = nkey n" unfolding keeps_values_def by metis
  moreover have "get_text h' t = Some k" using assms(1) n(3) unfolding keeps_values_def by blast
  ultimately show ?thesis using n(2) by (simp add: key_at_def)
qed

subsection \<open>Scalars\<close>

lemma plain_creates:
  assumes "creates f c"
  shows "\<exists>a h'. json_plain f w =
      (\<lparr>data_ptr = Some (length (datas w)), refs_ptr = None\<rparr>,
       w\<lparr>heap := h', datas := datas w @ [\<lparr>data_node = Some a, data_own = True, data_count = 1\<rparr>]\<rparr>) \<and>
    get_node (heap w) a = None \<and> content_at h' a = Some c \<and>
    (\<exists>n. get_node h' a = Some n \<and> separate (heap w) n) \<and> keeps_nodes (heap w) h'"
proof -
  from assms obtain a h' where "f (heap w) = (Some a, h')" "get_node (heap w) a = None" "content_at h' a = Some c"
    "\<exists>n. get_node h' a = Some n \<and> separate (heap w) n" "keeps_nodes (heap w) h'"
    unfolding creates_def by metis
  then show ?thesis by (auto simp: json_plain_def create_def new_data_def)
qed

lemma construct_scalar:
  assumes "creation_laws lib" "scalar_content v = Some c"
  shows "\<exists>f. creates f c \<and> construct lib v w = Some (json_plain f w)"
  using assms by (cases v) (auto simp: creation_laws_def)

subsection \<open>Values with items\<close>

lemma item_law:
  assumes "list_laws lib" "items_of h p as"
  shows "cj_array_item lib (Some p) i h = Some (if 0 \<le> i \<and> nat i < length as then Some (as ! nat i) else None)"
    "cj_array_size lib (Some p) h = Some (int (length as))"
  using assms unfolding list_laws_def by blast+

text \<open>
  An array or object: its own two shared objects, the items of the node with the contents, and the originals
  in nodes that are not items.
\<close>

definition original :: "json \<times> addr \<Rightarrow> nat list \<Rightarrow> jworld \<Rightarrow> bool" where
  "original m as w \<longleftrightarrow>
     (\<exists>i q. data_ptr (fst m) = Some i \<and> i < length (datas w) \<and> data_node (datas w ! i) = Some q \<and>
        get_node (heap w) q \<noteq> None \<and> q \<notin> set as) \<and> snd m \<in> Some ` set as"

definition holder :: "content \<Rightarrow> json \<Rightarrow> nat \<Rightarrow> nat list \<Rightarrow> jvalue list \<Rightarrow> jworld \<Rightarrow> bool" where
  "holder c j p as vs w \<longleftrightarrow>
     (\<exists>d s. data_ptr j = Some d \<and> d < length (datas w) \<and> data_node (datas w ! d) = Some p \<and>
        refs_ptr j = Some s \<and> s < length (sets w) \<and> length (members (sets w ! s)) = length as \<and>
        (\<forall>m \<in> set (members (sets w ! s)). original m as w)) \<and>
     items_of (heap w) p as \<and> content_at (heap w) p = Some c \<and> p \<notin> set as \<and>
     list_all2 (\<lambda>a v. scalar_content v \<noteq> None \<and> content_at (heap w) a = scalar_content v) as vs \<and>
     (\<forall>a \<in> set as. \<exists>n. get_node (heap w) a = Some n \<and> ntype n AND cJSON_IsReference \<noteq> 0 \<and>
        (c = Array_content \<longrightarrow> nkey n = None))"

text \<open>The part that reading needs.\<close>

definition shown :: "content \<Rightarrow> json \<Rightarrow> nat \<Rightarrow> nat list \<Rightarrow> jvalue list \<Rightarrow> jworld \<Rightarrow> bool" where
  "shown c j p as vs w \<longleftrightarrow>
     node_ptr j w = Some (Some p) \<and> (\<exists>s. refs_ptr j = Some s \<and> s < length (sets w)) \<and>
     items_of (heap w) p as \<and> content_at (heap w) p = Some c \<and>
     list_all2 (\<lambda>a v. scalar_content v \<noteq> None \<and> content_at (heap w) a = scalar_content v) as vs"

lemma holder_shown: "holder c j p as vs w \<Longrightarrow> shown c j p as vs w"
  by (auto simp: holder_def shown_def node_ptr_def)

lemma shown_type: "shown c j p as vs w \<Longrightarrow> json_type j w = Some (content_type c)"
  using type_of_content by (auto simp: shown_def)

lemmas holder_type = shown_type [OF holder_shown]

lemma addr_less_total: "p \<noteq> q \<Longrightarrow> addr_less p q \<or> addr_less q p"
  by (cases p; cases q) (auto simp: addr_less_def)

lemma emplace_fresh:
  assumes "\<forall>y \<in> set ys. lt x y \<or> lt y x"
  shows "\<exists>zs. sorted_emplace lt x ys = (zs, x, True) \<and> set zs = insert x (set ys) \<and> length zs = Suc (length ys)"
  using assms by (induction ys) (auto split: prod.splits)

lemma member_fresh:
  assumes "\<forall>m \<in> set ms. snd m \<noteq> snd x"
  shows "\<exists>zs. sorted_emplace (member_less w) x ms = (zs, x, True) \<and> set zs = insert x (set ms) \<and>
    length zs = Suc (length ms)"
proof (rule emplace_fresh, rule ballI)
  fix y assume "y \<in> set ms"
  then have "snd x \<noteq> snd y" using assms by auto
  then show "member_less w x y \<or> member_less w y x"
    using addr_less_total [of "snd x" "snd y"] unfolding member_less_def by blast
qed

lemma original_mono:
  assumes "original m as w" "keeps_values (heap w) (heap w')" "a \<notin> set as" "get_node (heap w) a = None"
    and "\<And>i. i < length (datas w) \<Longrightarrow> i < length (datas w') \<and> datas w' ! i = datas w ! i"
  shows "original m (as @ [a]) w'"
proof -
  from assms(1) obtain i q where "data_ptr (fst m) = Some i" "i < length (datas w)" "data_node (datas w ! i) = Some q"
    "get_node (heap w) q \<noteq> None" "q \<notin> set as" "snd m \<in> Some ` set as" unfolding original_def by blast
  moreover from this have "q \<noteq> a" "get_node (heap w') q \<noteq> None" using assms(2,4) keeps_live by blast+
  ultimately show ?thesis using assms(5) [of i] unfolding original_def by auto
qed

text \<open>
  The common part of \<^verbatim>\<open>insert\<close> and \<^verbatim>\<open>set\<close>: the new value is made, the library appends a reference to it, and
  the value is put into the set of the originals.
\<close>

lemma holder_add:
  assumes lib: "creation_laws lib" and ok: "holder ct j p as vs w" and v: "scalar_content v = Some c"
    and add: "\<And>h q. items_of h p as \<Longrightarrow> get_node h q \<noteq> None \<Longrightarrow> p \<noteq> q \<Longrightarrow>
      \<exists>a h'. add q h = Some h' \<and> appends h h' p as q a \<and> Q h' a"
    and key: "\<And>h' a n. Q h' a \<Longrightarrow> ct = Array_content \<Longrightarrow> get_node h' a = Some n \<Longrightarrow> nkey n = None"
  shows "\<exists>x q w1 a h' w2. construct lib v w = Some (x, w1) \<and> node_ptr j w1 = Some (Some p) \<and>
    node_ptr x w1 = Some (Some q) \<and> keeps_nodes (heap w) (heap w1) \<and> add q (heap w1) = Some h' \<and>
    appends (heap w1) h' p as q a \<and> Q h' a \<and> add_member lib j (x, Some a) (w1\<lparr>heap := h'\<rparr>) = Some w2 \<and>
    heap w2 = h' \<and> holder ct j p (as @ [a]) (vs @ [v]) w2"
proof -
  from ok obtain d s where j: "data_ptr j = Some d" "d < length (datas w)" "data_node (datas w ! d) = Some p"
    "refs_ptr j = Some s" "s < length (sets w)" "length (members (sets w ! s)) = length as"
    "\<forall>m \<in> set (members (sets w ! s)). original m as w"
    and its: "items_of (heap w) p as" "content_at (heap w) p = Some ct" "p \<notin> set as"
    and vals: "list_all2 (\<lambda>a v. scalar_content v \<noteq> None \<and> content_at (heap w) a = scalar_content v) as vs"
    and refs: "\<forall>a \<in> set as. \<exists>n. get_node (heap w) a = Some n \<and> ntype n AND cJSON_IsReference \<noteq> 0 \<and>
      (ct = Array_content \<longrightarrow> nkey n = None)"
    unfolding holder_def by blast
  obtain f where f: "creates f c" "construct lib v w = Some (json_plain f w)"
    using construct_scalar [OF lib v] by blast
  obtain q h where q: "json_plain f w =
      (\<lparr>data_ptr = Some (length (datas w)), refs_ptr = None\<rparr>,
       w\<lparr>heap := h, datas := datas w @ [\<lparr>data_node = Some q, data_own = True, data_count = 1\<rparr>]\<rparr>)"
    "get_node (heap w) q = None" "content_at h q = Some c" "keeps_nodes (heap w) h"
    using plain_creates [OF f(1), of w] by blast
  let ?x = "\<lparr>data_ptr = Some (length (datas w)), refs_ptr = None\<rparr>"
  let ?w1 = "w\<lparr>heap := h, datas := datas w @ [\<lparr>data_node = Some q, data_own = True, data_count = 1\<rparr>]\<rparr>"
  have its1: "items_of h p as" using keeps_items [OF q(4) its(1)] .
  have pq: "p \<noteq> q" using its(2) q(2) by (auto simp: content_at_def)
  have ql: "get_node h q \<noteq> None" using q(3) by (auto simp: content_at_def)
  obtain a h' where a: "add q h = Some h'" "appends h h' p as q a" "Q h' a"
    using add [OF its1 ql pq] by blast
  have fresh: "a \<notin> set as" "get_node h a = None" using items_live [OF its1] a(2) unfolding appends_def by blast+
  have kv: "keeps_values (heap w) h" "keeps_values h h'"
    using keeps_nodes_values q(4) a(2) by (auto simp: appends_def)
  have kw: "keeps_values (heap w) h'" by (rule keeps_values_trans [OF kv])
  have free: "get_node (heap w) a = None" using fresh(2) kv(1) keeps_live by blast
  have "\<forall>m \<in> set (members (sets w ! s)). snd m \<noteq> snd (?x, Some a)" using j(7) fresh unfolding original_def by auto
  from member_fresh [OF this, of "?w1\<lparr>heap := h'\<rparr>"] obtain zs where zs:
    "sorted_emplace (member_less (?w1\<lparr>heap := h'\<rparr>)) (?x, Some a) (members (sets w ! s)) = (zs, (?x, Some a), True)"
    "set zs = insert (?x, Some a) (set (members (sets w ! s)))" "length zs = Suc (length (members (sets w ! s)))" by blast
  let ?w2 = "put_members s zs (?w1\<lparr>heap := h'\<rparr>)"
  have ptrs: "node_ptr j ?w1 = Some (Some p)" "node_ptr ?x ?w1 = Some (Some q)"
    using j by (simp_all add: node_ptr_def nth_append)
  have run: "add_member lib j (?x, Some a) (?w1\<lparr>heap := h'\<rparr>) = Some ?w2"
    using zs(1) j(4) by (simp add: add_member_def)
  have new: "content_at h' a = Some c" using a(2) q(3) by (simp add: appends_def)
  have old: "content_at (heap w) b = Some c' \<Longrightarrow> content_at h' b = Some c'" for b c'
    using keeps_content kw by metis
  have org: "original m (as @ [a]) ?w2" if "m \<in> set (members (sets w ! s))" for m
    using original_mono [of m as w ?w2 a] that j(7) kw fresh(1) free by (auto simp: put_members_def nth_append)
  have "get_node h' q \<noteq> None" using kv(2) ql keeps_live by blast
  moreover have "q \<noteq> a" using ql fresh by auto
  moreover have "q \<notin> set as" using items_live [OF its(1)] q(2) by blast
  ultimately have "original (?x, Some a) (as @ [a]) ?w2" by (auto simp: original_def put_members_def nth_append)
  then have orgs: "\<forall>m \<in> set zs. original m (as @ [a]) ?w2" using org zs(2) by auto
  have vals2: "list_all2 (\<lambda>a v. scalar_content v \<noteq> None \<and> content_at h' a = scalar_content v) (as @ [a]) (vs @ [v])"
    using vals v new old by (auto elim!: list_all2_mono intro!: list_all2_appendI)
  have refs2: "\<exists>n. get_node h' b = Some n \<and> ntype n AND cJSON_IsReference \<noteq> 0 \<and>
      (ct = Array_content \<longrightarrow> nkey n = None)" if "b \<in> set (as @ [a])" for b
  proof (cases "b = a")
    case True
    then show ?thesis using a(2) key [OF a(3)] unfolding appends_def by blast
  next
    case False
    with that refs obtain n where "get_node (heap w) b = Some n" "ntype n AND cJSON_IsReference \<noteq> 0"
      "ct = Array_content \<longrightarrow> nkey n = None" by auto
    then show ?thesis using kw unfolding keeps_values_def by metis
  qed
  have "p \<noteq> a" using its1 a(2) by (auto simp: items_of_def appends_def split: option.splits)
  then have "holder ct j p (as @ [a]) (vs @ [v]) ?w2"
    unfolding holder_def using j its(2,3) old zs(3) a(2) orgs vals2 refs2
    by (simp add: put_members_def nth_append appends_def)
  then show ?thesis
    using f(2) q(1,4) ptrs a run by (auto simp: put_members_def)
qed

subsection \<open>Arrays\<close>

lemma array_insert:
  assumes lib: "creation_laws lib" "list_laws lib" "append_laws lib"
    and ok: "holder Array_content j p as vs w" and v: "scalar_content v = Some c"
  shows "\<exists>a w'. json_insert lib v j w = Some w' \<and> holder Array_content j p (as @ [a]) (vs @ [v]) w'"
proof -
  from ok have its: "items_of (heap w) p as" "p \<notin> set as" by (auto simp: holder_def)
  have "\<exists>a h'. cj_add_ref_array lib (Some p) (Some q) h = Some h' \<and> appends h h' p as q a \<and>
      (\<forall>n. get_node h' a = Some n \<longrightarrow> nkey n = None)"
    if "items_of h p as" "get_node h q \<noteq> None" "p \<noteq> q" for h q
    using lib(3) that its(2) unfolding append_laws_def by metis
  from holder_add [OF lib(1) ok v, of "\<lambda>q. cj_add_ref_array lib (Some p) (Some q)"
      "\<lambda>h' a. \<forall>n. get_node h' a = Some n \<longrightarrow> nkey n = None", OF this]
  obtain x q w1 a h' w2 where w: "construct lib v w = Some (x, w1)" "node_ptr j w1 = Some (Some p)"
    "node_ptr x w1 = Some (Some q)" "keeps_nodes (heap w) (heap w1)"
    "cj_add_ref_array lib (Some p) (Some q) (heap w1) = Some h'" "appends (heap w1) h' p as q a"
    "add_member lib j (x, Some a) (w1\<lparr>heap := h'\<rparr>) = Some w2"
    "holder Array_content j p (as @ [a]) (vs @ [v]) w2" by blast
  have size: "cj_array_size lib (Some p) (heap w1) = Some (int (length as))"
    using item_law(2) [OF lib(2)] keeps_items [OF w(4) its(1)] by blast
  have item: "cj_array_item lib (Some p) (int (length as)) h' = Some (Some a)"
    using item_law(1) [OF lib(2), of h' p "as @ [a]"] w(6) by (simp add: appends_def nth_append)
  have "link_item lib j x w1 = Some w2" using w size item by (simp add: link_item_def)
  then have "json_insert lib v j w = Some w2" using holder_type [OF ok] w(1) by (simp add: json_insert_def)
  then show ?thesis using w(8) by blast
qed

lemma insert_all_step: "insert_all lib j (v # vs) w = Option.bind (json_insert lib v j w) (insert_all lib j vs)"
  by (cases "json_type j w") (auto simp: json_insert_def bind_assoc)

lemma array_insert_all:
  assumes lib: "creation_laws lib" "list_laws lib" "append_laws lib"
  shows "holder Array_content j p as us w \<Longrightarrow> \<forall>v \<in> set vs. scalar_content v \<noteq> None \<Longrightarrow>
    \<exists>as' w'. insert_all lib j vs w = Some w' \<and> holder Array_content j p as' (us @ vs) w'"
proof (induction vs arbitrary: as us w)
  case (Cons v vs)
  then obtain c where "scalar_content v = Some c" by auto
  from array_insert [OF lib Cons.prems(1) this] obtain a w1 where
    "json_insert lib v j w = Some w1" "holder Array_content j p (as @ [a]) (us @ [v]) w1" by blast
  then show ?case using Cons.IH [of "as @ [a]" "us @ [v]" w1] Cons.prems(2)
    by (simp add: insert_all_step del: insert_all.simps)
qed auto

lemma construct_list:
  assumes lib: "creation_laws lib" "list_laws lib" "append_laws lib" and vs: "\<forall>v \<in> set vs. scalar_content v \<noteq> None"
  shows "\<exists>j p as w'. construct lib (List_value vs) w = Some (j, w') \<and> holder Array_content j p as vs w'"
proof -
  from lib(1) have "creates (cj_create_array lib) Array_content" by (simp add: creation_laws_def)
  then obtain a h where a: "cj_create_array lib (heap w) = (Some a, h)" "content_at h a = Some Array_content"
    "\<exists>n. get_node h a = Some n \<and> separate (heap w) n" unfolding creates_def by metis
  obtain j w1 where j: "json_new (Some a) True (w\<lparr>heap := h\<rparr>) = (j, w1)" by fastforce
  have "items_of h a []" using a(3) by (auto simp: items_of_def separate_def)
  then have "holder Array_content j a [] [] w1"
    using j a(2) by (auto simp: holder_def json_new_def new_data_def new_set_def)
  from array_insert_all [OF lib this vs] obtain as w2 where
    "insert_all lib j vs w1 = Some w2" "holder Array_content j a as vs w2" by auto
  then show ?thesis using a(1) j by (auto simp: create_def)
qed

subsection \<open>Elements\<close>

text \<open>An element is read through the node it points to; making one changes no node.\<close>

lemma map_option_bind_Some: "map_option f m = Option.bind m (\<lambda>x. Some (f x))"
  by (cases m) auto

lemma release_empty_set:
  assumes "i < length (sets w)" "members (sets w ! i) = []"
  shows "\<exists>w'. release lib [Drop_set i] w = Some w' \<and> heap w' = heap w \<and> datas w' = datas w"
  using assms by (auto simp: drop_set_def Let_def)

lemma element_points:
  assumes "refs_ptr j = Some s" "s < length (sets w)"
  shows "\<exists>x w'. json_element lib j a w = Some (x, w') \<and> heap w' = heap w \<and> node_ptr x w' = Some (Some a)"
proof (cases "find (\<lambda>m. snd m = Some a) (members (sets w ! s))")
  case None
  then show ?thesis using assms
    by (simp add: json_element_def json_new_def new_data_def new_set_def node_ptr_def nth_append)
next
  case (Some m)
  let ?w1 = "w\<lparr>datas := datas w @ [\<lparr>data_node = Some a, data_own = False, data_count = 1\<rparr>],
      sets := sets w @ [\<lparr>members = [], set_count = 1\<rparr>]\<rparr>"
  obtain w2 where w2: "w2 = share_set (refs_ptr (fst m)) ?w1" by simp
  have "length (sets w2) = Suc (length (sets w))" by (simp add: w2 share_set_def split: option.split)
  moreover have "members (sets w2 ! length (sets w)) = []"
    by (cases "the (refs_ptr (fst m)) < Suc (length (sets w))")
      (auto simp: w2 share_set_def nth_list_update nth_append list_update_beyond split: option.split)
  ultimately obtain w3 where w3: "release lib [Drop_set (length (sets w))] w2 = Some w3" "heap w3 = heap w2" "datas w3 = datas w2"
    using release_empty_set by (metis lessI)
  have same: "heap w2 = heap w" "datas w2 = datas ?w1" by (simp_all add: w2 share_set_def split: option.split)
  have "json_element lib j a w = map_option
      (Pair \<lparr>data_ptr = Some (length (datas w)), refs_ptr = refs_ptr (fst m)\<rparr>) (release lib [Drop_set (length (sets w))] w2)"
    unfolding w2 using assms Some
    by (simp add: json_element_def json_new_def new_data_def new_set_def jobs_of_def map_option_bind_Some nth_append del: release.simps)
  then show ?thesis using w3 same by (simp add: node_ptr_def nth_append del: release.simps)
qed

subsection \<open>The array that was built\<close>

text \<open>What reading an element gives for the value that was put in.\<close>

fun reads_as :: "jvalue \<Rightarrow> json \<Rightarrow> jworld \<Rightarrow> bool" where
  "reads_as (Bool_value b) x w \<longleftrightarrow> json_type x w = Some JBool \<and> as_bool x w = Some b"
| "reads_as (Double_value d) x w \<longleftrightarrow> json_type x w = Some JNumber \<and> as_float x w = Some d"
| "reads_as (Int_value i) x w \<longleftrightarrow>
     json_type x w = Some JNumber \<and> as_int x w = Some (clamp (dtrunc (double_of_int i)))"
| "reads_as (Uint_value u) x w \<longleftrightarrow>
     json_type x w = Some JNumber \<and> as_uint x w = Some (if u < 2 ^ 31 then u else 2 ^ 31 - 1)"
| "reads_as (Text_value s) x w \<longleftrightarrow> json_type x w = Some JString \<and> as_string x w = Some (c_string s)"
| "reads_as _ x w \<longleftrightarrow> False"

lemma dtrunc_int: "\<bar>i\<bar> < 2 ^ 53 \<Longrightarrow> dtrunc (double_of_int i) = i"
  using dtrunc_near [of "double_of_int i"] double_of_int_exact [of i] by linarith

lemma clamp_nonneg: "0 \<le> i \<Longrightarrow> clamp i = (if i < 2 ^ 31 then i else 2 ^ 31 - 1)"
  by (auto simp: clamp_def min_def max_def)

lemma reads_content:
  assumes "node_ptr x w = Some (Some a)" "content_at (heap w) a = scalar_content v" "scalar_content v \<noteq> None"
  shows "reads_as v x w"
proof (cases v)
  case (Uint_value u)
  have u: "uint u < 2 ^ 32" using uint_lt2p [of u] by simp
  then have "dtrunc (double_of_int (uint u)) = uint u" by (intro dtrunc_int) simp
  then have i: "as_int x w = Some (clamp (uint u))"
    using read_number [of x w a] assms Uint_value by (auto simp: number_content_def)
  have "clamp (uint u) = (if uint u < 2 ^ 31 then uint u else 2 ^ 31 - 1)"
    by (rule clamp_nonneg) simp
  then have "(of_int (clamp (uint u)) :: u32) = (if u < 2 ^ 31 then u else 2 ^ 31 - 1)"
    by (auto simp: word_less_def)
  then show ?thesis using type_of_content [of x w a] i assms Uint_value by (auto simp: as_uint_def number_content_def)
qed (use assms type_of_content [of x w a] read_bool [of x w a] read_number [of x w a] read_text [of x w a]
  in \<open>auto simp: number_content_def\<close>)

lemma null_type:
  assumes "creation_laws lib"
  shows "\<exists>x w'. json_null lib w = (x, w') \<and> json_type x w' = Some JNull"
proof -
  from assms have "creates (cj_create_null lib) Null_content" by (simp add: creation_laws_def)
  then obtain a h where a: "cj_create_null lib (heap w) = (Some a, h)" "content_at h a = Some Null_content"
    unfolding creates_def by metis
  obtain x w' where x: "json_null lib w = (x, w')" by fastforce
  then have "node_ptr x w' = Some (Some a)" "heap w' = h"
    using a(1) by (auto simp: json_null_def create_def json_new_def new_data_def new_set_def node_ptr_def nth_append)
  then show ?thesis using x a(2) type_of_content [of x w' a] by simp
qed

lemma shown_length: "shown c j p as vs w \<Longrightarrow> length as = length vs"
  by (auto simp: shown_def dest: list_all2_lengthD)

lemma shown_points:
  assumes "shown c j p as vs w" "i < length vs"
  shows "\<exists>x w2. json_element lib j (as ! i) w = Some (x, w2) \<and> reads_as (vs ! i) x w2"
proof -
  from assms(1) obtain s where j: "refs_ptr j = Some s" "s < length (sets w)"
    and vals: "list_all2 (\<lambda>a v. scalar_content v \<noteq> None \<and> content_at (heap w) a = scalar_content v) as vs"
    unfolding shown_def by blast
  obtain x w2 where x: "json_element lib j (as ! i) w = Some (x, w2)" "heap w2 = heap w" "node_ptr x w2 = Some (Some (as ! i))"
    using element_points [OF j] by blast
  have "content_at (heap w2) (as ! i) = scalar_content (vs ! i) \<and> scalar_content (vs ! i) \<noteq> None"
    using list_all2_nthD2 [OF vals assms(2)] x(2) by simp
  then show ?thesis using reads_content [OF x(3)] x(1) by blast
qed

lemma array_reads:
  assumes lib: "creation_laws lib" "list_laws lib" and ok: "shown Array_content j p as vs w"
  shows "json_type j w = Some JArray \<and> json_size lib j w = Some (int (length vs)) \<and>
    (\<forall>i. \<exists>x w2. at_index lib i j w = Some (x, w2) \<and>
       (if 0 \<le> i \<and> nat i < length vs then reads_as (vs ! nat i) x w2 else json_type x w2 = Some JNull))"
proof -
  from ok have its: "items_of (heap w) p as" and ptr: "node_ptr j w = Some (Some p)" by (auto simp: shown_def)
  note item = item_law(1) [OF lib(2) its] and facts = ptr shown_type [OF ok] shown_length [OF ok]
  have "\<exists>x w2. at_index lib i j w = Some (x, w2) \<and>
      (if 0 \<le> i \<and> nat i < length vs then reads_as (vs ! nat i) x w2 else json_type x w2 = Some JNull)" for i
  proof (cases "0 \<le> i \<and> nat i < length vs")
    case True
    then show ?thesis using shown_points [OF ok, of "nat i"] item facts by (auto simp: at_index_def)
  next
    case False
    then show ?thesis using null_type [OF lib(1), of w] item facts by (auto simp: at_index_def)
  qed
  then show ?thesis using item_law(2) [OF lib(2) its] facts by (simp add: json_size_def)
qed

subsection \<open>Removing from an array\<close>

lemma chain_cong: "\<forall>b \<in> set as. get_node h' b = get_node h b \<Longrightarrow> chain h p as \<Longrightarrow> chain h' p as"
  by (induction as arbitrary: p) (auto split: option.splits)

lemma content_cong:
  assumes "get_node h' a = get_node h a" "\<And>t. get_text h' t = get_text h t"
  shows "content_at h' a = content_at h a"
proof -
  have "content_of_node h' n = content_of_node h n" for n by (simp add: content_of_node_def Let_def assms(2) cong: if_cong)
  then show ?thesis using assms(1) by (cases "get_node h a") (simp_all add: content_at_def)
qed

lemma erase_first_none: "\<forall>m \<in> set ms. \<not> P m \<Longrightarrow> fst (erase_first P ms) = None"
  by (induction ms) (auto split: prod.splits)

lemma take_drop_notin: "distinct as \<Longrightarrow> i < length as \<Longrightarrow> as ! i \<notin> set (take i as @ drop (Suc i) as)"
  by (auto simp: in_set_conv_nth nth_eq_iff_index_eq)

lemma list_all2_omit: "list_all2 P as vs \<Longrightarrow> list_all2 P (take i as @ drop (Suc i) as) (take i vs @ drop (Suc i) vs)"
  by (intro list_all2_appendI list_all2_takeI list_all2_dropI)

definition omitted :: "int \<Rightarrow> 'a list \<Rightarrow> 'a list" where
  "omitted i xs = (if 0 \<le> i \<and> nat i < length xs then take (nat i) xs @ drop (Suc (nat i)) xs else xs)"

lemma array_remove:
  assumes lib: "detach_laws lib" "delete_laws lib" and ok: "holder Array_content j p as vs w"
  shows "\<exists>w'. remove_index lib i j w = Some w' \<and> shown Array_content j p (omitted i as) (omitted i vs) w' \<and>
    sets w' = sets w"
proof -
  from ok obtain s where j: "refs_ptr j = Some s" "s < length (sets w)"
    "\<forall>m \<in> set (members (sets w ! s)). original m as w" unfolding holder_def by blast
  from ok have its: "items_of (heap w) p as" "content_at (heap w) p = Some Array_content" "p \<notin> set as"
    and vals: "list_all2 (\<lambda>a v. scalar_content v \<noteq> None \<and> content_at (heap w) a = scalar_content v) as vs"
    and refs: "\<forall>a \<in> set as. \<exists>n. get_node (heap w) a = Some n \<and> ntype n AND cJSON_IsReference \<noteq> 0 \<and> nkey n = None"
    unfolding holder_def by auto
  have ptr: "node_ptr j w = Some (Some p)" using holder_shown [OF ok] by (simp add: shown_def)
  have len: "length as = length vs" by (rule list_all2_lengthD [OF vals])
  from lib(1) its(1,3) obtain h where h: "cj_detach_index lib (Some p) i (heap w) =
      Some (if 0 \<le> i \<and> nat i < length as then Some (as ! nat i) else None, h)"
    "keeps_values (heap w) h" "items_of h p (omitted i as)"
    "0 \<le> i \<and> nat i < length as \<longrightarrow> (\<exists>n. get_node h (as ! nat i) = Some n \<and> nxt n = None)"
    unfolding detach_laws_def omitted_def by blast
  have kept: "content_at (heap w) b = Some c \<Longrightarrow> content_at h b = Some c" for b c using keeps_content h(2) by blast
  have vals1: "list_all2 (\<lambda>a v. scalar_content v \<noteq> None \<and> content_at h a = scalar_content v) as vs"
    using vals kept by (auto elim!: list_all2_mono)
  show ?thesis
  proof (cases "0 \<le> i \<and> nat i < length as")
    case False
    then have "remove_index lib i j w = Some (w\<lparr>heap := h\<rparr>)"
      using holder_type [OF ok] ptr h(1) by (auto simp: remove_index_def)
    moreover have "shown Array_content j p as vs (w\<lparr>heap := h\<rparr>)"
      using False ptr j(1,2) h(3) kept its(2) vals1 by (auto simp: shown_def node_ptr_def omitted_def)
    ultimately show ?thesis using False len by (auto simp: omitted_def)
  next
    case True
    let ?a = "as ! nat i"
    have a: "?a \<in> set as" using True by simp
    from refs a obtain m where m: "get_node (heap w) ?a = Some m" "ntype m AND cJSON_IsReference \<noteq> 0" "nkey m = None" by blast
    with h(2,4) True obtain n where n: "get_node h ?a = Some n" "nxt n = None" "ntype n AND cJSON_IsReference \<noteq> 0" "nkey n = None"
      unfolding keeps_values_def by (metis option.inject)
    from lib(2) n obtain h2 where h2: "cj_delete lib (Some ?a) h = Some h2" "\<forall>b. b \<noteq> ?a \<longrightarrow> get_node h2 b = get_node h b"
      "\<forall>t. get_text h2 t = get_text h t" unfolding delete_laws_def by (metis option.distinct(1))
    have "\<forall>m \<in> set (members (sets w ! s)). node_ptr (fst m) (w\<lparr>heap := h\<rparr>) \<noteq> Some (Some ?a)"
      using j(3) a by (auto simp: original_def node_ptr_def)
    then have "fst (erase_first (\<lambda>m. node_ptr (fst m) (w\<lparr>heap := h\<rparr>) = Some (Some ?a)) (members (sets w ! s))) = None"
      by (rule erase_first_none)
    then have "erase_member lib (\<lambda>w m. node_ptr (fst m) w = Some (Some ?a)) j (w\<lparr>heap := h\<rparr>) = Some (w\<lparr>heap := h\<rparr>)"
      using j(1) by (auto simp: erase_member_def split: prod.split)
    then have run: "remove_index lib i j w = Some (w\<lparr>heap := h2\<rparr>)"
      using holder_type [OF ok] ptr h(1) h2(1) True by (simp add: remove_index_def)
    have dist: "distinct as" using its(1) chain_distinct by (auto simp: items_of_def split: option.splits)
    have notin: "?a \<notin> set (omitted i as)" using take_drop_notin [OF dist] True by (simp add: omitted_def)
    have pa: "p \<noteq> ?a" using its(3) a by auto
    have "\<forall>b \<in> set (omitted i as). get_node h2 b = get_node h b" using h2(2) notin by metis
    then have "items_of h2 p (omitted i as)"
      using h(3) pa h2(2) chain_cong [of "omitted i as" h2 h] by (auto simp: items_of_def split: option.splits)
    moreover have same: "b \<noteq> ?a \<Longrightarrow> content_at h2 b = content_at h b" for b using content_cong h2(2,3) by blast
    moreover have "list_all2 (\<lambda>a v. scalar_content v \<noteq> None \<and> content_at h2 a = scalar_content v) (omitted i as) (omitted i vs)"
    proof (rule list.rel_mono_strong)
      show "list_all2 (\<lambda>a v. scalar_content v \<noteq> None \<and> content_at h a = scalar_content v) (omitted i as) (omitted i vs)"
        using list_all2_omit [OF vals1] vals1 len by (simp add: omitted_def)
    qed (use notin same in metis)
    ultimately have "shown Array_content j p (omitted i as) (omitted i vs) (w\<lparr>heap := h2\<rparr>)"
      using ptr j(1,2) kept [OF its(2)] pa by (auto simp: shown_def node_ptr_def)
    then show ?thesis using run by auto
  qed
qed

end
