(* ===== verification/Json_Assignment.thy ===== *)
theory Json_Assignment
  imports Json_Containers
begin

section \<open>Assignment and parsing of the JSON wrapper\<close>

text \<open>
  A variable that owns its value alone stays so when it is assigned: its node is replaced when the type changes,
  and the old one is deleted once. The same for the result of parsing.
\<close>

subsection \<open>Values of a type\<close>

text \<open>A fresh value of a type: the null value it starts from is deleted again.\<close>

lemma delete_plain:
  assumes "delete_laws lib" "get_node h a = Some n" "nxt n = None" "chl n = None" "nkey n = None"
  shows "\<exists>h'. cj_delete lib (Some a) h = Some h' \<and> (\<forall>b. b \<noteq> a \<longrightarrow> get_node h' b = get_node h b) \<and>
    (\<forall>t. vtext n \<noteq> Some t \<longrightarrow> get_text h' t = get_text h t)"
  using assms unfolding delete_laws_def by (metis option.distinct(1))

lemma content_kept:
  assumes "get_node h' a = get_node h a" "get_node h a = Some n" "\<And>t. vtext n = Some t \<Longrightarrow> get_text h' t = get_text h t"
  shows "content_at h' a = content_at h a"
proof -
  have "Option.bind (vtext n) (\<lambda>t. Option.bind (get_text h' t) (\<lambda>s. Some (Text_content s))) =
      Option.bind (vtext n) (\<lambda>t. Option.bind (get_text h t) (\<lambda>s. Some (Text_content s)))"
    using assms(3) by (cases "vtext n") auto
  then show ?thesis using assms(1,2) by (simp add: content_at_def content_of_node_def Let_def cong: if_cong)
qed

lemma creates_at:
  assumes "creates f c"
  obtains a h' n where "f h = (Some a, h')" "get_node h a = None" "content_at h' a = Some c" "get_node h' a = Some n"
    "separate h n" "(\<forall>s. c \<noteq> Text_content s) \<longrightarrow> vtext n = None" "keeps_nodes h h'"
  using assms unfolding creates_def by blast

lemma of_type_fresh:
  assumes lib: "creation_laws lib" "delete_laws lib" and f: "creator lib t = Some f" "creates f c"
  shows "\<exists>p n w'. json_of_type lib t w =
      Some (\<lparr>data_ptr = Some (Suc (length (datas w))), refs_ptr = Some (length (sets w))\<rparr>, w') \<and>
    sets w' = sets w @ [\<lparr>members = [], set_count = 1\<rparr>] \<and>
    length (datas w') = Suc (Suc (length (datas w))) \<and>
    (\<forall>i < length (datas w). datas w' ! i = datas w ! i) \<and>
    datas w' ! Suc (length (datas w)) = \<lparr>data_node = Some p, data_own = True, data_count = 1\<rparr> \<and>
    get_node (heap w) p = None \<and> get_node (heap w') p = Some n \<and> separate (heap w) n \<and>
    ((\<forall>s. c \<noteq> Text_content s) \<longrightarrow> vtext n = None) \<and>
    content_at (heap w') p = Some c \<and> keeps_nodes (heap w) (heap w')"
proof -
  from lib(1) have nul: "creates (cj_create_null lib) Null_content" by (simp add: creation_laws_def)
  obtain a h1 m where a: "cj_create_null lib (heap w) = (Some a, h1)" "get_node (heap w) a = None"
    "get_node h1 a = Some m" "separate (heap w) m" "vtext m = None" "keeps_nodes (heap w) h1"
    by (rule creates_at [OF nul, of "heap w"]) auto
  from creates_at [OF f(2), of h1] obtain p h2 n where p: "f h1 = (Some p, h2)" "get_node h1 p = None" "content_at h2 p = Some c"
    "get_node h2 p = Some n" "separate h1 n" "(\<forall>s. c \<noteq> Text_content s) \<longrightarrow> vtext n = None" "keeps_nodes h1 h2" by blast
  have m2: "get_node h2 a = Some m" using p(7) a(3) by (simp add: keeps_nodes_def)
  from delete_plain [OF lib(2) m2] a(4,5) obtain h3 where h3: "cj_delete lib (Some a) h2 = Some h3"
    "\<forall>b. b \<noteq> a \<longrightarrow> get_node h3 b = get_node h2 b" "\<forall>t. get_text h3 t = get_text h2 t"
    unfolding separate_def by auto
  have pa: "p \<noteq> a" using a(3) p(2) by auto
  have "separate (heap w) n" using p(5) a(6) unfolding separate_def keeps_nodes_def by (metis not_None_eq)
  moreover have "get_node (heap w) p = None" using p(2) a(6) unfolding keeps_nodes_def by (metis not_None_eq)
  moreover have "content_at h3 p = Some c" using content_cong [of h3 p h2] h3(2,3) pa p(3) by simp
  moreover have "keeps_nodes (heap w) h3"
    using a(2,6) p(7) h3(2,3) unfolding keeps_nodes_def by (metis option.distinct(1))
  ultimately show ?thesis using a(1) p(1,4,6) h3 pa f(1)
    by (simp add: json_of_type_def json_null_def create_def json_new_def new_data_def new_set_def reset_data_def
        jobs_of_def drop_data_def nth_append nth_list_update Let_def)
qed

subsection \<open>Assignment\<close>

text \<open>A value that no other object shares: its node is not in a list and has no items.\<close>

definition alone :: "json \<Rightarrow> content \<Rightarrow> jworld \<Rightarrow> bool" where
  "alone j c w \<longleftrightarrow>
     (\<exists>d p n. data_ptr j = Some d \<and> d < length (datas w) \<and>
        datas w ! d = \<lparr>data_node = Some p, data_own = True, data_count = 1\<rparr> \<and>
        (\<forall>s. refs_ptr j = Some s \<longrightarrow> s < length (sets w) \<and> members (sets w ! s) = []) \<and>
        get_node (heap w) p = Some n \<and> content_at (heap w) p = Some c \<and>
        ntype n AND cJSON_IsReference = 0 \<and> nxt n = None \<and> chl n = None \<and> nkey n = None \<and>
        (\<forall>t. vtext n = Some t \<longrightarrow> get_text (heap w) t \<noteq> None))"

lemma alone_type: "alone j c w \<Longrightarrow> json_type j w = Some (content_type c)"
  by (auto simp: alone_def node_ptr_def intro!: type_of_content)

lemma content_text_live:
  assumes "content_at h a = Some (Text_content s)" "get_node h a = Some n" "vtext n = Some t"
  shows "get_text h t \<noteq> None"
  using assms by (auto simp: content_at_def content_of_node_def Let_def split: if_splits bind_splits)

lemma made_text_live:
  assumes "content_at h a = Some c" "get_node h a = Some n" "(\<forall>s. c \<noteq> Text_content s) \<longrightarrow> vtext n = None" "vtext n = Some t"
  shows "get_text h t \<noteq> None"
  using assms content_text_live by (cases "\<exists>s. c = Text_content s") auto

lemma alone_construct:
  assumes "creation_laws lib" "scalar_content v = Some c"
  shows "\<exists>j w'. construct lib v w = Some (j, w') \<and> alone j c w'"
proof -
  from construct_scalar [OF assms] obtain f where f: "creates f c" "construct lib v w = Some (json_plain f w)" by blast
  obtain a h n where a: "f (heap w) = (Some a, h)" "content_at h a = Some c" "get_node h a = Some n"
    "separate (heap w) n" "(\<forall>s. c \<noteq> Text_content s) \<longrightarrow> vtext n = None"
    by (rule creates_at [OF f(1), of "heap w"]) blast
  then show ?thesis using f(2) made_text_live [OF a(2,3,5)]
    by (auto simp: json_plain_def create_def new_data_def alone_def separate_def)
qed

lemma release_alone:
  assumes "i < length (sets w)" "members (sets w ! i) = []"
  shows "\<exists>w'. release lib (Drop_set i # js) w = release lib js w' \<and> heap w' = heap w \<and> datas w' = datas w \<and>
    length (sets w') = length (sets w) \<and> (\<forall>s. s \<noteq> i \<longrightarrow> sets w' ! s = sets w ! s)"
  using assms by (auto simp: drop_set_def Let_def)

lemma destroy_alone:
  assumes lib: "delete_laws lib" and d: "data_ptr j = Some d" "datas w ! d = \<lparr>data_node = Some p, data_own = True, data_count = 1\<rparr>"
    and s: "\<forall>s. refs_ptr j = Some s \<longrightarrow> s < length (sets w) \<and> members (sets w ! s) = []"
    and n: "get_node (heap w) p = Some n" "nxt n = None" "chl n = None" "nkey n = None"
  shows "\<exists>w'. destroy lib j w = Some w' \<and> length (datas w') = length (datas w) \<and> length (sets w') = length (sets w) \<and>
    (\<forall>i. i \<noteq> d \<longrightarrow> datas w' ! i = datas w ! i) \<and> (\<forall>i. refs_ptr j \<noteq> Some i \<longrightarrow> sets w' ! i = sets w ! i) \<and>
    (\<forall>b. b \<noteq> p \<longrightarrow> get_node (heap w') b = get_node (heap w) b) \<and>
    (\<forall>t. vtext n \<noteq> Some t \<longrightarrow> get_text (heap w') t = get_text (heap w) t)"
proof -
  obtain w1 where w1: "destroy lib j w = release lib [Drop_data d] w1" "heap w1 = heap w" "datas w1 = datas w"
    "length (sets w1) = length (sets w)" "\<forall>i. refs_ptr j \<noteq> Some i \<longrightarrow> sets w1 ! i = sets w ! i"
  proof (cases "refs_ptr j")
    case (Some i)
    then show ?thesis using that release_alone [of i w lib "[Drop_data d]"] s d(1)
      by (auto simp: destroy_def jobs_of_def simp del: release.simps)
  qed (use that d(1) in \<open>simp add: destroy_def jobs_of_def del: release.simps\<close>)
  from delete_plain [OF lib n] obtain h where "cj_delete lib (Some p) (heap w) = Some h"
    "\<forall>b. b \<noteq> p \<longrightarrow> get_node h b = get_node (heap w) b" "\<forall>t. vtext n \<noteq> Some t \<longrightarrow> get_text h t = get_text (heap w) t" by blast
  then show ?thesis using w1 d(2) by (simp add: drop_data_def Let_def nth_list_update_neq)
qed

lemma alone_become:
  assumes lib: "creation_laws lib" "delete_laws lib" and ok: "alone j c w"
    and t: "creator lib t = Some f" "creates f c'" "content_type c' = t"
  shows "\<exists>j' w' c''. become lib t j w = Some (j', w') \<and> alone j' c'' w' \<and> content_type c'' = t"
proof (cases "content_type c = t")
  case True
  then show ?thesis using alone_type [OF ok] ok by (auto simp: become_def)
next
  case False
  from ok obtain d p n where j: "data_ptr j = Some d" "d < length (datas w)"
    "datas w ! d = \<lparr>data_node = Some p, data_own = True, data_count = 1\<rparr>"
    "\<forall>s. refs_ptr j = Some s \<longrightarrow> s < length (sets w) \<and> members (sets w ! s) = []"
    and n: "get_node (heap w) p = Some n" "nxt n = None" "chl n = None" "nkey n = None"
    "\<forall>t. vtext n = Some t \<longrightarrow> get_text (heap w) t \<noteq> None" unfolding alone_def by blast
  let ?j = "\<lparr>data_ptr = Some (Suc (length (datas w))), refs_ptr = Some (length (sets w))\<rparr>"
  obtain q m w1 where w1: "json_of_type lib t w = Some (?j, w1)"
    "sets w1 = sets w @ [\<lparr>members = [], set_count = 1\<rparr>]" "length (datas w1) = Suc (Suc (length (datas w)))"
    "\<forall>i < length (datas w). datas w1 ! i = datas w ! i"
    "datas w1 ! Suc (length (datas w)) = \<lparr>data_node = Some q, data_own = True, data_count = 1\<rparr>"
    "get_node (heap w) q = None" "get_node (heap w1) q = Some m" "separate (heap w) m"
    "(\<forall>s. c' \<noteq> Text_content s) \<longrightarrow> vtext m = None" "content_at (heap w1) q = Some c'" "keeps_nodes (heap w) (heap w1)"
    using of_type_fresh [OF lib t(1,2), of w] by blast
  have n1: "get_node (heap w1) p = Some n" using n(1) w1(11) by (simp add: keeps_nodes_def)
  have d1: "datas w1 ! d = \<lparr>data_node = Some p, data_own = True, data_count = 1\<rparr>" using w1(4) j(2,3) by simp
  have "\<forall>s. refs_ptr j = Some s \<longrightarrow> s < length (sets w1) \<and> members (sets w1 ! s) = []"
    using j(4) w1(2) by (auto simp: nth_append)
  from destroy_alone [OF lib(2) j(1) d1 this n1 n(2,3,4)] obtain w2 where w2: "destroy lib j w1 = Some w2"
    "length (datas w2) = length (datas w1)" "length (sets w2) = length (sets w1)" "\<forall>i. i \<noteq> d \<longrightarrow> datas w2 ! i = datas w1 ! i"
    "\<forall>i. refs_ptr j \<noteq> Some i \<longrightarrow> sets w2 ! i = sets w1 ! i" "\<forall>b. b \<noteq> p \<longrightarrow> get_node (heap w2) b = get_node (heap w1) b"
    "\<forall>t. vtext n \<noteq> Some t \<longrightarrow> get_text (heap w2) t = get_text (heap w1) t" by blast
  have qp: "q \<noteq> p" using n(1) w1(6) by auto
  have same: "vtext m = Some t \<Longrightarrow> get_text (heap w2) t = get_text (heap w1) t" for t
    using w1(8) n(5) w2(7) by (auto simp: separate_def)
  have q2: "get_node (heap w2) q = get_node (heap w1) q" using w2(6) qp by simp
  have c2: "content_at (heap w2) q = Some c'" using content_kept [OF q2 w1(7)] same w1(10) by simp
  have "refs_ptr j \<noteq> Some (length (sets w))" using j(4) by auto
  then have "sets w2 ! length (sets w) = \<lparr>members = [], set_count = 1\<rparr>" using w2(5) w1(2) by simp
  moreover have "datas w2 ! Suc (length (datas w)) = datas w1 ! Suc (length (datas w))" using w2(4) j(2) by simp
  moreover have "\<forall>t. vtext m = Some t \<longrightarrow> get_text (heap w2) t \<noteq> None"
    using made_text_live [OF w1(10,7,9)] same by auto
  ultimately have "alone ?j c' w2"
    using w1(2,3,5,7,8) w2(2,3) q2 c2 by (simp add: alone_def separate_def)
  moreover have "become lib t j w = Some (?j, w2)"
    using alone_type [OF ok] False w1(1) w2(1) by (simp add: become_def json_swap_def)
  ultimately show ?thesis using t(3) by blast
qed

text \<open>The overloads of the assignment for values, and a sequence of assignments to one variable.\<close>

fun assign_value :: "cjson_lib \<Rightarrow> jvalue \<Rightarrow> json \<Rightarrow> jworld \<Rightarrow> (json \<times> jworld) option" where
  "assign_value lib (Bool_value b) j w = assign_bool lib b j w"
| "assign_value lib (Double_value d) j w = assign_number lib d j w"
| "assign_value lib (Int_value i) j w = assign_number lib (double_of_int i) j w"
| "assign_value lib (Uint_value u) j w = assign_number lib (double_of_int (uint u)) j w"
| "assign_value lib (Text_value s) j w = assign_text lib s j w"
| "assign_value lib _ j w = None"

fun assign_all :: "cjson_lib \<Rightarrow> jvalue list \<Rightarrow> json \<Rightarrow> jworld \<Rightarrow> (json \<times> jworld) option" where
  "assign_all lib [] j w = Some (j, w)"
| "assign_all lib (v # vs) j w = do { (j, w) \<leftarrow> assign_value lib v j w; assign_all lib vs j w }"

lemma bool_type_bits:
  assumes "x AND 0xff = cJSON_False \<or> x AND 0xff = cJSON_True"
  shows "((x AND NOT (cJSON_False OR cJSON_True)) OR bool_bits b) AND 0xff = bool_bits b"
    "x AND cJSON_IsReference = 0 \<Longrightarrow>
      ((x AND NOT (cJSON_False OR cJSON_True)) OR bool_bits b) AND cJSON_IsReference = 0"
proof -
  have b: "bool_bits b AND 0xff = bool_bits b" "bool_bits b AND cJSON_IsReference = 0"
    by (simp_all add: bool_bits_def cJSON_types)
  have comm: "(x AND NOT (cJSON_False OR cJSON_True)) AND m = (x AND m) AND NOT (cJSON_False OR cJSON_True)" for m
    by (simp add: and.assoc and.commute and.left_commute)
  have "(x AND 0xff) AND NOT (cJSON_False OR cJSON_True) = 0"
    using assms by (auto simp: cJSON_types)
  then show "((x AND NOT (cJSON_False OR cJSON_True)) OR bool_bits b) AND 0xff = bool_bits b"
    using b(1) comm [of "0xff"] by (simp add: word_ao_dist)
  show "((x AND NOT (cJSON_False OR cJSON_True)) OR bool_bits b) AND cJSON_IsReference = 0"
    if "x AND cJSON_IsReference = 0" using that b(2) comm [of cJSON_IsReference] by (simp add: word_ao_dist)
qed

lemma content_bool_bits: "content_of_node h n = Some (Bool_content b) \<Longrightarrow> ntype n AND 0xff = bool_bits b"
  by (auto simp: content_of_node_def bool_bits_def Let_def split: if_splits bind_splits)

lemma put_node_same: "get_node h a = Some n \<Longrightarrow> get_node (put_node a n' h) a = Some n'"
  and put_node_text [simp]: "get_text (put_node a n' h) t = get_text h t"
  by (auto simp: get_node_def put_node_def get_text_def split: if_splits)

lemma alone_bool:
  assumes lib: "creation_laws lib" "delete_laws lib" and ok: "alone j c w"
  shows "\<exists>j' w'. assign_bool lib b j w = Some (j', w') \<and> alone j' (Bool_content b) w'"
proof -
  have "creates (cj_create_bool lib False) (Bool_content False)" using lib(1) by (simp add: creation_laws_def)
  from alone_become [OF lib ok _ this, of JBool] obtain j' w' c' where
    j: "become lib JBool j w = Some (j', w')" "alone j' c' w'" "content_type c' = JBool" by (auto simp: creator_def)
  then obtain b' where c': "c' = Bool_content b'" by (cases c') auto
  from j(2) obtain d p n where d: "data_ptr j' = Some d" "d < length (datas w')"
    "datas w' ! d = \<lparr>data_node = Some p, data_own = True, data_count = 1\<rparr>"
    "\<forall>s. refs_ptr j' = Some s \<longrightarrow> s < length (sets w') \<and> members (sets w' ! s) = []"
    and n: "get_node (heap w') p = Some n" "content_at (heap w') p = Some c'" "ntype n AND cJSON_IsReference = 0"
    "nxt n = None" "chl n = None" "nkey n = None" "\<forall>t. vtext n = Some t \<longrightarrow> get_text (heap w') t \<noteq> None"
    unfolding alone_def by blast
  have "ntype n AND 0xff = bool_bits b'" using n(1,2) c' content_bool_bits by (simp add: content_at_def)
  then have bits: "ntype n AND 0xff = cJSON_False \<or> ntype n AND 0xff = cJSON_True" by (simp add: bool_bits_def)
  let ?n = "n\<lparr>ntype := (ntype n AND NOT (cJSON_False OR cJSON_True)) OR bool_bits b\<rparr>"
  let ?w = "w'\<lparr>heap := put_node p ?n (heap w')\<rparr>"
  have "content_of_node h ?n = Some (Bool_content b)" for h
    using bool_type_bits(1) [OF bits, of b] by (simp add: content_of_node_def bool_bits_def cJSON_types)
  then have "content_at (heap ?w) p = Some (Bool_content b)" using put_node_same [OF n(1)] by (simp add: content_at_def)
  then have "alone j' (Bool_content b) ?w"
    using d n put_node_same [OF n(1), of ?n] bool_type_bits(2) [OF bits n(3), of b] by (simp add: alone_def)
  moreover have "assign_bool lib b j w = Some (j', ?w)"
    using j(1) d(1,3) n(1) by (simp add: assign_bool_def node_ptr_def)
  ultimately show ?thesis by blast
qed

lemma alone_set:
  assumes "alone j c w"
    and set: "\<And>p n. get_node (heap w) p = Some n \<Longrightarrow> content_at (heap w) p = Some c \<Longrightarrow>
      ntype n AND cJSON_IsReference = 0 \<Longrightarrow>
      \<exists>h' n'. f (Some p) (heap w) = Some h' \<and> get_node h' p = Some n' \<and> same_place n n' \<and> content_at h' p = Some c' \<and>
        ((\<exists>s. c' = Text_content s) \<or> vtext n' = vtext n \<and> texts h' = texts (heap w))"
  shows "\<exists>p h'. node_ptr j w = Some p \<and> f p (heap w) = Some h' \<and> alone j c' (w\<lparr>heap := h'\<rparr>)"
proof -
  from assms(1) obtain d p n where d: "data_ptr j = Some d" "d < length (datas w)"
    "datas w ! d = \<lparr>data_node = Some p, data_own = True, data_count = 1\<rparr>"
    "\<forall>s. refs_ptr j = Some s \<longrightarrow> s < length (sets w) \<and> members (sets w ! s) = []"
    and n: "get_node (heap w) p = Some n" "content_at (heap w) p = Some c" "ntype n AND cJSON_IsReference = 0"
    "nxt n = None" "chl n = None" "nkey n = None" "\<forall>t. vtext n = Some t \<longrightarrow> get_text (heap w) t \<noteq> None"
    unfolding alone_def by blast
  from set [OF n(1-3)] obtain h' n' where h': "f (Some p) (heap w) = Some h'" "get_node h' p = Some n'" "same_place n n'"
    "content_at h' p = Some c'" "(\<exists>s. c' = Text_content s) \<or> vtext n' = vtext n \<and> texts h' = texts (heap w)" by blast
  have "get_text h' t = get_text (heap w) t" if "texts h' = texts (heap w)" for t
    using that by (simp add: get_text_def)
  then have "vtext n' = Some t \<Longrightarrow> get_text h' t \<noteq> None" for t
    using h'(5) content_text_live [OF _ h'(2), of _ t] h'(4) n(7) by auto
  then have "alone j c' (w\<lparr>heap := h'\<rparr>)"
    using d n h' by (simp add: alone_def same_place_def)
  then show ?thesis using d h'(1) by (simp add: node_ptr_def)
qed

lemma alone_number:
  assumes lib: "creation_laws lib" "delete_laws lib" "set_laws lib" and ok: "alone j c w"
  shows "\<exists>j' w'. assign_number lib x j w = Some (j', w') \<and> alone j' (number_content x) w'"
proof -
  have "creates (cj_create_number lib (double_of_int 0)) (number_content (double_of_int 0))"
    using lib(1) by (simp add: creation_laws_def)
  from alone_become [OF lib(1,2) ok _ this, of JNumber] obtain j' w' c' where
    j: "become lib JNumber j w = Some (j', w')" "alone j' c' w'" "content_type c' = JNumber"
    by (auto simp: creator_def number_content_def)
  then obtain y i where c': "c' = Number_content y i" by (cases c') auto
  have "\<exists>h' n'. cj_set_number lib (Some p) x (heap w') = Some h' \<and> get_node h' p = Some n' \<and> same_place n n' \<and>
      content_at h' p = Some (number_content x) \<and>
      ((\<exists>s. number_content x = Text_content s) \<or> vtext n' = vtext n \<and> texts h' = texts (heap w'))"
    if "get_node (heap w') p = Some n" "content_at (heap w') p = Some c'" for p n
    using lib(3) that c' unfolding set_laws_def by blast
  then obtain p h where
    "node_ptr j' w' = Some p" "cj_set_number lib p x (heap w') = Some h" "alone j' (number_content x) (w'\<lparr>heap := h\<rparr>)"
    using alone_set [OF j(2), of "\<lambda>p. cj_set_number lib p x" "number_content x"] by blast
  then show ?thesis using j(1) by (auto simp: assign_number_def)
qed

lemma alone_text:
  assumes lib: "creation_laws lib" "delete_laws lib" "set_laws lib" and ok: "alone j c w"
  shows "\<exists>j' w'. assign_text lib s j w = Some (j', w') \<and> alone j' (Text_content (c_string s)) w'"
proof -
  have "creates (cj_create_string lib []) (Text_content [])" using lib(1) by (simp add: creation_laws_def)
  from alone_become [OF lib(1,2) ok _ this, of JString] obtain j' w' c' where
    j: "become lib JString j w = Some (j', w')" "alone j' c' w'" "content_type c' = JString" by (auto simp: creator_def)
  then obtain r where c': "c' = Text_content r" by (cases c') auto
  have "\<exists>h' n'. cj_set_text lib (Some p) (c_string s) (heap w') = Some h' \<and> get_node h' p = Some n' \<and> same_place n n' \<and>
      content_at h' p = Some (Text_content (c_string s)) \<and>
      ((\<exists>r. Text_content (c_string s) = Text_content r) \<or> vtext n' = vtext n \<and> texts h' = texts (heap w'))"
    if "get_node (heap w') p = Some n" "content_at (heap w') p = Some c'" "ntype n AND cJSON_IsReference = 0" for p n
    using lib(3) that c' unfolding set_laws_def by blast
  then obtain p h where
    "node_ptr j' w' = Some p" "cj_set_text lib p (c_string s) (heap w') = Some h"
    "alone j' (Text_content (c_string s)) (w'\<lparr>heap := h\<rparr>)"
    using alone_set [OF j(2), of "\<lambda>p. cj_set_text lib p (c_string s)" "Text_content (c_string s)"] by blast
  then show ?thesis using j(1) by (auto simp: assign_text_def)
qed

lemma alone_assign:
  assumes lib: "creation_laws lib" "delete_laws lib" "set_laws lib" and ok: "alone j c w" and v: "scalar_content v = Some c'"
  shows "\<exists>j' w'. assign_value lib v j w = Some (j', w') \<and> alone j' c' w'"
  using v alone_bool [OF lib(1,2) ok] alone_number [OF lib ok] alone_text [OF lib ok] by (cases v) auto

lemma alone_assign_all:
  assumes lib: "creation_laws lib" "delete_laws lib" "set_laws lib"
  shows "alone j c w \<Longrightarrow> scalar_content u = Some c \<Longrightarrow> \<forall>v \<in> set vs. scalar_content v \<noteq> None \<Longrightarrow>
    \<exists>j' w' c'. assign_all lib vs j w = Some (j', w') \<and> alone j' c' w' \<and> scalar_content (last (u # vs)) = Some c'"
proof (induction vs arbitrary: u j c w)
  case (Cons v vs)
  then obtain c1 where c1: "scalar_content v = Some c1" by auto
  from alone_assign [OF lib Cons.prems(1) c1] obtain j1 w1 where
    "assign_value lib v j w = Some (j1, w1)" "alone j1 c1 w1" by blast
  then show ?case using Cons.IH [of j1 c1 w1 v] c1 Cons.prems(3) by auto
qed auto

lemma alone_reads: "alone j c w \<Longrightarrow> scalar_content v = Some c \<Longrightarrow> reads_as v j w"
  by (auto simp: alone_def node_ptr_def intro!: reads_content)

subsection \<open>Parsing\<close>

lemma alone_keeps:
  assumes "alone j c w" "keeps_nodes (heap w) h"
  shows "alone j c (w\<lparr>heap := h\<rparr>)"
proof -
  have "content_at (heap w) p = Some c \<Longrightarrow> content_at h p = Some c" for p using keeps_content assms(2) by blast
  moreover have "get_text (heap w) t \<noteq> None \<Longrightarrow> get_text h t \<noteq> None" for t
    using assms(2) unfolding keeps_nodes_def by fastforce
  moreover have "get_node (heap w) p = Some n \<Longrightarrow> get_node h p = Some n" for p n
    using assms(2) unfolding keeps_nodes_def by blast
  ultimately show ?thesis using assms(1) unfolding alone_def by fastforce
qed

lemma clean_null:
  assumes lib: "creation_laws lib" "delete_laws lib" and ok: "alone j c w"
  shows "\<exists>j' w'. json_clean lib j w = Some (j', w') \<and> json_type j' w' = Some JNull"
proof -
  from ok obtain d p n where j: "data_ptr j = Some d" "d < length (datas w)"
    "datas w ! d = \<lparr>data_node = Some p, data_own = True, data_count = 1\<rparr>"
    "\<forall>s. refs_ptr j = Some s \<longrightarrow> s < length (sets w) \<and> members (sets w ! s) = []"
    and n: "get_node (heap w) p = Some n" "nxt n = None" "chl n = None" "nkey n = None" unfolding alone_def by blast
  from lib(1) have nul: "creates (cj_create_null lib) Null_content" by (simp add: creation_laws_def)
  obtain a h m where a: "cj_create_null lib (heap w) = (Some a, h)" "get_node (heap w) a = None"
    "content_at h a = Some Null_content" "get_node h a = Some m" "vtext m = None" "keeps_nodes (heap w) h"
    by (rule creates_at [OF nul, of "heap w"]) auto
  let ?j = "\<lparr>data_ptr = Some (length (datas w)), refs_ptr = Some (length (sets w))\<rparr>"
  obtain w1 where w1: "json_null lib w = (?j, w1)" "heap w1 = h"
    "datas w1 = datas w @ [\<lparr>data_node = Some a, data_own = True, data_count = 1\<rparr>]"
    "sets w1 = sets w @ [\<lparr>members = [], set_count = 1\<rparr>]"
    using a(1) that [of "w\<lparr>heap := h,
        datas := datas w @ [\<lparr>data_node = Some a, data_own = True, data_count = 1\<rparr>],
        sets := sets w @ [\<lparr>members = [], set_count = 1\<rparr>]\<rparr>"]
    by (simp add: json_null_def create_def json_new_def new_data_def new_set_def)
  have n1: "get_node (heap w1) p = Some n" using n(1) a(6) w1(2) by (simp add: keeps_nodes_def)
  have d1: "datas w1 ! d = \<lparr>data_node = Some p, data_own = True, data_count = 1\<rparr>" using w1(3) j(2,3) by (simp add: nth_append)
  have "\<forall>s. refs_ptr j = Some s \<longrightarrow> s < length (sets w1) \<and> members (sets w1 ! s) = []"
    using j(4) w1(4) by (auto simp: nth_append)
  from destroy_alone [OF lib(2) j(1) d1 this n1 n(2,3,4)] obtain w2 where w2: "destroy lib j w1 = Some w2"
    "\<forall>i. i \<noteq> d \<longrightarrow> datas w2 ! i = datas w1 ! i" "\<forall>b. b \<noteq> p \<longrightarrow> get_node (heap w2) b = get_node (heap w1) b" by blast
  have "a \<noteq> p" using n(1) a(2) by auto
  then have "content_at (heap w2) a = Some Null_content"
    using content_kept [of "heap w2" a h m] w2(3) w1(2) a(3,4,5) by simp
  moreover have "node_ptr ?j w2 = Some (Some a)" using w2(2) j(2) w1(3) by (simp add: node_ptr_def)
  ultimately have "json_type ?j w2 = Some JNull" using type_of_content [of ?j w2 a] by simp
  then show ?thesis using w1(1) w2(1) by (simp add: json_clean_def json_swap_def)
qed

lemma drop_set_empty:
  assumes "i < length (sets w)" "members (sets w ! i) = []"
  shows "release lib (Drop_set i # js) w =
    release lib js (w\<lparr>sets := (sets w)[i := \<lparr>members = [], set_count = set_count (sets w ! i) - 1\<rparr>]\<rparr>)"
proof -
  obtain c where "sets w ! i = \<lparr>members = [], set_count = c\<rparr>" using assms(2) by (cases "sets w ! i") auto
  then show ?thesis using assms(1) by (simp add: drop_set_def Let_def)
qed

text \<open>A variable of its own that is assigned a fresh value: the old node is deleted, the new one has one owner.\<close>

lemma assign_fresh:
  assumes lib: "delete_laws lib" and ok: "alone j c w" and new: "json_new (Some a) True w = (tmp, w1)"
  shows "\<exists>w2 w3 p n. json_assign lib tmp j w1 = Some (tmp, w2) \<and> destroy lib tmp w2 = Some w3 \<and>
    node_ptr tmp w3 = Some (Some a) \<and> refs_ptr tmp = Some (length (sets w)) \<and>
    members (sets w3 ! length (sets w)) = [] \<and> node_ptr j w = Some (Some p) \<and>
    get_node (heap w) p = Some n \<and>
    (\<forall>b. b \<noteq> p \<longrightarrow> get_node (heap w3) b = get_node (heap w) b) \<and>
    (\<forall>t. vtext n \<noteq> Some t \<longrightarrow> get_text (heap w3) t = get_text (heap w) t)"
proof -
  from ok obtain d p n where j: "data_ptr j = Some d" "d < length (datas w)"
    "datas w ! d = \<lparr>data_node = Some p, data_own = True, data_count = 1\<rparr>"
    "\<forall>s. refs_ptr j = Some s \<longrightarrow> s < length (sets w) \<and> members (sets w ! s) = []"
    and n: "get_node (heap w) p = Some n" "nxt n = None" "chl n = None" "nkey n = None"
    unfolding alone_def by blast
  let ?d = "length (datas w)" and ?s = "length (sets w)"
  have tmp: "tmp = \<lparr>data_ptr = Some ?d, refs_ptr = Some ?s\<rparr>"
    "w1 = w\<lparr>datas := datas w @ [\<lparr>data_node = Some a, data_own = True, data_count = 1\<rparr>],
       sets := sets w @ [\<lparr>members = [], set_count = 1\<rparr>]\<rparr>"
    using new by (auto simp: json_new_def new_data_def new_set_def)
  from delete_plain [OF lib n(1-4)] obtain h where h: "cj_delete lib (Some p) (heap w) = Some h"
    "\<forall>b. b \<noteq> p \<longrightarrow> get_node h b = get_node (heap w) b" "\<forall>t. vtext n \<noteq> Some t \<longrightarrow> get_text h t = get_text (heap w) t" by blast
  let ?wa = "w\<lparr>datas := (datas w)[d := \<lparr>data_node = Some p, data_own = True, data_count = 0\<rparr>] @
      [\<lparr>data_node = Some a, data_own = True, data_count = 2\<rparr>], heap := h, sets := sets w @ [\<lparr>members = [], set_count = 2\<rparr>]\<rparr>"
  have "json_assign lib tmp j w1 = map_option (Pair tmp) (release lib (jobs_of (j\<lparr>data_ptr := None\<rparr>)) ?wa)"
    using h(1) j(1,2,3) unfolding tmp
    by (simp add: json_assign_def share_data_def share_set_def jobs_of_def drop_data_def Let_def nth_append
        list_update_append map_option_bind_Some numeral_2_eq_2)
  moreover obtain ss where ss: "release lib (jobs_of (j\<lparr>data_ptr := None\<rparr>)) ?wa =
      Some (?wa\<lparr>sets := ss @ [\<lparr>members = [], set_count = 2\<rparr>]\<rparr>)" "length ss = ?s"
  proof (cases "refs_ptr j")
    case (Some i)
    then show ?thesis
      using that [of "(sets w)[i := \<lparr>members = [], set_count = set_count (sets w ! i) - 1\<rparr>]"]
        drop_set_empty [of i ?wa lib "[]"] j(4)
      by (simp add: jobs_of_def nth_append list_update_append)
  qed (use that [of "sets w"] in \<open>simp add: jobs_of_def\<close>)
  ultimately have asg: "json_assign lib tmp j w1 = Some (tmp, ?wa\<lparr>sets := ss @ [\<lparr>members = [], set_count = 2\<rparr>]\<rparr>)" by simp
  let ?w3 = "?wa\<lparr>sets := ss @ [\<lparr>members = [], set_count = 1\<rparr>],
      datas := (datas w)[d := \<lparr>data_node = Some p, data_own = True, data_count = 0\<rparr>] @
        [\<lparr>data_node = Some a, data_own = True, data_count = 1\<rparr>]\<rparr>"
  have "destroy lib tmp (?wa\<lparr>sets := ss @ [\<lparr>members = [], set_count = 2\<rparr>]\<rparr>) = Some ?w3"
    using ss(2) unfolding tmp
    by (simp add: destroy_def jobs_of_def drop_set_empty drop_data_def Let_def nth_append list_update_append
        del: release.simps(3))
  moreover have "node_ptr tmp ?w3 = Some (Some a)" unfolding tmp by (simp add: node_ptr_def nth_append)
  ultimately show ?thesis using asg h n(1) j(1,3) ss(2) unfolding tmp by (auto simp: nth_append node_ptr_def)
qed

lemma parse_null:
  assumes lib: "creation_laws lib" "delete_laws lib" and ok: "alone j c w"
    and p: "cj_parse lib (c_string s) (heap w) = (None, h)" "keeps_nodes (heap w) h"
  shows "\<exists>j' w'. json_parse lib s j w = Some (False, j', w') \<and> json_type j' w' = Some JNull"
  using clean_null [OF lib alone_keeps [OF ok p(2)]] p(1) by (auto simp: json_parse_def create_def)

lemma parse_value:
  assumes lib: "list_laws lib" "delete_laws lib" and ok: "alone j c w"
    and p: "cj_parse lib (c_string s) (heap w) = (Some a, h)" "keeps_nodes (heap w) h" "get_node (heap w) a = None"
    and n: "get_node h a = Some n" "content_at h a = Some c'" "\<forall>t. vtext n = Some t \<longrightarrow> get_text (heap w) t = None"
      "items_of h a as" "\<forall>b \<in> set as. get_node (heap w) b = None"
  shows "\<exists>j' w'. json_parse lib s j w = Some (True, j', w') \<and> json_type j' w' = Some (content_type c') \<and>
    json_size lib j' w' = Some (if c' = Array_content then int (length as) else 0)"
proof -
  let ?w = "w\<lparr>heap := h\<rparr>"
  obtain tmp w1 where tmp: "json_new (Some a) True ?w = (tmp, w1)" by fastforce
  from ok obtain d q m where q: "data_ptr j = Some d"
    "datas w ! d = \<lparr>data_node = Some q, data_own = True, data_count = 1\<rparr>" "get_node (heap w) q = Some m"
    "\<forall>t. vtext m = Some t \<longrightarrow> get_text (heap w) t \<noteq> None" unfolding alone_def by blast
  have ptr: "node_ptr j ?w = Some (Some q)" and m: "get_node h q = Some m"
    using q(1,2,3) p(2) by (simp_all add: node_ptr_def keeps_nodes_def)
  from assign_fresh [OF lib(2) alone_keeps [OF ok p(2)] tmp] ptr m obtain w2 w3 where
    w3: "json_assign lib tmp j w1 = Some (tmp, w2)" "destroy lib tmp w2 = Some w3" "node_ptr tmp w3 = Some (Some a)"
    "refs_ptr tmp = Some (length (sets w))" "members (sets w3 ! length (sets w)) = []"
    and same: "\<forall>b. b \<noteq> q \<longrightarrow> get_node (heap w3) b = get_node h b"
    "\<forall>t. vtext m \<noteq> Some t \<longrightarrow> get_text (heap w3) t = get_text h t" by auto
  have aq: "a \<noteq> q" using p(3) q(3) by auto
  have "q \<notin> set as" using n(5) q(3) by force
  then have "\<forall>b \<in> set as. get_node (heap w3) b = get_node h b" using same(1) by metis
  then have its: "items_of (heap w3) a as"
    using n(1,4) aq same(1) chain_cong [of as "heap w3" h] by (auto simp: items_of_def)
  have "content_at (heap w3) a = content_at h a"
    using content_kept [OF _ n(1), of "heap w3"] aq same n(3) q(4) by metis
  then have type: "json_type tmp w3 = Some (content_type c')" using type_of_content [OF w3(3)] n(2) by simp
  have "json_size lib tmp w3 = Some (if c' = Array_content then int (length as) else 0)"
    using type w3(3,4,5) item_law(2) [OF lib(1) its] by (cases c') (auto simp: json_size_def)
  then show ?thesis using type w3(1,2) tmp p(1) by (auto simp: json_parse_def create_def)
qed

end
