(* ===== verification/Json_Objects.thy ===== *)
theory Json_Objects
  imports Json_Assignment
begin

section \<open>Keys of the JSON wrapper\<close>

text \<open>Setting and finding the values of an object by their keys.\<close>

lemma key_laws:
  assumes "list_laws lib" "items_of h p as" "map (key_at h) as = map Some ks"
  shows "cj_object_item_cs lib (Some p) k h = Some (find (\<lambda>a. key_at h a = Some k) as)"
    "cj_has_item lib (Some p) k h = Some (lower k \<in> lower ` set ks)"
proof -
  have keys: "Some ` set ks = key_at h ` set as" using assms(3) by (metis set_map)
  then have "\<forall>a \<in> set as. key_at h a \<noteq> None" by blast
  with assms(1,2) have law: "cj_object_item_cs lib (Some p) k h = Some (find (\<lambda>a. key_at h a = Some k) as)"
    "cj_has_item lib (Some p) k h = Some (find (same_key h k) as \<noteq> None)"
    unfolding list_laws_def by blast+
  have "find (same_key h k) as \<noteq> None \<longleftrightarrow> Some (lower k) \<in> map_option lower ` key_at h ` set as"
    unfolding find_None_iff same_key_def image_image image_iff by metis
  also have "map_option lower ` key_at h ` set as = Some ` lower ` set ks"
    unfolding keys [symmetric] by (simp add: image_image)
  finally show "cj_has_item lib (Some p) k h = Some (lower k \<in> lower ` set ks)" using law(2) by auto
  show "cj_object_item_cs lib (Some p) k h = Some (find (\<lambda>a. key_at h a = Some k) as)" by (rule law(1))
qed

lemma kept_keys:
  assumes "keeps_values h h'" "map (key_at h) as = map Some ks"
  shows "map (key_at h') as = map Some ks"
  using assms(2)
proof (induction as arbitrary: ks)
  case (Cons a as)
  then show ?case using keeps_key [OF assms(1)] by (cases ks) auto
qed simp

lemma find_last:
  assumes "map (key_at h) as = map Some ks" "k \<notin> set ks" "key_at h a = Some k"
  shows "find (\<lambda>a. key_at h a = Some k) (as @ [a]) = Some a"
proof -
  have "Some ` set ks = key_at h ` set as" using assms(1) by (metis set_map)
  then have "\<forall>b \<in> set as. key_at h b \<noteq> Some k" using assms(2) by (metis imageE imageI option.inject)
  then have "find (\<lambda>a. key_at h a = Some k) as = None" by (auto simp: find_None_iff)
  then show ?thesis using assms(3) by (induction as) (auto split: if_splits)
qed

lemma object_set:
  assumes lib: "creation_laws lib" "list_laws lib" "append_laws lib"
    and ok: "holder Object_content j p as vs w" "map (key_at (heap w)) as = map Some ks"
    and k: "lower k \<notin> lower ` set ks" and v: "scalar_content v = Some c"
  shows "\<exists>a w'. json_set lib k v j w = Some w' \<and> holder Object_content j p (as @ [a]) (vs @ [v]) w' \<and>
    map (key_at (heap w')) (as @ [a]) = map Some (ks @ [k])"
proof -
  from ok(1) have its: "items_of (heap w) p as" "p \<notin> set as" and ptr: "node_ptr j w = Some (Some p)"
    using holder_shown [OF ok(1)] by (auto simp: holder_def shown_def)
  have "\<exists>a h'. cj_add_ref_object lib (Some p) k (Some q) h = Some h' \<and> appends h h' p as q a \<and> key_at h' a = Some k"
    if "items_of h p as" "get_node h q \<noteq> None" "p \<noteq> q" for h q
    using lib(3) that its(2) unfolding append_laws_def by metis
  from holder_add [OF lib(1) ok(1) v, of "\<lambda>q. cj_add_ref_object lib (Some p) k (Some q)"
      "\<lambda>h' a. key_at h' a = Some k", OF this]
  obtain x q w1 a h' w2 where w: "construct lib v w = Some (x, w1)" "node_ptr j w1 = Some (Some p)"
    "node_ptr x w1 = Some (Some q)" "keeps_nodes (heap w) (heap w1)"
    "cj_add_ref_object lib (Some p) k (Some q) (heap w1) = Some h'" "appends (heap w1) h' p as q a"
    "key_at h' a = Some k" "add_member lib j (x, Some a) (w1\<lparr>heap := h'\<rparr>) = Some w2" "heap w2 = h'"
    "holder Object_content j p (as @ [a]) (vs @ [v]) w2" by auto
  have keys: "map (key_at h') as = map Some ks"
    using kept_keys [OF _ ok(2)] keeps_values_trans [OF keeps_nodes_values [OF w(4)]] w(6)
    by (auto simp: appends_def)
  have "k \<notin> set ks" using k by auto
  from find_last [OF keys this w(7)] have "cj_object_item_cs lib (Some p) k h' = Some (Some a)"
    using key_laws(1) [OF lib(2), of h' p "as @ [a]" "ks @ [k]" k] w(6,7) keys by (simp add: appends_def)
  then have "link_key lib k j x w1 = Some w2" using w by (simp add: link_key_def)
  moreover have "json_has lib k j w = Some False"
    using holder_type [OF ok(1)] ptr key_laws(2) [OF lib(2) its(1) ok(2)] k by (simp add: json_has_def)
  ultimately have "json_set lib k v j w = Some w2" using holder_type [OF ok(1)] w(1) by (simp add: json_set_def)
  then show ?thesis using w(7,9,10) keys by auto
qed

fun set_all :: "cjson_lib \<Rightarrow> (string \<times> jvalue) list \<Rightarrow> json \<Rightarrow> jworld \<Rightarrow> jworld option" where
  "set_all lib [] j w = Some w"
| "set_all lib ((k, v) # kvs) j w = do { w \<leftarrow> json_set lib k v j w; set_all lib kvs j w }"

lemma object_set_all:
  assumes lib: "creation_laws lib" "list_laws lib" "append_laws lib"
  shows "holder Object_content j p as us w \<Longrightarrow> map (key_at (heap w)) as = map Some ks \<Longrightarrow>
    distinct (map lower (ks @ map fst kvs)) \<Longrightarrow> \<forall>v \<in> set (map snd kvs). scalar_content v \<noteq> None \<Longrightarrow>
    \<exists>as' w'. set_all lib kvs j w = Some w' \<and> holder Object_content j p as' (us @ map snd kvs) w' \<and>
      map (key_at (heap w')) as' = map Some (ks @ map fst kvs)"
proof (induction kvs arbitrary: as us ks w)
  case (Cons kv kvs)
  obtain k v where kv: "kv = (k, v)" by fastforce
  then obtain c where c: "scalar_content v = Some c" using Cons.prems(4) by auto
  have "lower k \<notin> lower ` set ks" using Cons.prems(3) kv by auto
  from object_set [OF lib Cons.prems(1,2) this c] obtain a w1 where
    "json_set lib k v j w = Some w1" "holder Object_content j p (as @ [a]) (us @ [v]) w1"
    "map (key_at (heap w1)) (as @ [a]) = map Some (ks @ [k])" by blast
  then show ?case using Cons.IH [of "as @ [a]" "us @ [v]" w1 "ks @ [k]"] Cons.prems(3,4) kv by auto
qed auto

lemma find_key:
  assumes "map (key_at h) as = map Some ks" "distinct ks" "length vs = length ks"
  shows "case map_of (zip ks vs) k of
      None \<Rightarrow> find (\<lambda>a. key_at h a = Some k) as = None
    | Some v \<Rightarrow> \<exists>i < length as. find (\<lambda>a. key_at h a = Some k) as = Some (as ! i) \<and> vs ! i = v"
  using assms
proof (induction as arbitrary: ks vs)
  case (Cons a as)
  then obtain k' ks' v' vs' where c: "ks = k' # ks'" "vs = v' # vs'" "key_at h a = Some k'"
    by (cases ks; cases vs) auto
  with Cons.IH [of ks' vs'] Cons.prems have "case map_of (zip ks' vs') k of
      None \<Rightarrow> find (\<lambda>a. key_at h a = Some k) as = None
    | Some v \<Rightarrow> \<exists>i < length as. find (\<lambda>a. key_at h a = Some k) as = Some (as ! i) \<and> vs' ! i = v" by simp
  then show ?case using c by (cases "k' = k") (force split: option.splits)+
qed simp

end
