(* ===== verification/Json_Properties.thy ===== *)
theory Json_Properties
  imports Json_Objects Json_Example
begin

section \<open>What the JSON wrapper does\<close>

text \<open>
  The properties of the wrapper. The behaviour of cJSON is their hypothesis; in the witnesses it is given by the
  functions of \<open>Json_Example\<close>.
\<close>

definition example_world :: jworld where
  "example_world = \<lparr>heap = \<lparr>nodes = [], texts = []\<rparr>, datas = [], sets = []\<rparr>"

text \<open>
  C35: An array made from a container of numbers, truth values and texts has its size, reading the element at
  an index gives the value that was put in (an unsigned number above the range of \<^verbatim>\<open>int\<close> comes back as its
  greatest number), and an index outside gives null. The behaviour of cJSON is the hypothesis.
\<close>

theorem json_array_roundtrip:
  assumes "creation_laws lib" "list_laws lib" "append_laws lib" "\<forall>v \<in> set vs. scalar_content v \<noteq> None"
  shows "\<exists>j w1. construct lib (List_value vs) w = Some (j, w1) \<and> json_type j w1 = Some JArray \<and>
    json_size lib j w1 = Some (int (length vs)) \<and>
    (\<forall>i. \<exists>x w2. at_index lib i j w1 = Some (x, w2) \<and>
       (if 0 \<le> i \<and> nat i < length vs then reads_as (vs ! nat i) x w2 else json_type x w2 = Some JNull))"
proof -
  from construct_list [OF assms] obtain j p as w1 where
    "construct lib (List_value vs) w = Some (j, w1)" "holder Array_content j p as vs w1" by blast
  then show ?thesis using array_reads [OF assms(1,2) holder_shown] by blast
qed

theorem json_array_roundtrip_witness:
  "\<exists>j w1. construct example_lib (List_value [Int_value 1, Text_value ''test'', Bool_value True]) example_world = Some (j, w1) \<and>
     json_size example_lib j w1 = Some 3 \<and>
     (\<exists>x w2. at_index example_lib 1 j w1 = Some (x, w2) \<and> reads_as (Text_value ''test'') x w2)"
proof -
  let ?vs = "[Int_value 1, Text_value ''test'', Bool_value True]"
  have "\<forall>v \<in> set ?vs. scalar_content v \<noteq> None" by simp
  from json_array_roundtrip [OF example_creation example_lists example_append this, of example_world]
  obtain j w1 where j: "construct example_lib (List_value ?vs) example_world = Some (j, w1)"
    "json_size example_lib j w1 = Some (int (length ?vs))"
    "\<And>i. \<exists>x w2. at_index example_lib i j w1 = Some (x, w2) \<and>
      (if 0 \<le> i \<and> nat i < length ?vs then reads_as (?vs ! nat i) x w2 else json_type x w2 = Some JNull)" by blast
  show ?thesis using j(1,2) j(3) [of 1] by auto
qed

text \<open>
  C36: An object that gets values for keys, no two of them the same up to case, has that many elements; the key
  of a value gives that value and any other key null; a key is found by \<^verbatim>\<open>has\<close> in any case of its letters.
\<close>

theorem json_object_lookup:
  assumes "creation_laws lib" "list_laws lib" "append_laws lib" "delete_laws lib"
    and "distinct (map lower (map fst kvs))" "\<forall>v \<in> set (map snd kvs). scalar_content v \<noteq> None"
  shows "\<exists>j w0 w1. json_of_type lib JObject w = Some (j, w0) \<and> set_all lib kvs j w0 = Some w1 \<and>
    json_size lib j w1 = Some (int (length kvs)) \<and>
    (\<forall>k. json_has lib k j w1 = Some (lower k \<in> lower ` set (map fst kvs))) \<and>
    (\<forall>k. \<exists>x w2. at_key lib k j w1 = Some (x, w2) \<and>
       (case map_of kvs k of None \<Rightarrow> json_type x w2 = Some JNull | Some v \<Rightarrow> reads_as v x w2))"
proof -
  let ?j = "\<lparr>data_ptr = Some (Suc (length (datas w))), refs_ptr = Some (length (sets w))\<rparr>"
  have "creator lib JObject = Some (cj_create_object lib)" "creates (cj_create_object lib) Object_content"
    using assms(1) by (simp_all add: creator_def creation_laws_def)
  from of_type_fresh [OF assms(1,4) this, of w] obtain p n w0 where
    j: "json_of_type lib JObject w = Some (?j, w0)" "sets w0 = sets w @ [\<lparr>members = [], set_count = 1\<rparr>]"
    "length (datas w0) = Suc (Suc (length (datas w)))"
    "datas w0 ! Suc (length (datas w)) = \<lparr>data_node = Some p, data_own = True, data_count = 1\<rparr>"
    "get_node (heap w0) p = Some n" "separate (heap w) n" "content_at (heap w0) p = Some Object_content" by auto
  have "holder Object_content ?j p [] [] w0"
    using j by (auto simp: holder_def items_of_def separate_def)
  from object_set_all [OF assms(1,2,3) this, of "[]" kvs] assms(5,6) obtain as w1 where
    w1: "set_all lib kvs ?j w0 = Some w1" "holder Object_content ?j p as (map snd kvs) w1"
    "map (key_at (heap w1)) as = map Some (map fst kvs)" by auto
  note sh = holder_shown [OF w1(2)]
  then have ptr: "node_ptr ?j w1 = Some (Some p)" and its: "items_of (heap w1) p as" by (auto simp: shown_def)
  have type: "json_type ?j w1 = Some JObject" using shown_type [OF sh] by simp
  note keys = key_laws [OF assms(2) its w1(3)]
  have "json_size lib ?j w1 = Some (int (length kvs))"
    using type w1(2) holder_shown [OF w1(2)] shown_length [OF sh] by (auto simp: json_size_def holder_def)
  moreover have "json_has lib k ?j w1 = Some (lower k \<in> lower ` set (map fst kvs))" for k
    using type ptr keys(2) by (simp add: json_has_def)
  moreover have "\<exists>x w2. at_key lib k ?j w1 = Some (x, w2) \<and>
      (case map_of kvs k of None \<Rightarrow> json_type x w2 = Some JNull | Some v \<Rightarrow> reads_as v x w2)" for k
  proof -
    have "distinct (map fst kvs)" using assms(5) distinct_map [of lower "map fst kvs"] by blast
    from find_key [OF w1(3) this, of "map snd kvs" k]
    have find: "case map_of kvs k of
        None \<Rightarrow> find (\<lambda>a. key_at (heap w1) a = Some k) as = None
      | Some v \<Rightarrow> \<exists>i < length as. find (\<lambda>a. key_at (heap w1) a = Some k) as = Some (as ! i) \<and> map snd kvs ! i = v"
      by (simp add: zip_map_fst_snd)
    show ?thesis
    proof (cases "map_of kvs k")
      case None
      then show ?thesis using find null_type [OF assms(1), of w1] type ptr keys(1) by (auto simp: at_key_def)
    next
      case (Some v)
      with find obtain i where i: "i < length as" "find (\<lambda>a. key_at (heap w1) a = Some k) as = Some (as ! i)"
        "map snd kvs ! i = v" by auto
      then show ?thesis using Some shown_points [OF sh, of i] shown_length [OF sh] type ptr keys(1)
        by (auto simp: at_key_def)
    qed
  qed
  ultimately show ?thesis using j(1) w1(1) by blast
qed

theorem json_object_lookup_witness:
  "\<exists>j w0 w1. json_of_type example_lib JObject example_world = Some (j, w0) \<and>
     set_all example_lib [(''a'', Bool_value True), (''b'', Int_value 1)] j w0 = Some w1 \<and>
     json_size example_lib j w1 = Some 2 \<and> json_has example_lib ''A'' j w1 = Some True \<and>
     (\<exists>x w2. at_key example_lib ''A'' j w1 = Some (x, w2) \<and> json_type x w2 = Some JNull)"
proof -
  let ?kvs = "[(''a'', Bool_value True), (''b'', Int_value 1)]"
  have d: "distinct (map lower (map fst ?kvs))" and v: "\<forall>v \<in> set (map snd ?kvs). scalar_content v \<noteq> None"
    by (simp_all add: lower_def)
  from json_object_lookup [OF example_creation example_lists example_append example_delete d v, of example_world]
  obtain j w0 w1 where j: "json_of_type example_lib JObject example_world = Some (j, w0)"
    "set_all example_lib ?kvs j w0 = Some w1" "json_size example_lib j w1 = Some (int (length ?kvs))"
    "\<And>k. json_has example_lib k j w1 = Some (lower k \<in> lower ` set (map fst ?kvs))"
    "\<And>k. \<exists>x w2. at_key example_lib k j w1 = Some (x, w2) \<and>
      (case map_of ?kvs k of None \<Rightarrow> json_type x w2 = Some JNull | Some v \<Rightarrow> reads_as v x w2)" by blast
  have "lower ''A'' = ''a''" by code_simp
  then have "lower ''A'' \<in> lower ` set (map fst ?kvs)" by (simp add: lower_def)
  then show ?thesis using j(1-3) j(4) [of "''A''"] j(5) [of "''A''"] by auto
qed



text \<open>
  Removing an element by its index: the size and the elements are those of the container without it, and
  with an index outside nothing is removed. But the original of the element stays in \<^verbatim>\<open>refs_\<close>: the set has as
  many members as before, since its nodes are compared with the detached reference.
\<close>

theorem json_array_remove:
  assumes "creation_laws lib" "list_laws lib" "append_laws lib" "detach_laws lib" "delete_laws lib"
    and "\<forall>v \<in> set vs. scalar_content v \<noteq> None"
  shows "\<exists>j s w1 w2. construct lib (List_value vs) w = Some (j, w1) \<and> remove_index lib i j w1 = Some w2 \<and>
    json_size lib j w2 = Some (int (length (omitted i vs))) \<and>
    (\<forall>k. \<exists>x w3. at_index lib k j w2 = Some (x, w3) \<and>
       (if 0 \<le> k \<and> nat k < length (omitted i vs) then reads_as (omitted i vs ! nat k) x w3
        else json_type x w3 = Some JNull)) \<and>
    refs_ptr j = Some s \<and> length (members (sets w2 ! s)) = length vs"
proof -
  from construct_list [OF assms(1,2,3,6)] obtain j p as w1 where
    j: "construct lib (List_value vs) w = Some (j, w1)" "holder Array_content j p as vs w1" by blast
  from array_remove [OF assms(4,5) j(2)] obtain w2 where
    w2: "remove_index lib i j w1 = Some w2" "shown Array_content j p (omitted i as) (omitted i vs) w2" "sets w2 = sets w1" by blast
  from j(2) obtain s where "refs_ptr j = Some s" "length (members (sets w1 ! s)) = length vs"
    unfolding holder_def by (auto dest: list_all2_lengthD)
  then show ?thesis using j(1) w2 array_reads [OF assms(1,2) w2(2)] by auto
qed

theorem json_array_remove_witness:
  "\<exists>j s w1 w2. construct example_lib (List_value [Int_value 1, Text_value ''test'']) example_world = Some (j, w1) \<and>
     remove_index example_lib 1 j w1 = Some w2 \<and> json_size example_lib j w2 = Some 1 \<and>
     refs_ptr j = Some s \<and> length (members (sets w2 ! s)) = 2"
proof -
  let ?vs = "[Int_value 1, Text_value ''test'']"
  have "\<forall>v \<in> set ?vs. scalar_content v \<noteq> None" by simp
  from json_array_remove [OF example_creation example_lists example_append example_detach example_delete this,
      of example_world 1]
  obtain j s w1 w2 where j: "construct example_lib (List_value ?vs) example_world = Some (j, w1)"
    "remove_index example_lib 1 j w1 = Some w2" "json_size example_lib j w2 = Some (int (length (omitted 1 ?vs)))"
    "refs_ptr j = Some s" "length (members (sets w2 ! s)) = length ?vs" by blast
  then show ?thesis by (auto simp: omitted_def)
qed

text \<open>
  Parsing a text into a variable that owns a value. When cJSON refuses the text the variable becomes null
  and the answer is false. Otherwise it has the type of the parsed text and, for an array, the number of its
  items; but an object of the parser always has the size 0, whatever items it has.
\<close>

theorem json_parse_result:
  assumes "creation_laws lib" "list_laws lib" "delete_laws lib" "parse_laws lib" "scalar_content v \<noteq> None"
  shows "\<exists>j w1 j' w'. construct lib v w = Some (j, w1) \<and>
    (case cj_parse lib (c_string s) (heap w1) of
       (None, h) \<Rightarrow> json_parse lib s j w1 = Some (False, j', w') \<and> json_type j' w' = Some JNull
     | (Some a, h) \<Rightarrow> \<exists>c as. content_at h a = Some c \<and> items_of h a as \<and>
         json_parse lib s j w1 = Some (True, j', w') \<and> json_type j' w' = Some (content_type c) \<and>
         json_size lib j' w' = Some (if c = Array_content then int (length as) else 0))"
proof -
  from assms(5) obtain c where c: "scalar_content v = Some c" by auto
  obtain j w1 where j: "construct lib v w = Some (j, w1)" "alone j c w1" using alone_construct [OF assms(1) c] by blast
  obtain p h where p: "cj_parse lib (c_string s) (heap w1) = (p, h)" by fastforce
  have law: "parsed (heap w1) p h" using assms(4) p unfolding parse_laws_def by (metis fst_conv snd_conv)
  show ?thesis
  proof (cases p)
    case None
    then have "keeps_nodes (heap w1) h" using law by (simp add: parsed_def)
    from parse_null [OF assms(1,3) j(2) _ this, of s] p None obtain j' w' where
      "json_parse lib s j w1 = Some (False, j', w')" "json_type j' w' = Some JNull" by blast
    then show ?thesis using p None j(1) by (intro exI [of _ j] exI [of _ w1] exI [of _ j'] exI [of _ w']) simp
  next
    case (Some a)
    with law obtain n c' as where n: "keeps_nodes (heap w1) h" "get_node (heap w1) a = None" "get_node h a = Some n"
      "content_at h a = Some c'" "\<forall>t. vtext n = Some t \<longrightarrow> get_text (heap w1) t = None" "items_of h a as"
      "\<forall>b \<in> set as. get_node (heap w1) b = None" by (auto simp: parsed_def)
    from parse_value [OF assms(2,3) j(2) _ n, of s] p Some obtain j' w' where
      "json_parse lib s j w1 = Some (True, j', w')" "json_type j' w' = Some (content_type c')"
      "json_size lib j' w' = Some (if c' = Array_content then int (length as) else 0)" by blast
    then show ?thesis using p Some j(1) n(4,6)
      by (intro exI [of _ j] exI [of _ w1] exI [of _ j'] exI [of _ w']) auto
  qed
qed

theorem json_parse_result_witness:
  "\<exists>j w1 j' w'. construct example_lib (Int_value 5) example_world = Some (j, w1) \<and>
     json_parse example_lib ''{\"a\":true}'' j w1 = Some (True, j', w') \<and> json_type j' w' = Some JObject \<and>
     json_size example_lib j' w' = Some 0"
proof -
  have s: "c_string ''{\"a\":true}'' = ''{\"a\":true}''" by (simp add: c_string_def)
  have lib: "cj_parse example_lib = ex_parse" by (simp add: example_lib_def)
  from json_parse_result [OF example_creation example_lists example_delete example_parse, of "Int_value 5" example_world
      "''{\"a\":true}''"]
  obtain j w1 j' w' where j: "construct example_lib (Int_value 5) example_world = Some (j, w1)"
    "case ex_parse ''{\"a\":true}'' (heap w1) of
       (None, h) \<Rightarrow> json_parse example_lib ''{\"a\":true}'' j w1 = Some (False, j', w') \<and> json_type j' w' = Some JNull
     | (Some a, h) \<Rightarrow> \<exists>c as. content_at h a = Some c \<and> items_of h a as \<and>
         json_parse example_lib ''{\"a\":true}'' j w1 = Some (True, j', w') \<and> json_type j' w' = Some (content_type c) \<and>
         json_size example_lib j' w' = Some (if c = Array_content then int (length as) else 0)"
    unfolding s lib by auto
  obtain a h where "ex_parse ''{\"a\":true}'' (heap w1) = (Some a, h)" "content_at h a = Some Object_content"
    using ex_parse_object [of "heap w1"] by blast
  then show ?thesis using j by auto
qed

end
