(* ===== verification/Small_Programs.thy ===== *)
theory Small_Programs
  imports Prelude
begin

section \<open>Small programs\<close>

text \<open>
  The programs \<^verbatim>\<open>pipe_filter/filter.cpp\<close>, \<^verbatim>\<open>random/random.cpp\<close>, \<^verbatim>\<open>subprocess_io/popen.cpp\<close>,
  \<^verbatim>\<open>shared_lib\<close> and \<^verbatim>\<open>cmake_project_template\<close>. What files, commands and the dynamic linker deliver is an argument;
  the result is what a program prints, with its exit status where that is not always zero.
\<close>

lemma c_string_all: "CHR 0x00 \<notin> set s \<Longrightarrow> c_string s = s"
  unfolding c_string_def by (induction s) auto

subsection \<open>The filter\<close>

definition filter_main :: "string \<Rightarrow> string list" where
  "filter_main input = map (\<lambda>line. ''<'' @ c_string line @ ''>'') (getline_items CHR 0x0A input)"

lemma filter_lines:
  assumes "\<forall>l \<in> set ls. CHR 0x0A \<notin> set l \<and> CHR 0x00 \<notin> set l"
  shows "filter_main (concat (map (\<lambda>l. l @ [CHR 0x0A]) ls)) = map (\<lambda>l. ''<'' @ l @ ''>'') ls"
  using assms
proof (induction ls)
  case (Cons l ls)
  then have "c_string l = l" by (simp add: c_string_all)
  moreover have "getline_items CHR 0x0A (l @ CHR 0x0A # s) = l # getline_items CHR 0x0A s" for s
    using Cons.prems by (intro getline_items_delim) simp
  ultimately show ?case using Cons by (simp add: filter_main_def)
qed (simp add: filter_main_def)

subsection \<open>Random data\<close>

text \<open>The descriptor of \<^verbatim>\<open>open\<close>, and what \<^verbatim>\<open>read\<close> delivers, at most the size; none when it fails.\<close>

definition get_random_data :: "bool \<Rightarrow> nat \<Rightarrow> int \<Rightarrow> u8 list option \<Rightarrow> bool \<times> u8 list" where
  "get_random_data null n fd answer =
     (if null \<or> n = 0 then (False, [])
      else if fd = -1 then (False, [])
      else case answer of None \<Rightarrow> (False, []) | Some bs \<Rightarrow> (length bs = n, bs))"

definition upper_digit :: "nat \<Rightarrow> char" where
  "upper_digit d = ''0123456789ABCDEF'' ! d"

text \<open>\<^verbatim>\<open>%08X\<close>, and the number whose bytes were read, the lowest first.\<close>

definition hex8 :: "u32 \<Rightarrow> string" where
  "hex8 u = map (\<lambda>i. upper_digit (unat (drop_bit (4 * i) u AND 0xF))) [7, 6, 5, 4, 3, 2, 1, 0]"

fun little_endian :: "u8 list \<Rightarrow> u32" where
  "little_endian [] = 0"
| "little_endian (b # bs) = ucast b OR push_bit 8 (little_endian bs)"

definition random_main :: "int \<Rightarrow> u8 list option \<Rightarrow> string" where
  "random_main fd answer =
     (case get_random_data False 4 fd answer of
        (True, bs) \<Rightarrow> hex8 (little_endian bs)
      | (False, bs) \<Rightarrow> ''Failed to generate random data'')"

lemma random_main_example: "random_main 3 (Some [0xEF, 0xBE, 0x0D, 0x1]) = ''010DBEEF''"
  by (simp add: random_main_def get_random_data_def hex8_def upper_digit_def)

subsection \<open>The output of a command\<close>

fun popen_cmd :: "string list \<Rightarrow> string" where
  "popen_cmd [] = []"
| "popen_cmd [a] = a"
| "popen_cmd (a # b # as) = a @ '' '' @ popen_cmd (b # as)"

text \<open>
  The loop over \<^verbatim>\<open>fread\<close>, which delivers as much as the buffer takes or all that is left, and then marks the end. The
  command's output has ended when the mark is set.
\<close>

function popen_loop :: "string \<Rightarrow> string \<Rightarrow> string" where
  "popen_loop s out = (if length s < 100 then out @ s else popen_loop (drop 100 s) (out @ take 100 s))"
  by pat_completeness auto
termination by (relation "measure (\<lambda>(s, out). length s)") auto

declare popen_loop.simps [simp del]

definition popen_main :: "string list \<Rightarrow> (string \<Rightarrow> string option) \<Rightarrow> string \<times> int" where
  "popen_main argv run =
     (if length argv < 2 then (''Argument expected'', 1)
      else case run (popen_cmd (tl argv) @ [CHR 0x0A]) of
        None \<Rightarrow> ([], 0)
      | Some output \<Rightarrow> (''<'' @ c_string (popen_loop output []) @ ''>'', 0))"

lemma popen_loop_all: "popen_loop s out = out @ s"
  by (induction s out rule: popen_loop.induct) (subst popen_loop.simps, simp)

lemma popen_prints:
  "run (popen_cmd (a # as) @ [CHR 0x0A]) = Some output \<Longrightarrow> CHR 0x00 \<notin> set output \<Longrightarrow>
   popen_main (p # a # as) run = (''<'' @ output @ ''>'', 0)"
  by (simp add: popen_main_def popen_loop_all c_string_all)

subsection \<open>The shared library\<close>

text \<open>
  The variable of the library, in the copy the program is linked with and in the one \<^verbatim>\<open>dlopen\<close> gives. They are the
  same variable when \<^verbatim>\<open>dlopen\<close> finds the file the program is linked with. \<open>found\<close>: whether it finds a library.
\<close>

record lib_vars =
  linked_var :: int
  opened_var :: int

definition lib_get :: "int \<Rightarrow> int" where "lib_get var = var"
definition lib_set :: "int \<Rightarrow> int" where "lib_set n = n + 10"
definition lib_set2 :: "int \<Rightarrow> int" where "lib_set2 n = n + 20"

definition test_get :: "bool \<Rightarrow> bool \<Rightarrow> lib_vars \<Rightarrow> int" where
  "test_get found same v =
     (if found then lib_get (if same then linked_var v else opened_var v) else 0)"

definition test_set :: "bool \<Rightarrow> bool \<Rightarrow> int \<Rightarrow> lib_vars \<Rightarrow> lib_vars" where
  "test_set found same n v =
     (if found then (if same then v\<lparr>linked_var := lib_set2 n\<rparr> else v\<lparr>opened_var := lib_set2 n\<rparr>) else v)"

definition shared_line :: "string \<Rightarrow> bool \<Rightarrow> bool \<Rightarrow> int \<Rightarrow> lib_vars \<Rightarrow> string" where
  "shared_line label found same expected v =
     label @ ''<'' @ string_of_int (lib_get (linked_var v)) @ '':'' @ string_of_int (test_get found same v) @ ''> '' @
     (if lib_get (linked_var v) = expected then ''OK'' else ''NOK'')"

definition shared_main :: "bool \<Rightarrow> bool \<Rightarrow> string list" where
  "shared_main found same =
     (let v = \<lparr>linked_var = 0, opened_var = 0\<rparr>;
          v = v\<lparr>linked_var := lib_set 1\<rparr>;
          first = shared_line ''Set 1: '' found same 11 v;
          v = test_set found same 2 v
      in [first, shared_line ''Set 2(dlopen)'' found same 22 v])"

lemma shared_main_prints:
  "shared_main True True = [''Set 1: <11:11> OK'', ''Set 2(dlopen)<22:22> OK'']"
  "shared_main True False = [''Set 1: <11:0> OK'', ''Set 2(dlopen)<11:22> NOK'']"
  "shared_main False same = [''Set 1: <11:0> OK'', ''Set 2(dlopen)<11:0> NOK'']"
  by (cases same; code_simp)+

subsection \<open>The project template\<close>

text \<open>The result is undefined where the product does not fit into \<^verbatim>\<open>int\<close>.\<close>

definition foo :: "int \<Rightarrow> int option" where
  "foo x = (if - (2 ^ 31) \<le> x * 2 \<and> x * 2 < 2 ^ 31 then Some (x * 2) else None)"

definition bar :: "int \<Rightarrow> bool" where
  "bar x \<longleftrightarrow> x mod 2 = 0"

definition template_main :: "bool \<Rightarrow> bool \<Rightarrow> string list option" where
  "template_main x86 feature_bar =
     do { f \<leftarrow> foo 5;
          Some ((if x86 then [''Running on x86 device''] else []) @ [''<'' @ string_of_int f @ ''>''] @
                (if feature_bar then [''<'' @ string_of_int (of_bool (bar 5)) @ ''>''] else [])) }"

lemma template_prints: "template_main x86 True = Some ((if x86 then [''Running on x86 device''] else []) @ [''<10>'', ''<0>''])"
  by (cases x86; code_simp)

end
