(* ===== verification/Message_Queue.thy ===== *)
theory Message_Queue
  imports Prelude Exclusion
begin

section \<open>The message queue\<close>

text \<open>
  Models \<^verbatim>\<open>ipc/message_queue/mq_test.cpp\<close>: a server that sends ten messages through a named queue of at most ten, and a
  client that takes at most five. One step is one call of one of the two processes on the queue; pauses are left
  out. A timed call on a full or an empty queue may end with its time; before that it is no step.
\<close>

record mq =
  mq_name :: bool
  mq_items :: "string list"
  server_at :: nat
  server_fails :: nat
  client_at :: "nat option"
  client_fails :: nat
  client_lines :: "string list"
  mq_closed :: bool

text \<open>The text in the buffer of ten characters; the loop sends the counters 0 to 9.\<close>

definition mq_msg :: "nat \<Rightarrow> string" where
  "mq_msg i = ''MSG('' @ string_of_nat i @ '')''"

datatype mq_label = Server_open | Server_send bool | Server_close | Client_open | Client_receive bool

definition mq_start :: mq where
  "mq_start = \<lparr>mq_name = False, mq_items = [], server_at = 0, server_fails = 0, client_at = None, client_fails = 0,
     client_lines = [], mq_closed = False\<rparr>"

text \<open>The program starts with no queue of the name; the argument of a timed call tells that its time is over.\<close>

definition server_open :: "mq \<Rightarrow> mq option" where
  "server_open s = (if mq_name s \<or> mq_closed s then None else Some (s\<lparr>mq_name := True\<rparr>))"

definition server_send :: "bool \<Rightarrow> mq \<Rightarrow> mq option" where
  "server_send expired s =
     (if \<not> mq_name s \<or> server_at s \<ge> 10 then None
      else if length (mq_items s) < 10 then
        Some (s\<lparr>mq_items := mq_items s @ [mq_msg (server_at s)], server_at := server_at s + 1\<rparr>)
      else if expired then Some (s\<lparr>server_at := server_at s + 1, server_fails := server_fails s + 1\<rparr>)
      else None)"

text \<open>The queue lives on for a client that has it open.\<close>

definition server_close :: "mq \<Rightarrow> mq option" where
  "server_close s = (if mq_name s \<and> server_at s = 10 then Some (s\<lparr>mq_name := False, mq_closed := True\<rparr>) else None)"

text \<open>The client is started with the server: when the queue is not there yet it gives up, with 5 as its last turn.\<close>

definition client_open :: "mq \<Rightarrow> mq option" where
  "client_open s =
     (case client_at s of
        Some i \<Rightarrow> None
      | None \<Rightarrow> Some (if mq_name s then s\<lparr>client_at := Some 0\<rparr> else s\<lparr>client_at := Some 5, client_fails := 1\<rparr>))"

definition client_receive :: "bool \<Rightarrow> mq \<Rightarrow> mq option" where
  "client_receive expired s =
     (case client_at s of
        None \<Rightarrow> None
      | Some i \<Rightarrow>
          if i \<ge> 5 then None
          else (case mq_items s of
              m # ms \<Rightarrow> Some (s\<lparr>mq_items := ms, client_at := Some (i + 1), client_lines := client_lines s @ [''['' @ m @ '']'']\<rparr>)
            | [] \<Rightarrow> if expired then Some (s\<lparr>client_at := Some (i + 1), client_fails := client_fails s + 1\<rparr>) else None))"

fun mq_exec :: "mq_label \<Rightarrow> mq \<Rightarrow> mq option" where
  "mq_exec Server_open s = server_open s"
| "mq_exec (Server_send e) s = server_send e s"
| "mq_exec Server_close s = server_close s"
| "mq_exec Client_open s = client_open s"
| "mq_exec (Client_receive e) s = client_receive e s"

subsection \<open>What is received\<close>

definition mq_inv :: "mq \<Rightarrow> bool" where
  "mq_inv s \<longleftrightarrow> server_at s \<le> 10 \<and> server_fails s = 0 \<and>
     client_lines s @ map (\<lambda>m. ''['' @ m @ '']'') (mq_items s) =
       map (\<lambda>i. ''['' @ mq_msg i @ '']'') [0..<server_at s] \<and>
     (case client_at s of None \<Rightarrow> client_lines s = [] \<and> client_fails s = 0 | Some i \<Rightarrow> length (client_lines s) \<le> i \<and> i \<le> 5)"

lemma mq_inv_room: "mq_inv s \<Longrightarrow> length (mq_items s) \<le> server_at s"
proof -
  assume "mq_inv s"
  then have "length (client_lines s @ map (\<lambda>m. ''['' @ m @ '']'') (mq_items s)) = server_at s"
    by (simp add: mq_inv_def)
  then show ?thesis by simp
qed

lemma mq_inv_step: "mq_inv s \<Longrightarrow> mq_exec l s = Some s' \<Longrightarrow> mq_inv s'"
proof (cases l)
  case (Server_send e)
  assume a: "mq_inv s" "mq_exec l s = Some s'"
  with mq_inv_room [OF a(1)] Server_send show ?thesis
    by (cases "client_at s") (auto simp: server_send_def mq_inv_def split: if_splits)
qed (auto simp: server_open_def server_close_def client_open_def client_receive_def mq_inv_def
    split: if_splits option.splits list.splits)

text \<open>
  No send ever finds the queue full, and what the client has printed is the beginning of the sequence of messages, at
  most five of them, whatever the order of the calls and whichever of them run out of time.
\<close>

theorem mq_in_order:
  assumes "reachable (exec_step mq_exec) mq_start s"
  shows "server_fails s = 0 \<and> client_lines s = map (\<lambda>i. ''['' @ mq_msg i @ '']'') [0..<length (client_lines s)] \<and>
    length (client_lines s) \<le> 5 \<and> length (client_lines s) \<le> server_at s"
proof -
  have "mq_inv mq_start" by (simp add: mq_inv_def mq_start_def)
  with assms have i: "mq_inv s" by (rule reachable_invariant) (auto simp: exec_step_def mq_inv_step)
  let ?m = "\<lambda>m :: string. ''['' @ m @ '']''" and ?l = "\<lambda>i. ''['' @ mq_msg i @ '']''"
  have e: "client_lines s @ map ?m (mq_items s) = map ?l [0..<server_at s]" using i by (simp add: mq_inv_def)
  then have n: "length (client_lines s) \<le> server_at s" by (metis length_append length_map length_upt le_add1 minus_nat.diff_0)
  have "client_lines s = take (length (client_lines s)) (map ?l [0..<server_at s])" using e by (metis append_eq_conv_conj)
  also have "\<dots> = map ?l [0..<length (client_lines s)]" using n by (simp add: take_map take_upt)
  finally show ?thesis using i n by (auto simp: mq_inv_def split: option.splits)
qed

end
