(* ===== verification/Factory.thy ===== *)
theory Factory
  imports Prelude
begin

section \<open>Factories\<close>

text \<open>
  Models \<^verbatim>\<open>factory/basic_factory.cpp\<close> and \<^verbatim>\<open>factory/factory.cpp\<close>: a list of types with identifiers, the search
  for the first with a given one, construction, and the dispatch of a visitor. The parameter pack of the
  template is a list. A smart pointer that is made here is the object or nothing.
\<close>

subsection \<open>Identifiers given with the list\<close>

datatype basic_type = Basic_A | Basic_B

record basic_item =
  basic_type :: basic_type
  basic_data :: string

text \<open>The loop over \<^verbatim>\<open>items\<close> and \<^verbatim>\<open>ctors\<close>.\<close>

fun basic_loop :: "(int \<times> basic_type) list \<Rightarrow> int \<Rightarrow> string \<Rightarrow> basic_item option" where
  "basic_loop [] i arg = None"
| "basic_loop ((j, t) # es) i arg =
     (if i = j then Some \<lparr>basic_type = t, basic_data = arg\<rparr> else basic_loop es i arg)"

definition basic_make :: "(int \<times> basic_type) list \<Rightarrow> int \<Rightarrow> string \<Rightarrow> basic_item option" where
  "basic_make elements i arg = basic_loop elements i (c_string arg)"

text \<open>\<^verbatim>\<open>make_unique\<close> gives its object to a shared pointer.\<close>

definition basic_make_unique :: "(int \<times> basic_type) list \<Rightarrow> int \<Rightarrow> string \<Rightarrow> basic_item option" where
  "basic_make_unique elements i arg = basic_make elements i arg"

definition basic_make_shared :: "(int \<times> basic_type) list \<Rightarrow> int \<Rightarrow> string \<Rightarrow> basic_item option" where
  "basic_make_shared elements i arg = basic_make elements i arg"

definition basic_status :: "basic_item \<Rightarrow> string" where
  "basic_status x = (case basic_type x of Basic_A \<Rightarrow> ''A('' | Basic_B \<Rightarrow> ''B('') @ basic_data x @ '')''"

definition TypeA :: int where "TypeA = 0"
definition TypeB :: int where "TypeB = 1"

definition basic_test_factory :: "(int \<times> basic_type) list" where
  "basic_test_factory = [(TypeA, Basic_A), (TypeB, Basic_B)]"

text \<open>The lines of \<^verbatim>\<open>main\<close>; none when a pointer is null.\<close>

definition basic_main :: "string list option" where
  "basic_main =
     do { a \<leftarrow> basic_make_shared basic_test_factory TypeA ''123'';
          b \<leftarrow> basic_make_shared basic_test_factory TypeB ''456'';
          Some [c_string (basic_status a), c_string (basic_status b)] }"

subsection \<open>Types that identify themselves\<close>

datatype item_type = Type_A | Type_B

fun identify :: "item_type \<Rightarrow> string" where
  "identify Type_A = ''a''"
| "identify Type_B = ''b''"

record item =
  item_type :: item_type
  item_arg :: string

definition construct_item :: "item_type \<Rightarrow> string \<Rightarrow> item" where
  "construct_item t arg = \<lparr>item_type = t, item_arg = arg\<rparr>"

fun make_loop :: "item_type list \<Rightarrow> string \<Rightarrow> string \<Rightarrow> item option" where
  "make_loop [] i arg = None"
| "make_loop (t # ts) i arg = (if i = identify t then Some (construct_item t arg) else make_loop ts i arg)"

definition factory_make :: "item_type list \<Rightarrow> string \<Rightarrow> string \<Rightarrow> item option" where
  "factory_make types i arg = make_loop types i (c_string arg)"

definition factory_make_unique :: "item_type list \<Rightarrow> string \<Rightarrow> string \<Rightarrow> item option" where
  "factory_make_unique types i arg = factory_make types i arg"

definition factory_make_shared :: "item_type list \<Rightarrow> string \<Rightarrow> string \<Rightarrow> item option" where
  "factory_make_shared types i arg = factory_make types i arg"

text \<open>
  A visitor has a handler for each type and one without an argument. \<^verbatim>\<open>dispatch\<close> casts the reference to the type
  of the list without looking at the object: on a null pointer or an object of the other type this is
  undefined, the result is none.
\<close>

record 'v visitor =
  on_default :: "'v \<Rightarrow> 'v"
  on_type :: "item_type \<Rightarrow> item \<Rightarrow> 'v \<Rightarrow> 'v"

definition dispatch :: "'v visitor \<Rightarrow> item_type \<Rightarrow> item option \<Rightarrow> 'v \<Rightarrow> 'v option" where
  "dispatch vis t x v =
     (case x of None \<Rightarrow> None | Some x \<Rightarrow> if item_type x = t then Some (on_type vis t x v) else None)"

fun factory_accept :: "'v visitor \<Rightarrow> item_type list \<Rightarrow> string \<Rightarrow> item option \<Rightarrow> 'v \<Rightarrow> 'v option" where
  "factory_accept vis [] i x v = Some (on_default vis v)"
| "factory_accept vis (t # ts) i x v =
     (if i = identify t then dispatch vis t x v else factory_accept vis ts i x v)"

definition test_factory :: "item_type list" where
  "test_factory = [Type_A, Type_B]"

fun type_name :: "item_type \<Rightarrow> string" where
  "type_name Type_A = ''A''"
| "type_name Type_B = ''B''"

definition item_parse :: "item \<Rightarrow> string \<Rightarrow> bool \<times> string" where
  "item_parse x s = (True, type_name (item_type x) @ ''['' @ item_arg x @ '']::parse('' @ s @ '')'')"

text \<open>\<^verbatim>\<open>ControllerVisitor\<close>: its data and what was printed on the current line.\<close>

definition controller :: "(string \<times> string) visitor" where
  "controller =
     \<lparr>on_default = (\<lambda>(d, out). (''default'', out @ ''Default handler'')),
      on_type = (\<lambda>t x (d, out). (item_arg x, out @ type_name t @ '' handler''))\<rparr>"

definition accept_line :: "string \<Rightarrow> string \<Rightarrow> item option \<Rightarrow> string \<Rightarrow> (string \<times> string) option" where
  "accept_line i prefix x d =
     do { (d, out) \<leftarrow> factory_accept controller test_factory i x (d, prefix @ '': ''); Some (d, out @ '' => '' @ d) }"

definition factory_main :: "string list option" where
  "factory_main =
     do { a \<leftarrow> factory_make_shared test_factory ''a'' ''A argument'';
          b \<leftarrow> factory_make_shared test_factory ''b'' ''B argument'';
          let (_, l1) = item_parse a ''123'';
          let (_, l2) = item_parse b ''456'';
          (d, l3) \<leftarrow> accept_line ''a'' ''shared_a'' (Some a) [];
          (d, l4) \<leftarrow> accept_line ''b'' ''shared_b'' (Some b) d;
          (d, l5) \<leftarrow> accept_line ''c'' ''unknown'' None d;
          Some [l1, l2, l3, l4, l5] }"

subsection \<open>Properties\<close>

lemma basic_loop_first:
  "basic_loop es i arg = map_option (\<lambda>t. \<lparr>basic_type = t, basic_data = arg\<rparr>) (map_of es i)"
  by (induction es) auto

lemma identify_inj: "identify t = identify u \<longleftrightarrow> t = u"
  by (cases t; cases u) auto

lemma make_loop_eq:
  "make_loop ts i arg = map_option (\<lambda>t. construct_item t arg) (find (\<lambda>t. identify t = i) ts)"
  by (induction ts) auto

lemma accept_eq:
  "factory_accept vis ts i x v =
     (case find (\<lambda>t. identify t = i) ts of None \<Rightarrow> Some (on_default vis v) | Some t \<Rightarrow> dispatch vis t x v)"
  by (induction ts) auto

lemma find_identify: "t \<in> set ts \<Longrightarrow> find (\<lambda>u. identify u = identify t) ts = Some t"
  by (induction ts) (auto simp: identify_inj)

text \<open>
  An object that the factory made is of the type of its identifier and has the argument, and a visitor
  accepted with that identifier gets the object in the handler of its type. For an identifier of no type
  nothing is made and the visitor gets the default handler. With the identifier of another type of the
  list the cast is undefined.
\<close>

theorem factory_make_accept:
  "(\<forall>i arg. factory_make types i arg = None \<longleftrightarrow> i \<notin> identify ` set types) \<and>
   (\<forall>i arg x. factory_make types i arg = Some x \<longrightarrow>
      identify (item_type x) = i \<and> item_arg x = c_string arg \<and>
      factory_accept vis types i (Some x) v = Some (on_type vis (item_type x) x v) \<and>
      (\<forall>j. j \<noteq> i \<longrightarrow> factory_accept vis types j (Some x) v =
         (if j \<in> identify ` set types then None else Some (on_default vis v))))"
proof (intro conjI allI impI)
  fix i arg
  show "factory_make types i arg = None \<longleftrightarrow> i \<notin> identify ` set types"
    by (auto simp: factory_make_def make_loop_eq find_None_iff)
next
  fix i arg x assume "factory_make types i arg = Some x"
  then obtain t where t: "find (\<lambda>t. identify t = i) types = Some t" "x = construct_item t (c_string arg)"
    by (auto simp: factory_make_def make_loop_eq)
  then have i: "identify t = i" by (auto simp: find_Some_iff)
  then show "identify (item_type x) = i" "item_arg x = c_string arg"
    using t(2) by (simp_all add: construct_item_def)
  show "factory_accept vis types i (Some x) v = Some (on_type vis (item_type x) x v)"
    using t by (simp add: accept_eq dispatch_def construct_item_def)
  fix j assume j: "j \<noteq> i"
  show "factory_accept vis types j (Some x) v = (if j \<in> identify ` set types then None else Some (on_default vis v))"
  proof (cases "j \<in> identify ` set types")
    case True
    then obtain u where u: "u \<in> set types" "j = identify u" by auto
    then have "u \<noteq> t" using j i by auto
    then show ?thesis using u find_identify [OF u(1)] t(2) by (auto simp: accept_eq dispatch_def construct_item_def)
  next
    case False
    then have "find (\<lambda>t. identify t = j) types = None" by (auto simp: find_None_iff)
    then show ?thesis using False by (simp add: accept_eq)
  qed
qed

theorem factory_mains:
  "basic_main = Some [''A(123)'', ''B(456)'']"
  "factory_main = Some [''A[A argument]::parse(123)'', ''B[B argument]::parse(456)'',
     ''shared_a: A handler => A argument'', ''shared_b: B handler => B argument'', ''unknown: Default handler => default'']"
  by code_simp+

end
