(* ===== verification/Scope_Exit.thy ===== *)
theory Scope_Exit
  imports Prelude "HOL-Library.Multiset"
begin

section \<open>Scope guards\<close>

text \<open>
  Models \<^verbatim>\<open>scope_exit/scope_exit.hpp\<close> and its programs. An action is a value; the list of the actions that were
  called is the effect of a program. A block declares guards and moves, assigns and releases them; at its end
  they are destroyed in the reverse of the order of their declaration.
\<close>

record 'a guard =
  on_exit :: 'a
  valid :: bool

definition guard_new :: "'a \<Rightarrow> 'a guard" where
  "guard_new f = \<lparr>on_exit = f, valid = True\<rparr>"

definition guard_destroy :: "'a guard \<Rightarrow> 'a list" where
  "guard_destroy g = (if valid g then [on_exit g] else [])"

text \<open>The new guard and the one it was made from.\<close>

definition guard_move :: "'a guard \<Rightarrow> 'a guard \<times> 'a guard" where
  "guard_move rhs = (\<lparr>on_exit = on_exit rhs, valid = valid rhs\<rparr>, rhs\<lparr>valid := False\<rparr>)"

definition guard_release :: "'a guard \<Rightarrow> 'a guard" where
  "guard_release g = g\<lparr>valid := False\<rparr>"

text \<open>The assignment writes three fields one after the other; both sides can be the same guard.\<close>

definition guard_assign :: "nat \<Rightarrow> nat \<Rightarrow> 'a guard list \<Rightarrow> 'a guard list" where
  "guard_assign i j gs =
     (let gs = gs[i := (gs ! i)\<lparr>on_exit := on_exit (gs ! j)\<rparr>];
          gs = gs[i := (gs ! i)\<lparr>valid := valid (gs ! j)\<rparr>]
      in gs[j := (gs ! j)\<lparr>valid := False\<rparr>])"

definition on_scope_exit :: "'a \<Rightarrow> 'a guard" where
  "on_scope_exit f = guard_new f"

datatype 'a guard_stmt = Guard 'a | Move_guard nat | Assign_guard nat nat | Release_guard nat

fun guard_exec :: "'a guard_stmt \<Rightarrow> 'a guard list \<Rightarrow> 'a guard list option" where
  "guard_exec (Guard f) gs = Some (gs @ [on_scope_exit f])"
| "guard_exec (Move_guard i) gs =
     (if i < length gs then case guard_move (gs ! i) of (new, old) \<Rightarrow> Some (gs[i := old] @ [new]) else None)"
| "guard_exec (Assign_guard i j) gs =
     (if i < length gs \<and> j < length gs then Some (guard_assign i j gs) else None)"
| "guard_exec (Release_guard i) gs =
     (if i < length gs then Some (gs[i := guard_release (gs ! i)]) else None)"

fun guard_run :: "'a guard_stmt list \<Rightarrow> 'a guard list \<Rightarrow> 'a guard list option" where
  "guard_run [] gs = Some gs"
| "guard_run (s # ss) gs = Option.bind (guard_exec s gs) (guard_run ss)"

definition scope_end :: "'a guard list \<Rightarrow> 'a list" where
  "scope_end gs = concat (map guard_destroy (rev gs))"

text \<open>The programs: what they print.\<close>

definition scope_main :: "string list option" where
  "scope_main =
     map_option (\<lambda>gs. [''start'', ''working...''] @ scope_end gs)
       (guard_run [Guard ''end'', Guard ''END'', Release_guard 1] [])"

definition unique_ptr_main :: "string list" where
  "unique_ptr_main =
     (let foo = [''working...''] @ scope_end [guard_new ''end''] in [''start''] @ foo @ [''done''])"

subsection \<open>Every action at most once\<close>

definition pending_actions :: "'a guard list \<Rightarrow> 'a multiset" where
  "pending_actions gs = mset (concat (map guard_destroy gs))"

lemma pending_simps [simp]:
  "pending_actions [] = {#}"
  "pending_actions (g # gs) = mset (guard_destroy g) + pending_actions gs"
  "pending_actions (gs @ hs) = pending_actions gs + pending_actions hs"
  by (simp_all add: pending_actions_def)

lemma mset_scope_end: "mset (scope_end gs) = pending_actions gs"
  by (induction gs) (auto simp: scope_end_def)

lemma pending_update:
  "i < length gs \<Longrightarrow> pending_actions (gs[i := g]) + mset (guard_destroy (gs ! i)) = pending_actions gs + mset (guard_destroy g)"
  by (induction gs arbitrary: i) (auto split: nat.split)

lemma pending_invalid:
  assumes "i < length gs" "\<not> valid g"
  shows "pending_actions (gs[i := g]) \<subseteq># pending_actions gs"
proof -
  have "pending_actions (gs[i := g]) + mset (guard_destroy (gs ! i)) = pending_actions gs"
    using pending_update [OF assms(1), of g] assms(2) by (simp add: guard_destroy_def)
  then show ?thesis by (metis mset_subset_eq_add_left)
qed

lemma pending_move:
  assumes "i < length gs" "guard_move (gs ! i) = (new, old)"
  shows "pending_actions (gs[i := old] @ [new]) = pending_actions gs"
  using pending_update [OF assms(1), of old] assms(2)
  by (auto simp: guard_move_def guard_destroy_def split: if_splits)

lemma assign_eq:
  assumes "i < length gs" "j < length gs"
  shows "guard_assign i j gs =
    (if i = j then gs[i := (gs ! i)\<lparr>valid := False\<rparr>]
     else (gs[i := \<lparr>on_exit = on_exit (gs ! j), valid = valid (gs ! j)\<rparr>])[j := (gs ! j)\<lparr>valid := False\<rparr>])"
  using assms by (cases "gs ! i") (auto simp: guard_assign_def Let_def nth_list_update)

lemma pending_assign:
  assumes "i < length gs" "j < length gs"
  shows "pending_actions (guard_assign i j gs) \<subseteq># pending_actions gs"
proof (cases "i = j")
  case True
  then show ?thesis using pending_invalid [OF assms(1)] assms by (simp add: assign_eq)
next
  case False
  let ?gs = "gs[j := (gs ! j)\<lparr>valid := False\<rparr>]" and ?g = "\<lparr>on_exit = on_exit (gs ! j), valid = valid (gs ! j)\<rparr>"
  have "guard_assign i j gs = ?gs[i := ?g]" using assms False by (simp add: assign_eq list_update_swap)
  moreover have "pending_actions ?gs + mset (guard_destroy (gs ! j)) = pending_actions gs"
    using pending_update [OF assms(2), of "(gs ! j)\<lparr>valid := False\<rparr>"] by (simp add: guard_destroy_def)
  moreover have "pending_actions (?gs[i := ?g]) + mset (guard_destroy (gs ! i)) = pending_actions ?gs + mset (guard_destroy (gs ! j))"
    using pending_update [of i ?gs ?g] assms False by (simp add: guard_destroy_def)
  ultimately show ?thesis by (metis mset_subset_eq_add_left)
qed

fun created :: "'a guard_stmt list \<Rightarrow> 'a multiset" where
  "created [] = {#}"
| "created (Guard f # ss) = add_mset f (created ss)"
| "created (_ # ss) = created ss"

fun only_moves :: "'a guard_stmt \<Rightarrow> bool" where
  "only_moves (Guard f) \<longleftrightarrow> True"
| "only_moves (Move_guard i) \<longleftrightarrow> True"
| "only_moves _ \<longleftrightarrow> False"

lemma guard_exec_pending:
  assumes "guard_exec s gs = Some gs'"
  shows "pending_actions gs' \<subseteq># pending_actions gs + created [s] \<and>
    (only_moves s \<longrightarrow> pending_actions gs' = pending_actions gs + created [s])"
proof (cases s)
  case (Guard f)
  then show ?thesis using assms by (auto simp: on_scope_exit_def guard_new_def guard_destroy_def)
next
  case (Move_guard i)
  obtain new old where m: "guard_move (gs ! i) = (new, old)" by fastforce
  with Move_guard assms have "i < length gs" "gs' = gs[i := old] @ [new]" by (auto split: if_splits)
  then show ?thesis using pending_move [OF _ m] Move_guard by simp
next
  case (Assign_guard i j)
  then show ?thesis using assms pending_assign [of i gs j] by (auto split: if_splits)
next
  case (Release_guard i)
  then show ?thesis using assms pending_invalid [of i gs "guard_release (gs ! i)"]
    by (auto simp: guard_release_def split: if_splits)
qed

lemma created_Cons: "created (s # ss) = created [s] + created ss"
  by (cases s) auto

lemma guard_run_pending:
  "guard_run ss gs = Some gs' \<Longrightarrow> pending_actions gs' \<subseteq># pending_actions gs + created ss \<and>
     ((\<forall>s \<in> set ss. only_moves s) \<longrightarrow> pending_actions gs' = pending_actions gs + created ss)"
proof (induction ss arbitrary: gs)
  case (Cons s ss)
  then obtain hs where hs: "guard_exec s gs = Some hs" "guard_run ss hs = Some gs'"
    by (auto split: bind_splits)
  from guard_exec_pending [OF hs(1)] Cons.IH [OF hs(2)] show ?case
    by (auto simp: created_Cons [of s ss] add.assoc intro: subset_mset.order_trans subset_mset.add_right_mono)
qed simp

text \<open>
  C39: At the end of a block every action has run at most as often as it was bound, whatever was moved, assigned
  and released; when guards were only moved, exactly as often; when nothing was done to them, in the reverse
  order. An assignment loses the action of its target, and the assignment of a guard to itself releases it.
\<close>

theorem scope_actions:
  assumes "guard_run ss [] = Some gs"
  shows "mset (scope_end gs) \<subseteq># created ss \<and>
    ((\<forall>s \<in> set ss. only_moves s) \<longrightarrow> mset (scope_end gs) = created ss) \<and>
    (\<forall>fs. ss = map Guard fs \<longrightarrow> scope_end gs = rev fs)"
proof -
  have "guard_run (map Guard fs) hs = Some (hs @ map guard_new fs)" for fs :: "'a list" and hs
    by (induction fs arbitrary: hs) (auto simp: on_scope_exit_def)
  moreover have "scope_end (map guard_new fs) = rev fs" for fs :: "'a list"
    by (induction fs) (auto simp: scope_end_def guard_new_def guard_destroy_def)
  ultimately show ?thesis using guard_run_pending [OF assms] assms by (auto simp: mset_scope_end)
qed

theorem scope_actions_witness:
  "\<exists>gs. guard_run [Guard (1 :: nat), Guard 2, Move_guard 0, Release_guard 1] [] = Some gs \<and>
     scope_end gs = [1] \<and> mset (scope_end gs) \<subseteq># {#1, 2#}"
proof -
  let ?ss = "[Guard (1 :: nat), Guard 2, Move_guard 0, Release_guard 1]"
  let ?gs = "[\<lparr>on_exit = 1, valid = False\<rparr>, \<lparr>on_exit = 2, valid = False\<rparr>, \<lparr>on_exit = 1 :: nat, valid = True\<rparr>]"
  have run: "guard_run ?ss [] = Some ?gs" by code_simp
  have out: "scope_end ?gs = [1]" by code_simp
  have "mset (scope_end ?gs) \<subseteq># created ?ss" using scope_actions [OF run] by (rule conjunct1)
  then have "mset (scope_end ?gs) \<subseteq># {#1, 2#}" by simp
  with run out show ?thesis by blast
qed

text \<open>What an assignment loses.\<close>

theorem scope_faults:
  "guard_run [Guard (1 :: nat), Guard 2, Assign_guard 0 1] [] =
     Some [\<lparr>on_exit = 2, valid = True\<rparr>, \<lparr>on_exit = 2, valid = False\<rparr>]"
  "map_option scope_end (guard_run [Guard (1 :: nat), Assign_guard 0 0] []) = Some []"
  by (simp_all add: guard_assign_def on_scope_exit_def guard_new_def scope_end_def guard_destroy_def)

theorem scope_mains:
  "scope_main = Some [''start'', ''working...'', ''end'']"
  "unique_ptr_main = [''start'', ''working...'', ''end'', ''done'']"
  by (simp_all add: scope_main_def unique_ptr_main_def on_scope_exit_def guard_new_def guard_release_def scope_end_def
      guard_destroy_def)

end
