(* ===== verification/Local_Socket.thy ===== *)
theory Local_Socket
  imports Tcp_Socket
begin

section \<open>Local sockets\<close>

text \<open>
  Models \<^verbatim>\<open>ipc/unix_sockets\<close>: the class \<^verbatim>\<open>LocalSocket\<close>, the client and the server. A connection is a channel as in
  \<open>Tcp_Socket\<close>; the other answers of the kernel are arguments. The result is none where the code writes behind an
  array.
\<close>

record lsock =
  lfd :: int
  lpath :: string

text \<open>The size of \<^verbatim>\<open>sun_path\<close> is 108. \<open>removed\<close>: \<^verbatim>\<open>remove\<close> succeeded, or there was no such file.\<close>

definition local_new :: "int \<Rightarrow> lsock" where
  "local_new opened = \<lparr>lfd = opened, lpath = []\<rparr>"

definition local_of :: "string \<Rightarrow> int \<Rightarrow> bool \<Rightarrow> int \<Rightarrow> lsock" where
  "local_of path d removed opened =
     \<lparr>lfd = (if d = -1 \<and> length path \<le> 107 \<and> removed then opened else d), lpath = path\<rparr>"

definition local_bool :: "lsock \<Rightarrow> bool" where
  "local_bool s \<longleftrightarrow> lfd s > 0"

text \<open>The descriptors that are given to \<^verbatim>\<open>close\<close>; the object keeps its number.\<close>

definition local_close :: "lsock \<Rightarrow> int list" where
  "local_close s = (if lfd s > 0 then [lfd s] else [])"

definition local_delete :: "lsock \<Rightarrow> int list" where
  "local_delete s = local_close s"

text \<open>\<^verbatim>\<open>strncpy\<close> is given the length of the path as its bound.\<close>

definition local_bind :: "int \<Rightarrow> lsock \<Rightarrow> bool option" where
  "local_bind answer s =
     (if \<not> local_bool s then Some False
      else if length (lpath s) > 108 then None
      else Some (answer = 0))"

definition local_listen :: "int \<Rightarrow> lsock \<Rightarrow> bool" where
  "local_listen answer s = (if \<not> local_bool s then False else answer = 0)"

text \<open>
  \<^verbatim>\<open>accept\<close>: the descriptor, the name of the peer, which stays empty when it has none or the call fails, and the
  answers to the constructor of the result.
\<close>

definition local_accept :: "int \<Rightarrow> string \<Rightarrow> bool \<Rightarrow> int \<Rightarrow> lsock \<Rightarrow> lsock" where
  "local_accept accepted peer removed opened s =
     (if \<not> local_bool s then local_new opened
      else local_of (if accepted < 0 then [] else c_string peer) accepted removed opened)"

definition local_connect :: "int \<Rightarrow> string \<Rightarrow> lsock \<Rightarrow> bool \<times> lsock" where
  "local_connect answer path s =
     (if \<not> local_bool s \<or> length path > 107 then (False, s)
      else if answer = -1 then (False, s)
      else (True, s\<lparr>lpath := path\<rparr>))"

definition local_receive ::
    "lsock \<Rightarrow> nat \<Rightarrow> byte list \<Rightarrow> nat \<Rightarrow> channel \<Rightarrow> bool \<times> byte list \<times> nat \<times> channel" where
  "local_receive s n buf bytes ch =
     (if \<not> local_bool s then (False, buf, bytes, ch)
      else case recv n ch of
        (None, ch) \<Rightarrow> (False, buf, bytes, ch)
      | (Some r, ch) \<Rightarrow> (True, r @ drop (length r) buf, length r, ch))"

fun local_send_loop :: "int list \<Rightarrow> byte list \<Rightarrow> channel \<Rightarrow> bool \<times> channel" where
  "local_send_loop [] buf ch = (True, ch\<lparr>send_takes := [], sent := sent ch @ buf\<rparr>)"
| "local_send_loop (k # ks) buf ch =
     (if k < 0 then (False, ch\<lparr>send_takes := ks\<rparr>)
      else
        let s = min (nat k) (length buf);
            ch = ch\<lparr>sent := sent ch @ take s buf\<rparr>
        in if length buf - s > 0 then local_send_loop ks (drop s buf) ch
           else (True, ch\<lparr>send_takes := ks\<rparr>))"

definition local_send :: "lsock \<Rightarrow> byte list \<Rightarrow> channel \<Rightarrow> bool \<times> channel" where
  "local_send s buf ch = (if \<not> local_bool s then (False, ch) else local_send_loop (send_takes ch) buf ch)"

text \<open>A descriptor from 1024 on does not fit into the set for \<^verbatim>\<open>select\<close>.\<close>

definition local_wait :: "int \<Rightarrow> lsock \<Rightarrow> bool option" where
  "local_wait answer s =
     (if \<not> local_bool s then Some False else if lfd s \<ge> 1024 then None else Some (answer > 0))"

definition peer_credentials :: "(int \<times> int \<times> int) option \<Rightarrow> int \<times> int \<times> int \<Rightarrow> bool \<times> (int \<times> int \<times> int)" where
  "peer_credentials answer vars = (case answer of Some cred \<Rightarrow> (True, cred) | None \<Rightarrow> (False, vars))"

subsection \<open>The programs\<close>

definition bytes_of :: "string \<Rightarrow> byte list" where
  "bytes_of s = map (\<lambda>c. of_nat (of_char c)) s"

definition text_of :: "byte list \<Rightarrow> string" where
  "text_of bs = map (\<lambda>b. char_of (unat b)) bs"

definition msg_resize :: "nat \<Rightarrow> byte list \<Rightarrow> byte list" where
  "msg_resize n bs = take n bs @ replicate (n - length bs) 0"

definition received_line :: "nat \<Rightarrow> byte list \<Rightarrow> string" where
  "received_line bytes msg = ''Received '' @ string_of_nat bytes @ '' bytes: ['' @ c_string (text_of msg) @ '']''"

definition socket_name :: string where
  "socket_name = ''/tmp/test.socket''"

text \<open>
  The client: what it prints with its exit status, and the channel. The answers are those of \<^verbatim>\<open>socket\<close>, \<^verbatim>\<open>connect\<close> and
  \<^verbatim>\<open>select\<close>. A call that fails is printed by its name.
\<close>

definition local_client :: "int \<Rightarrow> int \<Rightarrow> int \<Rightarrow> channel \<Rightarrow> (string list \<times> int \<times> channel) option" where
  "local_client opened connected ready ch =
     (let sock = local_new opened; (ok, sock) = local_connect connected socket_name sock
      in if \<not> ok then Some ([''connect''], 1, ch)
         else let msg = bytes_of ''Test''; (ok, ch) = local_send sock msg ch
         in if \<not> ok then Some ([''write''], 1, ch)
         else let msg = msg_resize 10 msg
         in do { ready \<leftarrow> local_wait ready sock;
                 if \<not> ready then Some ([''wait''], 1, ch)
                 else case local_receive sock (length msg) msg 0 ch of
                     (False, _, _, ch) \<Rightarrow> Some ([''read''], 1, ch)
                   | (True, msg, bytes, ch) \<Rightarrow> Some ([received_line bytes msg], 0, ch) })"

text \<open>
  One turn of the loop of the server, for a socket that \<^verbatim>\<open>accept\<close> returned: the lines, and the channel. Without
  the credentials of the peer it prints variables that have no value: no result.
\<close>

definition server_turn :: "(int \<times> int \<times> int) option \<Rightarrow> int \<Rightarrow> lsock \<Rightarrow> channel \<Rightarrow> (string list \<times> channel) option" where
  "server_turn cred ready c ch =
     (case peer_credentials cred (0, 0, 0) of (False, _) \<Rightarrow> None | (True, p, u, g) \<Rightarrow>
        let hello = ''Client: PID <'' @ string_of_int p @ ''> UID <'' @ string_of_int u @ ''> GID <'' @ string_of_int g @ ''>'';
            msg = msg_resize 10 []
        in do { _ \<leftarrow> local_wait ready c;
                case local_receive c (length msg) msg 0 ch of
                  (False, _, _, ch) \<Rightarrow> Some ([hello, ''read''], ch)
                | (True, msg, bytes, ch) \<Rightarrow>
                    (let line = received_line bytes msg; msg = msg_resize bytes msg @ bytes_of ''++''
                     in case local_send c msg ch of
                          (False, ch) \<Rightarrow> Some ([hello, line, ''write''], ch)
                        | (True, ch) \<Rightarrow> Some ([hello, line, ''Sent: ['' @ c_string (text_of msg) @ '']''], ch)) })"

text \<open>
  The loop for the given answers of \<^verbatim>\<open>accept\<close> and the connections: the lines, the channels, and the exit status when
  the loop is left.
\<close>

record server_input =
  accepted :: int
  reopened :: int
  peer_cred :: "(int \<times> int \<times> int) option"
  select_answer :: int
  connection :: channel

fun server_loop :: "lsock \<Rightarrow> server_input list \<Rightarrow> (string list \<times> channel list \<times> int option) option" where
  "server_loop sock [] = Some ([], [], None)"
| "server_loop sock (i # is) =
     (let c = local_accept (accepted i) [] True (reopened i) sock
      in if \<not> local_bool c then Some ([''accept''], [], Some 1)
         else do { (out, ch) \<leftarrow> server_turn (peer_cred i) (select_answer i) c (connection i);
                   (outs, chs, status) \<leftarrow> server_loop sock is;
                   Some (out @ outs, ch # chs, status) })"

definition local_server ::
    "bool \<Rightarrow> int \<Rightarrow> int \<Rightarrow> int \<Rightarrow> server_input list \<Rightarrow> (string list \<times> channel list \<times> int option) option" where
  "local_server removed opened bound listening is =
     (let sock = local_of socket_name (-1) removed opened
      in do { ok \<leftarrow> local_bind bound sock;
              if \<not> ok then Some ([''bind''], [], Some 1)
              else if \<not> local_listen listening sock then Some ([''listen''], [], Some 1)
              else server_loop sock is })"

subsection \<open>Properties\<close>

lemma local_send_loop_eq: "local_send_loop ks buf ch = send_loop ks buf ch"
  by (induction ks buf ch rule: send_loop.induct) (auto simp: Let_def)

interpretation local_out: stream_out "local_send s" "local_bool s" for s
proof
  fix buf ch
  show "\<exists>ks. local_send s buf ch = (True, ch\<lparr>send_takes := ks, sent := sent ch @ buf\<rparr>) \<and> set ks \<subseteq> set (send_takes ch)"
    if "local_bool s" "\<forall>k \<in> set (send_takes ch). 0 \<le> k"
    using send_loop_sends [OF that(2), of buf ch] that(1) by (simp add: local_send_def local_send_loop_eq)
  show "sends_prefix buf ch (local_send s buf ch)"
    using send_loop_prefix refused_prefix by (simp add: local_send_def local_send_loop_eq)
qed

lemma msg_resize_take: "n \<le> length bs \<Longrightarrow> msg_resize n bs = take n bs"
  by (simp add: msg_resize_def)

lemma recv_segment: "s \<noteq> [] \<Longrightarrow> incoming ch = s # segs \<Longrightarrow> recv n ch =
    (Some (take n s), ch\<lparr>incoming := (if n < length s then drop n s # filter (\<lambda>s. s \<noteq> []) segs else filter (\<lambda>s. s \<noteq> []) segs)\<rparr>)"
  by (simp add: recv_def)

text \<open>A turn with a client whose first segment is \<open>m\<close>: at most ten bytes are read, and answered with \<open>++\<close> behind them.\<close>

lemma server_turn_answers:
  assumes "local_bool c" "lfd c < 1024" "\<forall>k \<in> set (send_takes ch). 0 \<le> k" "incoming ch = m # segs" "m \<noteq> []"
  shows "\<exists>out ch'. server_turn (Some cred) ready c ch = Some (out, ch') \<and> sent ch' = sent ch @ take 10 m @ bytes_of ''++'' \<and>
    length out = 3"
proof -
  let ?r = "take 10 m"
  let ?ch = "ch\<lparr>incoming := (if 10 < length m then drop 10 m # filter (\<lambda>s. s \<noteq> []) segs else filter (\<lambda>s. s \<noteq> []) segs)\<rparr>"
  let ?msg = "?r @ drop (length ?r) (msg_resize 10 [])"
  have r: "local_receive c 10 (msg_resize 10 []) 0 ch = (True, ?msg, length ?r, ?ch)"
    using assms(1) recv_segment [OF assms(5,4), of 10] by (simp add: local_receive_def)
  have "msg_resize (length ?r) ?msg = ?r" by (simp add: msg_resize_def min_def)
  moreover have "\<forall>k \<in> set (send_takes ?ch). 0 \<le> k" using assms(3) by simp
  from local_out.delivers [OF assms(1) this, of "?r @ bytes_of ''++''"] obtain ks where
    "local_send c (?r @ bytes_of ''++'') ?ch = (True, ?ch\<lparr>send_takes := ks, sent := sent ?ch @ ?r @ bytes_of ''++''\<rparr>)" by blast
  moreover have "local_wait ready c \<noteq> None" using assms(1,2) by (simp add: local_wait_def)
  moreover have "length (msg_resize 10 []) = 10" by (simp add: msg_resize_def)
  ultimately show ?thesis using r
    by (cases cred) (auto simp: server_turn_def peer_credentials_def Let_def)
qed

text \<open>The two programs together: the text of the client comes back with the two characters behind it.\<close>

theorem local_echo:
  assumes "0 < f" "f < 1024" "0 < g" "g < 1024" "0 < a"
    and "ch = \<lparr>incoming = [bytes_of ''Test''], broken = False, send_takes = [], sent = []\<rparr>"
  shows "\<exists>out ch'. server_turn (Some cred) ready (local_of [] f True 0) ch = Some (out, ch') \<and>
    local_client g 0 a \<lparr>incoming = [sent ch'], broken = False, send_takes = [], sent = []\<rparr> =
      Some ([''Received 6 bytes: [Test++]''], 0, \<lparr>incoming = [], broken = False, send_takes = [], sent = bytes_of ''Test''\<rparr>)"
proof -
  have c: "local_bool (local_of [] f True 0)" "lfd (local_of [] f True 0) < 1024"
    using assms(1,2) by (simp_all add: local_of_def local_bool_def)
  have "incoming ch = bytes_of ''Test'' # []" "bytes_of ''Test'' \<noteq> []" "\<forall>k \<in> set (send_takes ch). 0 \<le> k"
    by (simp_all add: assms(6) bytes_of_def)
  from server_turn_answers [OF c this(3) this(1,2)] obtain out ch' where
    ch': "server_turn (Some cred) ready (local_of [] f True 0) ch = Some (out, ch')"
    "sent ch' = sent ch @ take 10 (bytes_of ''Test'') @ bytes_of ''++''" by blast
  have s: "sent ch' = bytes_of ''Test++''" using ch'(2) by (simp add: assms(6) bytes_of_def)
  have line: "received_line (Suc (Suc (Suc (Suc (Suc (Suc 0)))))) (msg_resize 10 (bytes_of ''Test++'')) = ''Received 6 bytes: [Test++]''" by code_simp
  have msg: "bytes_of ''Test++'' @ drop 6 (msg_resize 10 (bytes_of ''Test'')) = msg_resize 10 (bytes_of ''Test++'')" by code_simp
  have "local_client g 0 a \<lparr>incoming = [bytes_of ''Test++''], broken = False, send_takes = [], sent = []\<rparr> =
      Some ([received_line (Suc (Suc (Suc (Suc (Suc (Suc 0)))))) (msg_resize 10 (bytes_of ''Test++''))], 0,
        \<lparr>incoming = [], broken = False, send_takes = [], sent = bytes_of ''Test''\<rparr>)"
    using assms(3-5) msg
    by (simp add: local_client_def local_new_def local_connect_def local_bool_def socket_name_def local_send_def
        local_wait_def local_receive_def recv_def msg_resize_def bytes_of_def)
  then show ?thesis using ch'(1) s line by simp
qed

text \<open>
  When \<^verbatim>\<open>accept\<close> fails the object gets a fresh socket instead: the check of the server does not see the failure,
  it goes on with a socket that is connected to nobody, and accepts again. A path too long for the address is
  copied with its own length as the bound; \<^verbatim>\<open>close\<close> keeps the number, which the destructor closes again.
\<close>

theorem local_faults:
  "local_bool s \<Longrightarrow> 0 < n \<Longrightarrow> local_bool (local_accept (-1) [] True n s)"
  "0 < f \<Longrightarrow> 108 < length path \<Longrightarrow> local_bind 0 (local_of path f True 0) = None"
  "0 < f \<Longrightarrow> local_close (local_of path f True 0) @ local_delete (local_of path f True 0) = [f, f]"
  by (auto simp: local_bool_def local_accept_def local_of_def local_bind_def local_close_def local_delete_def)

end
