(* ===== verification/Udp_Socket.thy ===== *)
theory Udp_Socket
  imports Prelude
begin

section \<open>UDP sockets\<close>

text \<open>
  Models \<^verbatim>\<open>ipc/udp_socket/udp_ttl.cpp\<close>. The datagrams that wait at a socket are a queue of addresses and contents.
  The other answers of the kernel are arguments. \<open>Exit\<close> is a call of \<^verbatim>\<open>exit\<close> with the failed call; \<open>Blocked\<close> a wait for
  a datagram that is not there.
\<close>

type_synonym datagram = "string \<times> u8 list"

datatype 'a udp_result = Result 'a | Exit string | Blocked

record udp =
  udp_fd :: int
  udp_port :: u16
  blocking :: bool
  queue :: "datagram list"

definition udp_new :: "u16 \<Rightarrow> bool \<Rightarrow> int \<Rightarrow> int \<Rightarrow> udp udp_result" where
  "udp_new port is_blocking opened option_set =
     (if opened < 0 then Exit ''socket''
      else if option_set < 0 then Exit ''setsockopt''
      else Result \<lparr>udp_fd = opened, udp_port = port, blocking = is_blocking, queue = []\<rparr>)"

text \<open>The descriptors that the destructor closes.\<close>

definition udp_delete :: "udp \<Rightarrow> int list" where
  "udp_delete s = (if udp_fd s \<noteq> 0 then [udp_fd s] else [])"

definition udp_bind :: "int \<Rightarrow> udp \<Rightarrow> bool" where
  "udp_bind answer s = (if answer < 0 then False else True)"

text \<open>
  \<^verbatim>\<open>send\<close>: whether the address is one, what \<^verbatim>\<open>sendto\<close> answers, and the datagram that leaves.
\<close>

definition udp_send :: "bool \<Rightarrow> int \<Rightarrow> string \<Rightarrow> u8 list \<Rightarrow> udp \<Rightarrow> (bool \<times> (string \<times> u8 list) list) udp_result" where
  "udp_send is_address answer ip buf s =
     (if \<not> is_address then Result (False, [])
      else if answer < 0 then Exit ''sendto''
      else Result (nat answer = length buf, [(ip, take (nat answer) buf)]))"

text \<open>
  \<^verbatim>\<open>receive\<close>: the first datagram is looked at with \<^verbatim>\<open>MSG_PEEK\<close>; the buffer gets as much of it as fits. Only when it
  fills the buffer it is taken from the queue. The results are the answer, the address, the buffer and the socket.
\<close>

definition udp_receive :: "nat \<Rightarrow> u8 list \<Rightarrow> udp \<Rightarrow> (bool \<times> string option \<times> u8 list \<times> udp) udp_result" where
  "udp_receive n buf s =
     (case queue s of
        [] \<Rightarrow> if blocking s then Blocked else Result (False, None, buf, s)
      | (ip, d) # rest \<Rightarrow>
          (let r = min n (length d); buf = take r d @ drop r buf
           in if r < n then Result (False, None, buf, s)
              else Result (True, Some ip, buf, s\<lparr>queue := rest\<rparr>)))"

subsection \<open>The program\<close>

definition the_port :: u16 where "the_port = 4555"

definition udp_client :: "int \<Rightarrow> int \<Rightarrow> int \<Rightarrow> (string list \<times> int \<times> (string \<times> u8 list) list) udp_result" where
  "udp_client opened option_set answer =
     (case udp_new the_port True opened option_set of
        Result link \<Rightarrow>
          (case udp_send True answer ''127.0.0.1'' (map (\<lambda>c. of_nat (of_char c)) ''test'' @ [0]) link of
             Result (ok, out) \<Rightarrow> if ok then Result ([''Sent''], 0, out) else Result ([''Failed to send''], 1, out)
           | Exit e \<Rightarrow> Exit e
           | Blocked \<Rightarrow> Blocked)
      | Exit e \<Rightarrow> Exit e
      | Blocked \<Rightarrow> Blocked)"

definition udp_server :: "int \<Rightarrow> int \<Rightarrow> datagram list \<Rightarrow> (string list \<times> int) udp_result" where
  "udp_server opened option_set arriving =
     (case udp_new the_port True opened option_set of
        Result link \<Rightarrow>
          (case udp_receive 5 (replicate 5 0) (link\<lparr>queue := arriving\<rparr>) of
             Result (ok, ip, buf, _) \<Rightarrow>
               if ok then Result ([''Received: '' @ [CHR 0x27] @ c_string (map (\<lambda>b. char_of (unat b)) buf) @ [CHR 0x27] @ '' from '' @ the ip], 0)
               else Result ([''Failed to receive''], 1)
           | Exit e \<Rightarrow> Exit e
           | Blocked \<Rightarrow> Blocked)
      | Exit e \<Rightarrow> Exit e
      | Blocked \<Rightarrow> Blocked)"

subsection \<open>Properties\<close>







text \<open>The client and the server of the program.\<close>

theorem udp_programs:
  assumes "0 \<le> f" "0 \<le> g"
  shows "\<exists>d. udp_client f 0 5 = Result ([''Sent''], 0, [(''127.0.0.1'', d)]) \<and>
    udp_server g 0 [(ip, d)] = Result ([''Received: '' @ [CHR 0x27] @ ''test'' @ [CHR 0x27] @ '' from '' @ ip], 0)"
proof -
  let ?d = "map (\<lambda>c. of_nat (of_char c)) ''test'' @ [0] :: u8 list"
  have "c_string (map (\<lambda>b. char_of (unat b)) ?d) = ''test''" by code_simp
  moreover have "length ?d = 5" by simp
  ultimately have "udp_client f 0 5 = Result ([''Sent''], 0, [(''127.0.0.1'', ?d)])"
    "udp_server g 0 [(ip, ?d)] = Result ([''Received: '' @ [CHR 0x27] @ ''test'' @ [CHR 0x27] @ '' from '' @ ip], 0)"
    using assms by (simp_all add: udp_client_def udp_server_def udp_new_def udp_send_def udp_receive_def Let_def del: list.map)
  then show ?thesis by blast
qed

end
