(* ===== verification/Pipes.thy ===== *)
theory Pipes
  imports Prelude
begin

section \<open>Pipes\<close>

text \<open>
  Models \<^verbatim>\<open>ipc/pipe_ipc\<close>, a server that reads lines from a named pipe with the client that writes them, and
  \<^verbatim>\<open>ipc/pipe/pipe.cpp\<close>, a thread that writes letters to a pipe that is read with \<^verbatim>\<open>poll\<close>. What the pipe delivers is
  an argument.
\<close>

subsection \<open>The named pipe\<close>

text \<open>The text that a client writes for its arguments, the first of which is its name.\<close>

definition fifo_client :: "string list \<Rightarrow> string" where
  "fifo_client argv =
     (if length argv < 2 then []
      else foldl (\<lambda>line a. line @ '' '' @ a) (argv ! 1) (drop 2 argv) @ [CHR 0x0A])"

text \<open>
  The server holds a writing end, so it never sees the end of the pipe: \<^verbatim>\<open>getline\<close> waits for the end of a line.
  The results are the lines printed and whether the server has ended.
\<close>

function fifo_loop :: "string \<Rightarrow> string list \<times> bool" where
  "fifo_loop s =
     (if CHR 0x0A \<notin> set s then ([], False)
      else let line = takeWhile (\<lambda>c. c \<noteq> CHR 0x0A) s; rest = tl (dropWhile (\<lambda>c. c \<noteq> CHR 0x0A) s);
               out = ''<'' @ c_string line @ ''>''
           in if line = ''quit'' then ([out], True)
              else case fifo_loop rest of (outs, ended) \<Rightarrow> (out # outs, ended))"
  by pat_completeness auto
termination
proof (relation "measure length")
  fix s :: string and line rest
  assume s: "\<not> CHR 0x0A \<notin> set s" and rest: "rest = tl (dropWhile (\<lambda>c. c \<noteq> CHR 0x0A) s)"
  have "0 < length s" using s by (cases s) auto
  then show "(rest, s) \<in> measure length"
    unfolding in_measure rest length_tl using length_dropWhile_le [of "\<lambda>c. c \<noteq> CHR 0x0A" s] by arith
qed simp

declare fifo_loop.simps [simp del]

definition fifo_server :: "int \<Rightarrow> string \<Rightarrow> string list \<times> int option" where
  "fifo_server made stream =
     (if made \<noteq> 0 then ([''Failed to open pipe''], Some 1)
      else case fifo_loop stream of (out, ended) \<Rightarrow> (out, if ended then Some 0 else None))"

subsection \<open>The anonymous pipe\<close>

datatype poll_turn = Poll_failed | Poll_timeout | Read_failed | Read_data string

text \<open>
  The loop of \<^verbatim>\<open>main\<close> over what its turns meet; the buffer has ten characters and keeps what was read before. The
  exit status is none when the turns are used up. The results of \<^verbatim>\<open>read\<close> are at most as long as the buffer.
\<close>

fun pipe_loop :: "string \<Rightarrow> poll_turn list \<Rightarrow> string list \<times> int option" where
  "pipe_loop buf [] = ([], None)"
| "pipe_loop buf (Poll_failed # ts) = ([''.'', ''poll''], Some 1)"
| "pipe_loop buf (Poll_timeout # ts) = (case pipe_loop buf ts of (out, st) \<Rightarrow> (''.'' # out, st))"
| "pipe_loop buf (Read_failed # ts) = ([''.'', ''read''], Some 1)"
| "pipe_loop buf (Read_data d # ts) =
     (let r = take 10 d; buf = r @ drop (length r) buf; line = (if r = [] then [] else [''<'' @ c_string r @ ''>''])
      in if hd buf = CHR ''F'' then (''.'' # line, Some 0)
         else case pipe_loop buf ts of (out, st) \<Rightarrow> (''.'' # line @ out, st))"

definition pipe_main :: "int \<Rightarrow> poll_turn list \<Rightarrow> string list \<times> int option" where
  "pipe_main piped turns = (if piped < 0 then ([''pipe2''], Some 1) else pipe_loop (replicate 10 (CHR 0x00)) turns)"

text \<open>What the thread writes, one letter a second.\<close>

definition pipe_letters :: string where
  "pipe_letters = map char_of [65..<71 :: nat]"

subsection \<open>Properties\<close>

definition words_line :: "string list \<Rightarrow> string" where
  "words_line ws = (case ws of [] \<Rightarrow> [] | w # ws \<Rightarrow> w @ path_string (CHR '' '') ws)"

lemma foldl_words: "foldl (\<lambda>line a. line @ CHR '' '' # a) w ws = w @ path_string (CHR '' '') ws"
  by (induction ws arbitrary: w) (auto simp: path_string_def)

lemma fifo_client_line: "ws \<noteq> [] \<Longrightarrow> fifo_client (name # ws) = words_line ws @ [CHR 0x0A]"
  by (cases ws) (auto simp: fifo_client_def foldl_words words_line_def)

lemma fifo_loop_line:
  assumes "CHR 0x0A \<notin> set line"
  shows "fifo_loop (line @ CHR 0x0A # rest) =
    (if line = ''quit'' then ([''<'' @ c_string line @ ''>''], True)
     else case fifo_loop rest of (outs, ended) \<Rightarrow> ((''<'' @ c_string line @ ''>'') # outs, ended))"
proof -
  have "takeWhile (\<lambda>c. c \<noteq> CHR 0x0A) (line @ CHR 0x0A # rest) = line"
    "dropWhile (\<lambda>c. c \<noteq> CHR 0x0A) (line @ CHR 0x0A # rest) = CHR 0x0A # rest"
    using assms by (induction line) auto
  then show ?thesis by (subst fifo_loop.simps) (simp add: Let_def)
qed

text \<open>The commands up to and including the first \<^verbatim>\<open>quit\<close>.\<close>

fun until_quit :: "string list \<Rightarrow> string list" where
  "until_quit [] = []"
| "until_quit (l # ls) = (if l = ''quit'' then [l] else l # until_quit ls)"

text \<open>
  Whatever clients write one after the other, the server prints the words of each in one line, in their order, up
  to the first that is \<^verbatim>\<open>quit\<close>, and ends exactly then.
\<close>

theorem fifo_lines:
  assumes "\<forall>ws \<in> set cmds. ws \<noteq> [] \<and> CHR 0x0A \<notin> set (words_line ws)"
  shows "fifo_server 0 (concat (map (\<lambda>ws. fifo_client (name # ws)) cmds)) =
    (map (\<lambda>l. ''<'' @ c_string l @ ''>'') (until_quit (map words_line cmds)),
     if ''quit'' \<in> set (map words_line cmds) then Some 0 else None)"
proof -
  have "fifo_loop (concat (map (\<lambda>ws. fifo_client (name # ws)) cmds)) =
    (map (\<lambda>l. ''<'' @ c_string l @ ''>'') (until_quit (map words_line cmds)), ''quit'' \<in> set (map words_line cmds))"
    using assms
  proof (induction cmds)
    case Nil
    show ?case by (simp add: fifo_loop.simps)
  next
    case (Cons ws cmds)
    then show ?case by (simp add: fifo_client_line fifo_loop_line)
  qed
  then show ?thesis by (simp add: fifo_server_def)
qed

text \<open>
  The reader ends when the letters arrive one by one; when the last two come together, the first character is not
  the one it waits for, and it goes on.
\<close>

theorem pipe_ends:
  "pipe_main 0 (map (\<lambda>c. Read_data [c]) pipe_letters) =
     (concat (map (\<lambda>c. [''.'', ''<'' @ [c] @ ''>'']) pipe_letters), Some 0)"
  "snd (pipe_main 0 (map (\<lambda>c. Read_data [c]) ''ABCD'' @ [Read_data ''EF''] @ replicate n Poll_timeout)) = None"
proof -
  show "pipe_main 0 (map (\<lambda>c. Read_data [c]) pipe_letters) =
     (concat (map (\<lambda>c. [''.'', ''<'' @ [c] @ ''>'']) pipe_letters), Some 0)" by code_simp
  have "snd (pipe_loop buf (replicate n Poll_timeout)) = None" for buf
    by (induction n) (auto split: prod.splits)
  then show "snd (pipe_main 0 (map (\<lambda>c. Read_data [c]) ''ABCD'' @ [Read_data ''EF''] @ replicate n Poll_timeout)) = None"
    by (simp add: pipe_main_def Let_def split: prod.splits) (metis snd_conv)
qed

end
