(* ===== verification/Pg_Main.thy ===== *)
theory Pg_Main
  imports Prelude
begin

section \<open>The program of the proxy\<close>

text \<open>
  Models \<^verbatim>\<open>PostgresProxy/main.cpp\<close>, the reading of its arguments, and \<^verbatim>\<open>PostgresProxy/logger.cpp\<close>. The value of
  \<^verbatim>\<open>errno\<close> before a conversion, the date and the formatted text are arguments.
\<close>

subsection \<open>Arguments\<close>

definition proxy_usage :: "string \<Rightarrow> string list" where
  "proxy_usage self = [''Usage:'', self @ '' <client port> <server IP> <server port(default = 5432)>'']"

text \<open>The answer and the new value of \<^verbatim>\<open>num\<close>.\<close>

definition read_uint_arg :: "bool \<Rightarrow> string list \<Rightarrow> u32 \<Rightarrow> nat \<Rightarrow> bool \<Rightarrow> bool \<times> u32" where
  "read_uint_arg errno_set argv num arg optional =
     (let n = (if length argv > arg
               then case strtoul10 (argv ! arg) of (v, too_big) \<Rightarrow>
                 if errno_set \<or> too_big \<or> strtoul10_rest (argv ! arg) \<noteq> [] then 0 else of_nat v
               else 0);
          num = (if n \<noteq> 0 then n else num)
      in (n \<noteq> 0 \<or> optional, num))"

datatype proxy_action = Show_usage "string list" | Start u32 string u32

text \<open>\<^verbatim>\<open>client_port\<close> has no value before it is read; it is used only when it was.\<close>

definition proxy_main :: "bool \<Rightarrow> string list \<Rightarrow> proxy_action" where
  "proxy_main errno_set argv =
     (if length argv < 3 then Show_usage (proxy_usage (hd argv))
      else case read_uint_arg errno_set argv 0 1 False of
        (False, _) \<Rightarrow> Show_usage (proxy_usage (hd argv))
      | (True, client_port) \<Rightarrow>
          (case read_uint_arg errno_set argv 5432 3 True of
             (False, _) \<Rightarrow> Show_usage (proxy_usage (hd argv))
           | (True, server_port) \<Rightarrow> Start client_port (argv ! 2) server_port))"

text \<open>The handler of the signal, which is set before there is a proxy: none is a null pointer.\<close>

definition interrupt_signal_handler :: "('p \<Rightarrow> 'p) \<Rightarrow> 'p option \<Rightarrow> 'p option" where
  "interrupt_signal_handler stop proxy_ref = map_option stop proxy_ref"

subsection \<open>Logging\<close>

datatype level = Level_error | Level_debug

fun level_number :: "level \<Rightarrow> nat" where
  "level_number Level_error = 0"
| "level_number Level_debug = 1"

fun level_string :: "level \<Rightarrow> string" where
  "level_string Level_error = ''error''"
| "level_string Level_debug = ''debug''"

definition trace_new :: level where
  "trace_new = Level_error"

definition trace_setup :: "level \<Rightarrow> level \<Rightarrow> level" where
  "trace_setup lvl trace = lvl"

text \<open>
  \<^verbatim>\<open>vsnprintf\<close> answers the size of the text, negative when it fails, and fills a buffer of that size.
\<close>

definition string_format :: "int \<Rightarrow> string \<Rightarrow> string" where
  "string_format n formatted =
     (if n \<le> 0 then [] else take (nat n) (formatted @ replicate (nat n) (CHR 0x00)))"

text \<open>The line that is printed, if any.\<close>

definition trace_msg :: "level \<Rightarrow> string \<Rightarrow> string \<Rightarrow> nat \<Rightarrow> level \<Rightarrow> string \<Rightarrow> string option" where
  "trace_msg trace date_time file line lvl formatted =
     (if level_number trace < level_number lvl then None
      else
        let message = date_time @ '' ['' @ level_string lvl @ '']('' @ file @ '':'' @ string_of_nat line @ '') ''
        in if formatted = [] then None else Some (message @ formatted))"

text \<open>The logger of queries: the text of its file, none when it could not be opened.\<close>

definition file_logger_new :: "bool \<Rightarrow> string option" where
  "file_logger_new opened = (if opened then Some [] else None)"

definition file_logger_log :: "string \<Rightarrow> string option \<Rightarrow> string option" where
  "file_logger_log s fs = map_option (\<lambda>t. t @ s @ [CHR 0x0A]) fs"

subsection \<open>Properties\<close>

lemma read_uint_string:
  assumes "arg < length argv" "argv ! arg = string_of_nat n" "0 < n" "n < 2 ^ 32"
  shows "read_uint_arg False argv num arg optional = (True, of_nat n)"
proof -
  have n: "n < 2 ^ 64" using assms(4) by simp
  have "(of_nat n :: u32) \<noteq> 0" using assms(3,4) by (auto simp: word_of_nat_eq_0_iff dest: dvd_imp_le)
  then show ?thesis
    using assms(1,2) strtoul_string_of_nat [OF n] strtoul_rest_string_of_nat by (simp add: read_uint_arg_def)
qed

text \<open>
  The program starts with the ports and the address that are written in its arguments; without a third argument
  the port of the server is 5432. But a third argument that is no number, or zero, is the same as none.
\<close>

theorem proxy_arguments:
  assumes "0 < p" "p < 2 ^ 32" "0 < q" "q < 2 ^ 32"
  shows "proxy_main False [self, string_of_nat p, ip] = Start (of_nat p) ip 5432 \<and>
    proxy_main False [self, string_of_nat p, ip, string_of_nat q] = Start (of_nat p) ip (of_nat q) \<and>
    proxy_main False [self, string_of_nat p, ip, ''x''] = Start (of_nat p) ip 5432"
proof -
  have "read_uint_arg False [self, string_of_nat p, ip] 5432 3 True = (True, 5432)"
    "read_uint_arg False [self, string_of_nat p, ip, ''x''] 5432 3 True = (True, 5432)"
    by (simp_all add: read_uint_arg_def strtoul10_def strtoul10_rest_def is_space_def is_digit_def Let_def value_of_digits_def)
  then show ?thesis
    using read_uint_string [of 1 "[self, string_of_nat p, ip]" p] read_uint_string [of 1 "[self, string_of_nat p, ip, string_of_nat q]" p]
      read_uint_string [of 3 "[self, string_of_nat p, ip, string_of_nat q]" q]
      read_uint_string [of 1 "[self, string_of_nat p, ip, ''x'']" p] assms
    by (simp add: proxy_main_def)
qed

text \<open>The queries without a line break can be read back from the file, in their order.\<close>

theorem file_logger_lines:
  assumes "\<forall>q \<in> set qs. CHR 0x0A \<notin> set q"
  shows "map_option (getline_items (CHR 0x0A)) (fold file_logger_log qs (file_logger_new True)) = Some qs"
proof -
  have "fold file_logger_log qs (Some t) = Some (t @ concat (map (\<lambda>q. q @ [CHR 0x0A]) qs))" for t
    by (induction qs arbitrary: t) (auto simp: file_logger_log_def)
  moreover have "getline_items (CHR 0x0A) (concat (map (\<lambda>q. q @ [CHR 0x0A]) qs)) = qs"
    using assms by (induction qs) (auto simp: getline_items_delim)
  ultimately show ?thesis by (simp add: file_logger_new_def)
qed

lemma string_format_whole: "string_format (int (length s)) s = s"
  by (simp add: string_format_def)

text \<open>A message is printed exactly when its level is enabled and it has a text.\<close>

theorem trace_prints:
  "trace_msg (trace_setup lvl trace_new) date file line l s \<noteq> None \<longleftrightarrow> (l = Level_error \<or> lvl = Level_debug) \<and> s \<noteq> []"
  by (cases l; cases lvl) (auto simp: trace_msg_def trace_setup_def)

end
