(* ===== verification/Epoll_Test.thy ===== *)
theory Epoll_Test
  imports Epoll
begin

section \<open>The tests of the epoll wrapper\<close>

text \<open>
  Models \<^verbatim>\<open>epoll/main.cpp\<close> on the wrapper of \<open>Epoll\<close>, with a pipe: which of its ends are ready, level- or
  edge-triggered, is what the kernel documents. Assertions about elapsed time are not modelled. The callbacks of
  the tests are names, \<open>test_react\<close> is what they do.
\<close>

subsection \<open>The pipe\<close>

definition pipe_r_fd :: int where "pipe_r_fd = 3"
definition pipe_w_fd :: int where "pipe_w_fd = 4"

text \<open>
  The bytes in the pipe; whether something was written, or the descriptor watched anew, since its reading end
  was last reported; the counters of the tests and whether all assertions held.
\<close>

record test_state =
  in_pipe :: string
  changed :: bool
  r_ctr :: nat
  w_ctr :: nat
  passed :: bool

definition test_init :: test_state where
  "test_init = \<lparr>in_pipe = [], changed = False, r_ctr = 0, w_ctr = 0, passed = True\<rparr>"

definition check :: "bool \<Rightarrow> test_state \<Rightarrow> test_state" where
  "check b s = s\<lparr>passed := (passed s \<and> b)\<rparr>"

definition pipe_write :: "char \<Rightarrow> test_state \<Rightarrow> test_state" where
  "pipe_write c s = s\<lparr>in_pipe := in_pipe s @ [c], changed := True\<rparr>"

text \<open>\<^verbatim>\<open>read\<close> on the pipe, which does not block: it fails when there is nothing.\<close>

definition pipe_read :: "nat \<Rightarrow> test_state \<Rightarrow> string option \<times> test_state" where
  "pipe_read n s =
     (if in_pipe s = [] then (None, s) else (Some (take n (in_pipe s)), s\<lparr>in_pipe := drop n (in_pipe s)\<rparr>))"

text \<open>The events that are ready for a descriptor and its mask, and a batch in the given order of descriptors.\<close>

definition ready_bits :: "'cb epoll \<Rightarrow> int \<Rightarrow> test_state \<Rightarrow> u32" where
  "ready_bits p fd s =
     (if fd = m_wake_fd p then (if wake_count p > 0 then EPOLLIN else 0)
      else if fd = pipe_r_fd then (if in_pipe s \<noteq> [] then EPOLLIN else 0)
      else if fd = pipe_w_fd then EPOLLOUT
      else 0)"

definition ready_batch :: "int list \<Rightarrow> 'cb epoll \<Rightarrow> test_state \<Rightarrow> (int \<times> u32) list" where
  "ready_batch order p s =
     concat (map (\<lambda>fd. case interest p fd of
         None \<Rightarrow> []
       | Some m \<Rightarrow>
           let ev = ready_bits p fd s AND m
           in if ev \<noteq> 0 \<and> (m AND EPOLLET = 0 \<or> changed s) then [(fd, ev)] else []) order)"

subsection \<open>The callbacks\<close>

datatype test_cb = Cb_fail | Cb_count | Cb_write | Cb_read nat

fun test_react :: "test_cb \<Rightarrow> int \<Rightarrow> poll_event \<Rightarrow> test_state \<Rightarrow> test_cb epoll_call list \<times> test_state" where
  "test_react Cb_fail fd e s = ([], check False s)"
| "test_react Cb_count fd e s =
     ([], let s = check (e = In) (check (fd = pipe_r_fd) s) in s\<lparr>r_ctr := r_ctr s + 1\<rparr>)"
| "test_react Cb_write fd e s =
     ([], let s = check (e = Out) (check (fd = pipe_w_fd) s)
          in if w_ctr s = 0 then pipe_write (CHR ''A'') (s\<lparr>w_ctr := w_ctr s + 1\<rparr>) else s)"
| "test_react (Cb_read n) fd e s =
     ([], let s = check (e = In) (check (fd = pipe_r_fd) s); s = s\<lparr>r_ctr := r_ctr s + 1\<rparr>
          in case pipe_read n s of
              (None, s) \<Rightarrow> check False s
            | (Some buf, s) \<Rightarrow> check (hd buf = CHR ''A'') (check (length buf = 1) s))"

subsection \<open>Tests\<close>

datatype test_step =
    T_add int "poll_event list" "test_cb option"
  | T_modify int "poll_event list"
  | T_remove int
  | T_write
  | T_stop
  | T_wait
  | T_r_ctr nat
  | T_w_ctr nat

text \<open>One statement: the assertion on the answer of the wrapper is part of it. A removal is not asserted.\<close>

fun test_exec ::
    "int list \<Rightarrow> test_step \<Rightarrow> test_cb epoll \<times> test_state \<Rightarrow> (test_cb epoll \<times> test_state) option" where
  "test_exec order (T_add fd evt cb) (p, s) =
     (case epoll_add True fd evt cb p of (ok, p) \<Rightarrow> Some (p, check ok (s\<lparr>changed := True\<rparr>)))"
| "test_exec order (T_modify fd evt) (p, s) =
     (case epoll_modify True fd evt p of (ok, p) \<Rightarrow> Some (p, check ok (s\<lparr>changed := True\<rparr>)))"
| "test_exec order (T_remove fd) (p, s) = Some (snd (epoll_remove True fd p), s)"
| "test_exec order T_write (p, s) = Some (p, pipe_write (CHR ''A'') s)"
| "test_exec order T_stop (p, s) = Some (epoll_stop_wait p, s)"
| "test_exec order T_wait (p, s) =
     map_option (\<lambda>(ok, p, s). (p, check ok s))
       (epoll_wait test_react (Some (ready_batch order p s)) (p, s\<lparr>changed := False\<rparr>))"
| "test_exec order (T_r_ctr n) (p, s) = Some (p, check (r_ctr s = n) s)"
| "test_exec order (T_w_ctr n) (p, s) = Some (p, check (w_ctr s = n) s)"

fun test_steps ::
    "int list \<Rightarrow> test_step list \<Rightarrow> test_cb epoll \<times> test_state \<Rightarrow> (test_cb epoll \<times> test_state) option" where
  "test_steps order [] st = Some st"
| "test_steps order (t # ts) st = Option.bind (test_exec order t st) (test_steps order ts)"

definition test_passes :: "int list \<Rightarrow> test_cb \<Rightarrow> test_step list \<Rightarrow> bool" where
  "test_passes order cb ts =
     (case test_steps order ts (epoll_new 5 6 0 (Some cb), test_init) of
        None \<Rightarrow> False
      | Some (p, s) \<Rightarrow> passed s)"

definition test_wait_timeout :: "test_step list" where
  "test_wait_timeout = [T_add pipe_r_fd [In] None, T_wait, T_r_ctr 0]"

definition test_read_write :: "test_step list" where
  "test_read_write =
     [T_add pipe_r_fd [In] (Some Cb_count), T_add pipe_w_fd [Out] (Some Cb_write), T_wait, T_wait, T_r_ctr 1, T_w_ctr 1]"

definition test_default_handler :: "test_step list" where
  "test_default_handler = [T_add pipe_r_fd [In] None, T_write, T_wait, T_r_ctr 1]"

definition test_remove :: "test_step list" where
  "test_remove =
     [T_add pipe_r_fd [In] (Some (Cb_read 5)), T_write, T_wait, T_write, T_wait, T_write, T_remove pipe_r_fd, T_wait, T_r_ctr 2]"

text \<open>The other thread stops the wait while there is nothing to read.\<close>

definition test_stop_wait :: "test_step list" where
  "test_stop_wait = [T_add pipe_r_fd [In] (Some Cb_count), T_stop, T_wait, T_r_ctr 0]"

definition test_one_shot :: "test_step list" where
  "test_one_shot =
     [T_add pipe_r_fd [In, OneShot] (Some (Cb_read 5)), T_write, T_wait, T_r_ctr 1, T_write, T_wait, T_r_ctr 1,
      T_modify pipe_r_fd [In], T_wait, T_r_ctr 2]"

definition test_edge_trigger :: "test_step list" where
  "test_edge_trigger =
     [T_add pipe_r_fd [In, EdgeTrigger] (Some (Cb_read 1)), T_wait, T_r_ctr 0, T_write, T_write] @
     replicate 3 T_wait @ [T_r_ctr 1, T_write, T_wait, T_r_ctr 2]"

definition epoll_main :: "int list \<Rightarrow> bool" where
  "epoll_main order \<longleftrightarrow>
     test_passes order Cb_fail test_wait_timeout \<and>
     test_passes order Cb_fail test_read_write \<and>
     test_passes order (Cb_read 5) test_default_handler \<and>
     test_passes order Cb_fail test_remove \<and>
     test_passes order Cb_fail test_stop_wait \<and>
     test_passes order Cb_fail test_one_shot \<and>
     test_passes order Cb_fail test_edge_trigger"

text \<open>
  All tests of the program pass, in whichever order the kernel reports the two ends of the pipe and the
  descriptor that wakes the wait.
\<close>

theorem epoll_tests_pass:
  "list_all epoll_main
     [[pipe_r_fd, pipe_w_fd, 6], [pipe_r_fd, 6, pipe_w_fd], [pipe_w_fd, pipe_r_fd, 6],
      [pipe_w_fd, 6, pipe_r_fd], [6, pipe_r_fd, pipe_w_fd], [6, pipe_w_fd, pipe_r_fd]]"
  by code_simp

end
